(* ===== verification/Qsh_Prelude.thy ===== *)
theory Qsh_Prelude
  imports Main "HOL-Library.Word"
begin

text \<open>
  Shared vocabulary of the development: bytes, the collections of simplification rules the
  component theories add to, Rust's saturating arithmetic on counters that are modelled as
  natural numbers, \<open>BTreeMap\<close> as a strictly sorted association list, and the interfaces that
  several components implement (a machine with an invariant, a codec with its round trip).
\<close>

section \<open>Basic types and rule collections\<close>

type_synonym byte = "8 word"

type_synonym bytes = "byte list"

named_theorems ring_simps "unfolding rules of the replay ring"

named_theorems actor_simps "unfolding rules of the session actor"

named_theorems acl_simps "unfolding rules of the policy evaluator"

section \<open>Lists\<close>

lemma remove_nth_length: "i < length xs \<Longrightarrow> length (take i xs @ drop (Suc i) xs) = length xs - 1"
  by auto

lemma take_take_drop: "take a xs @ take b (drop a xs) = take (a + b) xs"
  by (simp add: take_add)

lemma sum_list_remove_nth:
  fixes f :: "'a \<Rightarrow> nat"
  assumes "i < length xs"
  shows "sum_list (map f xs) = f (xs ! i) + sum_list (map f (take i xs @ drop (Suc i) xs))"
  by (subst id_take_nth_drop [OF assms]) simp

section \<open>Sorted association lists: the model of \<open>BTreeMap\<close>\<close>

text \<open>
  A \<open>BTreeMap\<close> is iterated in key order. It is modelled by an association list whose keys are
  strictly increasing, so that the first element is the entry \<open>keys().next()\<close> returns.
\<close>

type_synonym ('k, 'v) btree_map = "('k \<times> 'v) list"

definition btm_wf :: "('k::linorder, 'v) btree_map \<Rightarrow> bool" where
  "btm_wf m \<longleftrightarrow> sorted_wrt (<) (map fst m)"

fun btm_get :: "('k, 'v) btree_map \<Rightarrow> 'k \<Rightarrow> 'v option" where
  "btm_get [] k = None"
| "btm_get ((a, b) # m) k = (if k = a then Some b else btm_get m k)"

fun btm_insert :: "'k::linorder \<Rightarrow> 'v \<Rightarrow> ('k, 'v) btree_map \<Rightarrow> ('k, 'v) btree_map" where
  "btm_insert k v [] = [(k, v)]"
| "btm_insert k v ((a, b) # m) =
     (if k < a then (k, v) # (a, b) # m
      else if k = a then (k, v) # m
      else (a, b) # btm_insert k v m)"

lemma btm_get_insert: "btm_get (btm_insert k v m) j = (if j = k then Some v else btm_get m j)"
  by (induction m) auto

lemma btm_keys_insert: "fst ` set (btm_insert k v m) = insert k (fst ` set m)"
  by (induction k v m rule: btm_insert.induct) (simp_all add: insert_commute)

lemma btm_wf_insert: "btm_wf m \<Longrightarrow> btm_wf (btm_insert k v m)"
proof (induction m)
  case Nil
  then show ?case by (simp add: btm_wf_def)
next
  case (Cons p m)
  obtain a b where p: "p = (a, b)" by fastforce
  have "btm_wf m" and less: "\<forall>x \<in> fst ` set m. a < x"
    using Cons.prems by (auto simp: btm_wf_def p)
  then have IH: "sorted_wrt (<) (map fst (btm_insert k v m))"
    using Cons.IH by (simp add: btm_wf_def)
  show ?case
  proof (cases "k < a \<or> k = a")
    case True
    then show ?thesis using Cons.prems by (auto simp: btm_wf_def p)
  next
    case False
    then have "a < k" by auto
    then have "\<forall>x \<in> fst ` set (btm_insert k v m). a < x"
      using less by (simp add: btm_keys_insert)
    then show ?thesis using IH False by (auto simp: btm_wf_def p)
  qed
qed

lemma btm_get_None_iff: "btm_get m k = None \<longleftrightarrow> k \<notin> fst ` set m"
  by (induction m k rule: btm_get.induct) simp_all

lemma btm_length_insert:
  "btm_wf m \<Longrightarrow> length (btm_insert k v m) = (if k \<in> fst ` set m then length m else Suc (length m))"
proof (induction m)
  case Nil
  then show ?case by simp
next
  case (Cons p m)
  obtain a b where p: "p = (a, b)" by fastforce
  have "btm_wf m" and less: "\<forall>x \<in> fst ` set m. a < x"
    using Cons.prems by (auto simp: btm_wf_def p)
  then show ?case using Cons.IH by (auto simp: p)
qed

lemma btm_wf_tl: "btm_wf m \<Longrightarrow> btm_wf (tl m)"
  by (cases m) (auto simp: btm_wf_def)

lemma btm_wf_drop: "btm_wf m \<Longrightarrow> btm_wf (drop n m)"
  by (induction n arbitrary: m) (auto simp: drop_Suc btm_wf_tl)

section \<open>Strings\<close>

text \<open>\<open>str::strip_prefix\<close>, \<open>str::strip_suffix\<close>, \<open>str::starts_with\<close>, \<open>str::ends_with\<close> and \<open>str::split\<close> on a character.\<close>

definition strip_prefix :: "string \<Rightarrow> string \<Rightarrow> string option" where
  "strip_prefix p s = (if take (length p) s = p then Some (drop (length p) s) else None)"

definition strip_suffix :: "string \<Rightarrow> string \<Rightarrow> string option" where
  "strip_suffix p s = map_option rev (strip_prefix (rev p) (rev s))"

definition starts_with :: "string \<Rightarrow> string \<Rightarrow> bool" where
  "starts_with p s \<longleftrightarrow> take (length p) s = p"

definition ends_with :: "string \<Rightarrow> string \<Rightarrow> bool" where
  "ends_with p s \<longleftrightarrow> starts_with (rev p) (rev s)"

fun split_on :: "char \<Rightarrow> string \<Rightarrow> string list" where
  "split_on c [] = [[]]"
| "split_on c (x # xs) =
     (if x = c then [] # split_on c xs
      else case split_on c xs of [] \<Rightarrow> [[x]] | w # ws \<Rightarrow> (x # w) # ws)"

lemma strip_prefix_Some: "strip_prefix p s = Some r \<longleftrightarrow> s = p @ r"
proof
  show "strip_prefix p s = Some r \<Longrightarrow> s = p @ r"
    by (simp add: strip_prefix_def split: if_splits) (metis append_take_drop_id)
qed (simp add: strip_prefix_def)

lemma strip_prefix_None: "strip_prefix p s = None \<longleftrightarrow> (\<forall>r. s \<noteq> p @ r)"
  using strip_prefix_Some [of p s] by (metis option.exhaust option.distinct(1))

lemma strip_suffix_Some: "strip_suffix p s = Some r \<longleftrightarrow> s = r @ p"
proof -
  have "strip_prefix (rev p) (rev s) = Some (rev r) \<longleftrightarrow> s = r @ p"
    by (metis rev_append rev_rev_ident strip_prefix_Some)
  then show ?thesis by (auto simp: strip_suffix_def map_option_case split: option.splits)
qed

lemma starts_with_iff: "starts_with p s \<longleftrightarrow> (\<exists>r. s = p @ r)"
  unfolding starts_with_def by (metis append_eq_conv_conj append_take_drop_id)

section \<open>Decimal numbers in messages\<close>

text \<open>\<open>Display\<close> of an unsigned integer.\<close>

definition digit_char :: "nat \<Rightarrow> char" where
  "digit_char d = char_of (48 + d)"

fun nat_string :: "nat \<Rightarrow> string" where
  "nat_string n = (if n < 10 then [digit_char n] else nat_string (n div 10) @ [digit_char (n mod 10)])"

declare nat_string.simps [simp del]

definition digit_value :: "char \<Rightarrow> nat option" where
  "digit_value c = (let n = of_char c in if 48 \<le> n \<and> n \<le> 57 then Some (n - 48) else None)"

lemma digit_value_char [simp]: "d < 10 \<Longrightarrow> digit_value (digit_char d) = Some d"
  by (simp add: digit_value_def digit_char_def of_char_of)

text \<open>\<open>String::from_utf8\<close>: the well-formed byte sequences of Unicode.\<close>

definition in_range :: "nat \<Rightarrow> nat \<Rightarrow> char \<Rightarrow> bool" where
  "in_range lo hi c \<longleftrightarrow> lo \<le> of_char c \<and> of_char c \<le> hi"

definition tail_byte :: "char \<Rightarrow> bool" where
  "tail_byte c = in_range 128 191 c"

function utf8_valid :: "string \<Rightarrow> bool" where
  "utf8_valid s =
     (case s of
        [] \<Rightarrow> True
      | a # s1 \<Rightarrow>
          if in_range 0 127 a then utf8_valid s1
          else case s1 of
            [] \<Rightarrow> False
          | b # s2 \<Rightarrow>
              if in_range 194 223 a \<and> tail_byte b then utf8_valid s2
              else case s2 of
                [] \<Rightarrow> False
              | c # s3 \<Rightarrow>
                  if tail_byte c \<and> ((in_range 224 224 a \<and> in_range 160 191 b) \<or> (in_range 225 236 a \<and> tail_byte b)
                      \<or> (in_range 237 237 a \<and> in_range 128 159 b) \<or> (in_range 238 239 a \<and> tail_byte b))
                  then utf8_valid s3
                  else case s3 of
                    [] \<Rightarrow> False
                  | d # s4 \<Rightarrow>
                      if tail_byte c \<and> tail_byte d \<and> ((in_range 240 240 a \<and> in_range 144 191 b)
                          \<or> (in_range 241 243 a \<and> tail_byte b) \<or> (in_range 244 244 a \<and> in_range 128 143 b))
                      then utf8_valid s4 else False)"
  by pat_completeness auto
termination by (relation "measure length") auto

declare utf8_valid.simps [simp del]

text \<open>The same on bytes, and \<open>char::is_control\<close> on some character of a well-formed byte sequence: U+0000 to
  U+001F, U+007F, and U+0080 to U+009F, whose encodings are \<open>C2 80\<close> to \<open>C2 9F\<close>.\<close>

lemma unat_byte: "unat b < 256" for b :: byte
  using unsigned_less [of b] by simp

definition utf8_bytes :: "bytes \<Rightarrow> bool" where
  "utf8_bytes bs = utf8_valid (map (\<lambda>b. char_of (unat b)) bs)"

fun has_control :: "bytes \<Rightarrow> bool" where
  "has_control [] = False"
| "has_control (b # bs) \<longleftrightarrow>
     b < 32 \<or> b = 127 \<or> (b = 0xC2 \<and> (case bs of [] \<Rightarrow> False | c # _ \<Rightarrow> 0x80 \<le> c \<and> c \<le> 0x9F)) \<or> has_control bs"

section \<open>Fallible steps\<close>

text \<open>The \<open>?\<close> operator: go on with the value of a step, or return its error.\<close>

fun and_then :: "'e + 'a \<Rightarrow> ('a \<Rightarrow> 'e + 'b) \<Rightarrow> 'e + 'b" where
  "and_then (Inl e) f = Inl e"
| "and_then (Inr x) f = f x"

lemma and_then_Inr: "and_then r f = Inr y \<longleftrightarrow> (\<exists>x. r = Inr x \<and> f x = Inr y)"
  by (cases r) auto

text \<open>A check that ends in an error unless its condition holds.\<close>

definition guard :: "bool \<Rightarrow> 'e \<Rightarrow> 'e + unit" where
  "guard ok e = (if ok then Inr () else Inl e)"

lemma guard_Inr [simp]: "guard ok e = Inr u \<longleftrightarrow> ok"
  by (simp add: guard_def)

text \<open>Read \<open>n\<close> items one after the other.\<close>

fun get_n :: "(bytes \<Rightarrow> 'e + 'a \<times> bytes) \<Rightarrow> nat \<Rightarrow> bytes \<Rightarrow> 'e + 'a list \<times> bytes" where
  "get_n g 0 bs = Inr ([], bs)"
| "get_n g (Suc n) bs =
     and_then (g bs) (\<lambda>(x, r). and_then (get_n g n r) (\<lambda>(xs, r'). Inr (x # xs, r')))"

section \<open>Interfaces shared by several components\<close>

subsection \<open>A machine with an invariant\<close>

text \<open>
  Most components are a state, a set of operations and an invariant every operation keeps. The
  locale lifts the one-step fact to every run of operations, once.
\<close>

locale machine =
  fixes step :: "'op \<Rightarrow> 's \<Rightarrow> 's"
    and inv :: "'s \<Rightarrow> bool"
  assumes step_inv: "inv s \<Longrightarrow> inv (step x s)"
begin

lemma run_inv: "inv s \<Longrightarrow> inv (fold step xs s)"
  by (induction xs arbitrary: s) (auto intro: step_inv)

lemma run_inv_prefix: "inv s \<Longrightarrow> inv (fold step (take n xs) s)"
  by (rule run_inv)

end

subsection \<open>A codec\<close>

text \<open>
  An encoder and a decoder such that every encodable value decodes to itself. The interface
  gives injectivity of the encoder: two values never share an encoding.
\<close>

locale codec =
  fixes encode :: "'a \<Rightarrow> 'b"
    and decode :: "'b \<Rightarrow> 'e + 'a"
    and encodable :: "'a \<Rightarrow> bool"
  assumes decode_encode: "encodable x \<Longrightarrow> decode (encode x) = Inr x"
begin

lemma encode_inj: "encodable x \<Longrightarrow> encodable y \<Longrightarrow> encode x = encode y \<Longrightarrow> x = y"
  using decode_encode by (metis sum.inject(2))

lemma encode_inj_on: "inj_on encode {x. encodable x}"
  by (auto simp: inj_on_def intro: encode_inj)

end

subsection \<open>A field of a byte format\<close>

text \<open>
  A reader takes its value off the front of the input. It is canonical when it accepts exactly the
  bytes the writer makes of acceptable values; formats built from canonical fields are canonical.
\<close>

locale wire_field =
  fixes put :: "'a \<Rightarrow> bytes"
    and get :: "bytes \<Rightarrow> 'e + 'a \<times> bytes"
    and ok :: "'a \<Rightarrow> bool"
  assumes get_put: "ok x \<Longrightarrow> get (put x @ rest) = Inr (x, rest)"
    and put_get: "get bs = Inr (x, rest) \<Longrightarrow> ok x \<and> bs = put x @ rest"
begin

lemma exact: "get bs = Inr (x, rest) \<longleftrightarrow> ok x \<and> bs = put x @ rest"
  using get_put put_get by blast

lemma put_prefix_free: "ok x \<Longrightarrow> ok y \<Longrightarrow> put x @ r = put y @ s \<Longrightarrow> x = y \<and> r = s"
  by (metis get_put prod.inject sum.inject(2))

lemma get_n_exact: "get_n get n bs = Inr (xs, rest) \<longleftrightarrow>
    length xs = n \<and> list_all ok xs \<and> bs = concat (map put xs) @ rest"
proof (induction n arbitrary: bs xs)
  case 0
  then show ?case by auto
next
  case (Suc n)
  have "get_n get (Suc n) bs = Inr (xs, rest) \<longleftrightarrow>
      (\<exists>x r ys. xs = x # ys \<and> get bs = Inr (x, r) \<and> get_n get n r = Inr (ys, rest))"
    by (simp add: and_then_Inr split: prod.splits) blast
  also have "\<dots> \<longleftrightarrow> (\<exists>x ys. xs = x # ys \<and> ok x \<and> length ys = n \<and> list_all ok ys \<and>
      bs = put x @ concat (map put ys) @ rest)"
    unfolding exact Suc.IH by blast
  also have "\<dots> \<longleftrightarrow> length xs = Suc n \<and> list_all ok xs \<and> bs = concat (map put xs) @ rest"
    by (cases xs) auto
  finally show ?case .
qed

end

end
