(* ===== verification/Replay_Ring.thy ===== *)
theory Replay_Ring
  imports Qsh_Prelude
begin

text \<open>
  The per-session replay ring (\<open>qsh-core/src/broker/ring.rs\<close>): a byte-budgeted queue of output
  chunks and zero-width control entries, read through cursors. Offsets are the source's \<open>u64\<close>
  counters of bytes ever pushed; they are natural numbers here, since a session that outputs
  \<open>2 ^ 64\<close> bytes is out of reach. The specification the ring is refined to is an append-only
  log (\<open>replay_log\<close>): every byte ever pushed and every control entry ever appended.
\<close>

section \<open>Data\<close>

definition RING_CHUNK_MAX :: nat where
  "RING_CHUNK_MAX = 16 * 1024"

definition RING_CHUNK_DIVISOR :: nat where
  "RING_CHUNK_DIVISOR = 16"

definition CONTROL_ENTRY_COST :: nat where
  "CONTROL_ENTRY_COST = 64"

datatype close_reason = Closed | Exit | TtlExpired

definition close_reason_str :: "close_reason \<Rightarrow> string" where
  "close_reason_str r =
     (case r of Closed \<Rightarrow> ''closed'' | Exit \<Rightarrow> ''exit'' | TtlExpired \<Rightarrow> ''ttl_expired'')"

datatype control_event =
    ExitEvent "int option" "string option"
  | WriterChanged "string option"
  | ClosedEvent close_reason

datatype replay_event =
    OutputEv nat bytes
  | GapEv nat nat
  | ControlEv nat nat control_event

record cursor =
  after :: nat
  ctl_after :: nat

definition from_offset :: "nat \<Rightarrow> cursor" where
  "from_offset n = \<lparr>after = n, ctl_after = 0\<rparr>"

record read_out =
  events :: "replay_event list"
  next_cursor :: cursor

fun is_gap :: "replay_event \<Rightarrow> bool" where
  "is_gap (GapEv _ _) = True"
| "is_gap _ = False"

definition has_gap :: "read_out \<Rightarrow> bool" where
  "has_gap out = list_ex is_gap (events out)"

text \<open>
  The source's only read error is a cursor beyond the end. The second constructor is the panic
  of the unsigned subtraction \<open>from - *start\<close>; \<open>ring_read_exact\<close> below shows that it never happens.
\<close>

datatype read_error = CursorBeyondEnd nat nat | SubtractOverflow

datatype entry = Output nat bytes | Control nat nat control_event

fun cost :: "entry \<Rightarrow> nat" where
  "cost (Output _ d) = length d"
| "cost (Control _ _ _) = CONTROL_ENTRY_COST"

fun is_output :: "entry \<Rightarrow> bool" where
  "is_output (Output _ _) = True"
| "is_output (Control _ _ _) = False"

text \<open>
  \<open>piece_max\<close> is a field of the struct that only the constructor sets, always to the same
  function of the budget; it is that function here.
\<close>

record replay_ring =
  budget :: nat
  entries :: "entry list"
  retained :: nat
  end_off :: nat
  next_ctl_id :: nat
  lost_ctl :: "(nat \<times> nat) option"

definition piece_max :: "replay_ring \<Rightarrow> nat" where
  "piece_max r = max 1 (min RING_CHUNK_MAX (budget r div RING_CHUNK_DIVISOR))"

definition new_ring :: "nat \<Rightarrow> replay_ring" where
  "new_ring b = \<lparr>budget = max b 1, entries = [], retained = 0, end_off = 0, next_ctl_id = 1,
     lost_ctl = None\<rparr>"

section \<open>Operations\<close>

fun first_start :: "entry list \<Rightarrow> nat option" where
  "first_start [] = None"
| "first_start (Output s _ # _) = Some s"
| "first_start (Control _ _ _ # es) = first_start es"

definition available_from :: "replay_ring \<Rightarrow> nat" where
  "available_from r = (case first_start (entries r) of Some s \<Rightarrow> s | None \<Rightarrow> end_off r)"

fun oldest_output :: "entry list \<Rightarrow> nat option" where
  "oldest_output [] = None"
| "oldest_output (e # es) =
     (if is_output e then Some 0 else map_option Suc (oldest_output es))"

text \<open>One turn of the body of \<open>evict\<close>: remove the oldest output, or else the front control.\<close>

definition pop_front_control :: "replay_ring \<Rightarrow> replay_ring" where
  "pop_front_control r =
     (case entries r of
        Control s i _ # es \<Rightarrow>
          r\<lparr>entries := es, retained := retained r - CONTROL_ENTRY_COST, lost_ctl := Some (s, i)\<rparr>
      | _ # es \<Rightarrow> r\<lparr>entries := es\<rparr>
      | [] \<Rightarrow> r)"

definition evict_one :: "replay_ring \<Rightarrow> replay_ring" where
  "evict_one r =
     (case oldest_output (entries r) of
        Some i \<Rightarrow>
          (if i + 1 < length (entries r)
           then r\<lparr>entries := take i (entries r) @ drop (Suc i) (entries r),
                  retained := retained r - cost (entries r ! i)\<rparr>
           else pop_front_control r)
      | None \<Rightarrow> pop_front_control r)"

text \<open>The inner loop of \<open>evict\<close>: drop the controls strictly behind the oldest output.\<close>

fun drop_behind :: "nat \<Rightarrow> entry list \<Rightarrow> entry list" where
  "drop_behind av (Control s i e # es) =
     (if s < av then drop_behind av es else Control s i e # es)"
| "drop_behind av es = es"

definition drop_covered :: "replay_ring \<Rightarrow> replay_ring" where
  "drop_covered r =
     (let es = drop_behind (available_from r) (entries r)
      in r\<lparr>entries := es,
           retained := retained r - CONTROL_ENTRY_COST * (length (entries r) - length es)\<rparr>)"

lemma oldest_output_less: "oldest_output es = Some i \<Longrightarrow> i < length es"
  by (induction es arbitrary: i) (auto split: if_splits)

lemma length_pop_front_control:
  "entries r \<noteq> [] \<Longrightarrow> length (entries (pop_front_control r)) < length (entries r)"
  by (auto simp: pop_front_control_def split: list.splits entry.splits)

lemma length_evict_one:
  "entries r \<noteq> [] \<Longrightarrow> length (entries (evict_one r)) < length (entries r)"
  by (auto simp: evict_one_def length_pop_front_control split: option.splits dest: oldest_output_less)

lemma length_drop_behind: "length (drop_behind av es) \<le> length es"
  by (induction av es rule: drop_behind.induct) auto

function evict :: "replay_ring \<Rightarrow> replay_ring" where
  "evict r =
     (if retained r > budget r \<and> length (entries r) > 1
      then evict (drop_covered (evict_one r)) else r)"
  by pat_completeness auto
termination
proof (relation "measure (\<lambda>r. length (entries r))", simp)
  fix r :: replay_ring
  assume "retained r > budget r \<and> length (entries r) > 1"
  then have "length (entries (evict_one r)) < length (entries r)"
    by (intro length_evict_one) auto
  then show "(drop_covered (evict_one r), r) \<in> measure (\<lambda>r. length (entries r))"
    using length_drop_behind [of "available_from (evict_one r)" "entries (evict_one r)"]
    by (simp add: drop_covered_def Let_def)
qed

declare evict.simps [simp del]

text \<open>\<open>append_output\<close> returns how many bytes it took; the tail chunk grows up to the chunk size.\<close>

definition append_output :: "replay_ring \<Rightarrow> bytes \<Rightarrow> replay_ring \<times> nat" where
  "append_output r piece =
     (let fresh =
        (let k = min (length piece) (piece_max r)
         in (r\<lparr>entries := entries r @ [Output (end_off r) (take k piece)]\<rparr>, k))
      in if entries r = [] then fresh
         else case last (entries r) of
                Output s d \<Rightarrow>
                  (if length d < piece_max r
                   then (let k = min (length piece) (piece_max r - length d)
                         in (r\<lparr>entries := butlast (entries r) @ [Output s (d @ take k piece)]\<rparr>, k))
                   else fresh)
              | Control _ _ _ \<Rightarrow> fresh)"

lemma piece_max_pos [simp]: "0 < piece_max r"
  by (simp add: piece_max_def)

lemma append_output_pos: "piece \<noteq> [] \<Longrightarrow> 0 < snd (append_output r piece)"
  by (auto simp: append_output_def Let_def split: entry.splits)

definition push_piece :: "replay_ring \<Rightarrow> bytes \<Rightarrow> replay_ring \<times> nat" where
  "push_piece r rest =
     (let (r', n) = append_output r rest
      in (evict (r'\<lparr>retained := retained r' + n, end_off := end_off r' + n\<rparr>), n))"

function push :: "replay_ring \<Rightarrow> bytes \<Rightarrow> replay_ring" where
  "push r rest =
     (if rest = [] then r
      else (let (r', n) = push_piece r rest in push r' (drop n rest)))"
  by pat_completeness auto
termination
proof (relation "measure (\<lambda>(r, rest). length rest)", simp)
  fix r :: replay_ring and rest :: bytes and x r' n
  assume "rest \<noteq> []" and x: "x = push_piece r rest" and "(r', n) = x"
  then have "n = snd (append_output r rest)"
    by (auto simp: push_piece_def Let_def split: prod.splits)
  then have "0 < n" using append_output_pos [OF \<open>rest \<noteq> []\<close>] by simp
  then show "((r', drop n rest), r, rest) \<in> measure (\<lambda>(r, rest). length rest)"
    using \<open>rest \<noteq> []\<close> by (cases rest) auto
qed

declare push.simps [simp del]

definition push_control :: "replay_ring \<Rightarrow> control_event \<Rightarrow> replay_ring \<times> nat \<times> nat" where
  "push_control r ev =
     (let i = next_ctl_id r; s = end_off r
      in (evict (r\<lparr>next_ctl_id := i + 1, entries := entries r @ [Control s i ev],
                   retained := retained r + CONTROL_ENTRY_COST\<rparr>), s, i))"

text \<open>
  The loop of \<open>read\<close>: \<open>from\<close>, \<open>ctl\<close> and \<open>remaining\<close> are its mutable variables, the result is the
  emitted events with the final \<open>from\<close> and \<open>ctl\<close>; \<open>None\<close> is the subtraction panic.
\<close>

fun read_loop :: "nat \<Rightarrow> entry list \<Rightarrow> nat \<Rightarrow> nat \<Rightarrow> nat \<Rightarrow> (replay_event list \<times> nat \<times> nat) option" where
  "read_loop start_from [] from ctl remaining = Some ([], from, ctl)"
| "read_loop start_from (Output s d # es) from ctl remaining =
     (if s + length d \<le> from then read_loop start_from es from ctl remaining
      else if remaining = 0 then Some ([], from, ctl)
      else if from < s then None
      else
        let skip = from - s;
            k = min (length d - skip) remaining;
            chunk = take k (drop skip d);
            ev = OutputEv (from + k) chunk
        in if k < length d - skip then Some ([ev], from + k, ctl)
           else map_option (\<lambda>(evs, f, c). (ev # evs, f, c))
                  (read_loop start_from es (from + k) ctl (remaining - k)))"
| "read_loop start_from (Control s i e # es) from ctl remaining =
     (if s < start_from then read_loop start_from es from (max ctl i) remaining
      else if s > from then Some ([], from, ctl)
      else if i \<le> ctl then read_loop start_from es from ctl remaining
      else map_option (\<lambda>(evs, f, c). (ControlEv s i e # evs, f, c))
             (read_loop start_from es from i remaining))"

definition ring_read :: "replay_ring \<Rightarrow> cursor \<Rightarrow> nat \<Rightarrow> read_error + read_out" where
  "ring_read r cur max_bytes =
     (if after cur > end_off r then Inl (CursorBeyondEnd (after cur) (end_off r))
      else
        let av = available_from r;
            gap1 = (if after cur < av then [GapEv (after cur) av] else []);
            from = (if after cur < av then av else after cur);
            owed = (case lost_ctl r of
                      None \<Rightarrow> None
                    | Some (ls, li) \<Rightarrow> (if ctl_after cur < li \<and> from \<le> ls then Some li else None));
            gap = (case owed of
                     None \<Rightarrow> gap1
                   | Some _ \<Rightarrow> (if gap1 = [] then [GapEv (after cur) from] else gap1));
            ctl = (case owed of None \<Rightarrow> ctl_after cur | Some li \<Rightarrow> li)
        in case read_loop from (entries r) from ctl max_bytes of
             None \<Rightarrow> Inl SubtractOverflow
           | Some (evs, f, c) \<Rightarrow>
               Inr \<lparr>events = gap @ evs, next_cursor = \<lparr>after = f, ctl_after = c\<rparr>\<rparr>)"

section \<open>The specification: an append-only log\<close>

record replay_log =
  log :: bytes
  ctls :: "(nat \<times> nat \<times> control_event) list"

definition log_new :: replay_log where
  "log_new = \<lparr>log = [], ctls = []\<rparr>"

definition log_push :: "replay_log \<Rightarrow> bytes \<Rightarrow> replay_log" where
  "log_push L d = L\<lparr>log := log L @ d\<rparr>"

definition log_push_control :: "replay_log \<Rightarrow> control_event \<Rightarrow> replay_log" where
  "log_push_control L ev = L\<lparr>ctls := ctls L @ [(length (log L), Suc (length (ctls L)), ev)]\<rparr>"

section \<open>The refinement relation\<close>

fun chain :: "nat \<Rightarrow> entry list \<Rightarrow> nat \<Rightarrow> bool" where
  "chain off [] e \<longleftrightarrow> off = e"
| "chain off (Output s d # es) e \<longleftrightarrow> s = off \<and> d \<noteq> [] \<and> chain (off + length d) es e"
| "chain off (Control s i ev # es) e \<longleftrightarrow> s = off \<and> chain off es e"

fun out_bytes :: "entry list \<Rightarrow> bytes" where
  "out_bytes [] = []"
| "out_bytes (Output s d # es) = d @ out_bytes es"
| "out_bytes (Control s i ev # es) = out_bytes es"

fun out_ctls :: "entry list \<Rightarrow> (nat \<times> nat \<times> control_event) list" where
  "out_ctls [] = []"
| "out_ctls (Output s d # es) = out_ctls es"
| "out_ctls (Control s i ev # es) = (s, i, ev) # out_ctls es"

definition ctls_wf :: "(nat \<times> nat \<times> control_event) list \<Rightarrow> nat \<Rightarrow> bool" where
  "ctls_wf cs n \<longleftrightarrow>
     map (\<lambda>(s, i, e). i) cs = [1..<Suc (length cs)] \<and>
     sorted (map fst cs) \<and> (\<forall>c \<in> set cs. fst c \<le> n)"

text \<open>
  \<open>retains r L a k\<close>: the ring holds the bytes of the log from offset \<open>a\<close> on and all its control
  entries but the first \<open>k\<close>; each of those \<open>k\<close> sits before \<open>a\<close>, or is covered by \<open>lost_ctl\<close>.
\<close>

definition lost_ok :: "(nat \<times> nat) option \<Rightarrow> nat \<Rightarrow> (nat \<times> nat \<times> control_event) list \<Rightarrow> bool" where
  "lost_ok lost a cs \<longleftrightarrow> (\<forall>ls li. lost = Some (ls, li) \<longrightarrow> ls \<le> a \<and> (\<exists>e. (ls, li, e) \<in> set cs))"

definition dropped_ok :: "(nat \<times> nat) option \<Rightarrow> nat \<Rightarrow> (nat \<times> nat \<times> control_event) list \<Rightarrow> bool" where
  "dropped_ok lost a cs \<longleftrightarrow>
     (\<forall>(s, i, e) \<in> set cs. s < a \<or> (\<exists>ls li. lost = Some (ls, li) \<and> i \<le> li \<and> s \<le> ls))"

definition retains :: "replay_ring \<Rightarrow> replay_log \<Rightarrow> nat \<Rightarrow> nat \<Rightarrow> bool" where
  "retains r L a k \<longleftrightarrow>
     0 < budget r \<and>
     end_off r = length (log L) \<and>
     next_ctl_id r = Suc (length (ctls L)) \<and>
     ctls_wf (ctls L) (length (log L)) \<and>
     chain a (entries r) (end_off r) \<and>
     out_bytes (entries r) = drop a (log L) \<and>
     retained r = sum_list (map cost (entries r)) \<and>
     (\<forall>s d. Output s d \<in> set (entries r) \<longrightarrow> length d \<le> piece_max r) \<and>
     k \<le> length (ctls L) \<and> out_ctls (entries r) = drop k (ctls L) \<and>
     lost_ok (lost_ctl r) a (take k (ctls L)) \<and> dropped_ok (lost_ctl r) a (take k (ctls L))"

definition holds :: "replay_ring \<Rightarrow> replay_log \<Rightarrow> bool" where
  "holds r L \<longleftrightarrow> (\<exists>k. retains r L (available_from r) k)"

text \<open>Outside \<open>evict\<close> the ring is within its budget, or holds a single entry.\<close>

definition trimmed :: "replay_ring \<Rightarrow> bool" where
  "trimmed r \<longleftrightarrow> retained r \<le> budget r \<or> length (entries r) \<le> 1"

lemma chain_append: "chain a (xs @ ys) c \<longleftrightarrow> (\<exists>b. chain a xs b \<and> chain b ys c)"
  by (induction a xs c rule: chain.induct) auto

lemma chain_le: "chain a es b \<Longrightarrow> a \<le> b"
  by (induction a es b rule: chain.induct) auto

lemma chain_length: "chain a es b \<Longrightarrow> b = a + length (out_bytes es)"
  by (induction a es b rule: chain.induct) auto

lemma out_bytes_append [simp]: "out_bytes (xs @ ys) = out_bytes xs @ out_bytes ys"
  by (induction xs rule: out_bytes.induct) auto

lemma out_ctls_append [simp]: "out_ctls (xs @ ys) = out_ctls xs @ out_ctls ys"
  by (induction xs rule: out_ctls.induct) auto

lemma first_start_append:
  "first_start (xs @ ys) = (case first_start xs of None \<Rightarrow> first_start ys | Some s \<Rightarrow> Some s)"
  by (induction xs rule: first_start.induct) auto

lemma first_start_None: "first_start es = None \<longleftrightarrow> (\<forall>e \<in> set es. \<not> is_output e)"
  by (induction es rule: first_start.induct) auto

lemma chain_first_start: "chain a es b \<Longrightarrow> first_start es = Some s \<Longrightarrow> s = a"
  by (induction a es b rule: chain.induct) auto

lemma no_output_bytes: "first_start es = None \<Longrightarrow> out_bytes es = []"
  by (induction es rule: first_start.induct) auto

text \<open>The oldest output splits the queue: controls only, the output, the rest.\<close>

lemma oldest_output_split:
  assumes "oldest_output es = Some i"
  shows "\<exists>cs s d rest. es = cs @ Output s d # rest \<and> length cs = i \<and> first_start cs = None"
  using assms
proof (induction es arbitrary: i)
  case Nil
  then show ?case by simp
next
  case (Cons e es)
  show ?case
  proof (cases e)
    case (Output s d)
    then show ?thesis using Cons.prems by (intro exI [of _ "[]"]) auto
  next
    case (Control s j ev)
    then obtain i' where "oldest_output es = Some i'" and i: "i = Suc i'"
      using Cons.prems by auto
    with Cons.IH obtain cs s' d rest
      where "es = cs @ Output s' d # rest" "length cs = i'" "first_start cs = None" by blast
    then show ?thesis
      using Control i by (intro exI [of _ "e # cs"]) auto
  qed
qed

lemma oldest_output_None: "oldest_output es = None \<longleftrightarrow> first_start es = None"
  by (induction es rule: first_start.induct) auto


lemma drop_behind_chain: "chain av es e \<Longrightarrow> drop_behind av es = es"
  by (cases "(av, es)" rule: drop_behind.cases) auto

lemma controls_only_chain:
  "first_start cs = None \<Longrightarrow> chain a cs b \<Longrightarrow> b = a \<and> out_bytes cs = []"
  by (induction a cs b rule: chain.induct) auto

lemma drop_behind_controls:
  "first_start cs = None \<Longrightarrow> chain a cs b \<Longrightarrow> a < av \<Longrightarrow> drop_behind av (cs @ rest) = drop_behind av rest"
  by (induction a cs b rule: chain.induct) auto

lemma controls_only_cost:
  "first_start cs = None \<Longrightarrow> sum_list (map cost cs) = CONTROL_ENTRY_COST * length cs"
  by (induction cs rule: first_start.induct) auto

lemma controls_only_ctls: "first_start cs = None \<Longrightarrow> length (out_ctls cs) = length cs"
  by (induction cs rule: first_start.induct) auto

lemma chain_ctls_fst:
  "first_start cs = None \<Longrightarrow> chain a cs b \<Longrightarrow> c \<in> set (out_ctls cs) \<Longrightarrow> fst c = a"
  by (induction a cs b rule: chain.induct) auto

text \<open>The offset where a chained queue starts is the ring's \<open>available_from\<close>.\<close>

lemma available_from_chain:
  assumes "chain a (entries r) (end_off r)"
  shows "available_from r = a"
proof (cases "first_start (entries r)")
  case None
  then show ?thesis using controls_only_chain [OF None assms] by (simp add: available_from_def)
next
  case (Some s)
  then show ?thesis using chain_first_start [OF assms] by (simp add: available_from_def)
qed

lemma evict_output_step:
  assumes es: "entries r = cs @ Output s d # rest" and cs: "first_start cs = None"
    and ne: "rest \<noteq> []" and ch: "chain a (entries r) (end_off r)"
    and ret: "retained r = sum_list (map cost (entries r))"
  shows "drop_covered (evict_one r) =
           r\<lparr>entries := rest, retained := sum_list (map cost rest)\<rparr>"
    and "chain (a + length d) rest (end_off r)" and "chain a cs a" and "d \<noteq> []"
proof -
  from ch es obtain b where b: "chain a cs b" "chain b (Output s d # rest) (end_off r)"
    by (auto simp: chain_append)
  with controls_only_chain [OF cs] have ba: "b = a" by blast
  with b show chr: "chain (a + length d) rest (end_off r)" and "chain a cs a" and d: "d \<noteq> []"
    by auto
  have len: "oldest_output (cs @ Output s d # rest) = Some (length cs)"
    using cs by (induction cs rule: first_start.induct) auto
  let ?r1 = "r\<lparr>entries := cs @ rest, retained := retained r - length d\<rparr>"
  have one: "evict_one r = ?r1"
    using ne by (simp add: evict_one_def es len nth_append)
  have av: "available_from ?r1 = a + length d"
  proof (cases "first_start rest")
    case None
    then show ?thesis using controls_only_chain [OF None chr] cs
      by (simp add: available_from_def first_start_append)
  next
    case (Some x)
    then show ?thesis using chain_first_start [OF chr Some] cs
      by (simp add: available_from_def first_start_append)
  qed
  have "drop_behind (a + length d) (cs @ rest) = rest"
    using drop_behind_controls [OF cs, of a a "a + length d" rest] b ba d drop_behind_chain [OF chr]
    by simp
  then show "drop_covered (evict_one r) = r\<lparr>entries := rest, retained := sum_list (map cost rest)\<rparr>"
    unfolding one drop_covered_def av by (simp add: Let_def ret es controls_only_cost [OF cs])
qed

lemma evict_control_step:
  assumes ch: "chain a (entries r) (end_off r)"
    and no: "\<nexists>i. oldest_output (entries r) = Some i \<and> i + 1 < length (entries r)"
    and len: "length (entries r) > 1"
    and ret: "retained r = sum_list (map cost (entries r))"
  shows "\<exists>i ev es. entries r = Control a i ev # es \<and> chain a es (end_off r) \<and>
           drop_covered (evict_one r) =
             r\<lparr>entries := es, retained := sum_list (map cost es), lost_ctl := Some (a, i)\<rparr>"
proof -
  obtain e es where e: "entries r = e # es" using len by (cases "entries r") auto
  have pop: "evict_one r = pop_front_control r"
    using no by (auto simp: evict_one_def split: option.splits)
  have "\<not> is_output e" using no len e by auto
  then obtain s i ev where c: "e = Control s i ev" by (cases e) auto
  have sa: "s = a" and che: "chain a es (end_off r)" using ch e c by auto
  let ?r1 = "r\<lparr>entries := es, retained := sum_list (map cost es), lost_ctl := Some (a, i)\<rparr>"
  have "pop_front_control r = ?r1"
    using ret by (simp add: pop_front_control_def e c sa)
  moreover have "available_from ?r1 = a" using available_from_chain [of a ?r1] che by simp
  ultimately have "drop_covered (evict_one r) = ?r1"
    by (simp add: pop drop_covered_def drop_behind_chain [OF che])
  then show ?thesis using e c sa che by blast
qed


lemma retains_available: "retains r L a k \<Longrightarrow> available_from r = a"
  unfolding retains_def by (elim conjE) (rule available_from_chain)

lemma retains_holds: "retains r L a k \<Longrightarrow> holds r L"
  using retains_available unfolding holds_def by blast

lemma ctls_wf_id:
  assumes "ctls_wf cs n" "k < length cs"
  shows "fst (snd (cs ! k)) = Suc k"
proof -
  have "map (\<lambda>(s, i, e). i) cs ! k = [1..<Suc (length cs)] ! k"
    using assms by (simp add: ctls_wf_def)
  then have "(\<lambda>(s, i, e). i) (cs ! k) = 1 + k"
    using assms(2) by (simp add: nth_upt del: upt_Suc)
  then show ?thesis by (simp add: case_prod_unfold)
qed

lemma ctls_wf_take_id:
  assumes "ctls_wf cs n" "(s, i, e) \<in> set (take k cs)"
  shows "i \<le> k"
proof -
  obtain j where "j < k" "j < length cs" "cs ! j = (s, i, e)"
    using assms(2) by (auto simp: in_set_conv_nth)
  then show ?thesis using ctls_wf_id [OF assms(1), of j] by simp
qed

lemma retains_evict_output:
  assumes ret: "retains r L a k" and es: "entries r = cs @ Output s d # rest"
    and cs: "first_start cs = None" and ne: "rest \<noteq> []"
  shows "retains (drop_covered (evict_one r)) L (a + length d) (k + length cs)"
proof -
  have ch: "chain a (entries r) (end_off r)" and c: "retained r = sum_list (map cost (entries r))"
    using ret by (auto simp: retains_def)
  note st = evict_output_step [OF es cs ne ch c]
  have oc: "out_ctls cs @ out_ctls rest = drop k (ctls L)" and k: "k \<le> length (ctls L)"
    using ret by (auto simp: retains_def es)
  have lcs: "length (out_ctls cs) = length cs" using controls_only_ctls [OF cs] .
  have oc1: "out_ctls rest = drop (k + length cs) (ctls L)"
    using arg_cong [OF oc, of "drop (length cs)"] lcs by (simp add: add.commute)
  have oc2: "take (length cs) (drop k (ctls L)) = out_ctls cs"
    using arg_cong [OF oc, of "take (length cs)"] lcs by simp
  have kl: "k + length cs \<le> length (ctls L)"
    using arg_cong [OF oc, of length] lcs k by simp
  have bytes: "out_bytes rest = drop (a + length d) (log L)"
  proof -
    have "out_bytes cs @ d @ out_bytes rest = drop a (log L)"
      using ret by (simp add: retains_def es)
    then have "d @ out_bytes rest = drop a (log L)"
      using controls_only_chain [OF cs st(3)] by simp
    then have "out_bytes rest = drop (length d) (drop a (log L))"
      by (metis append_eq_conv_conj)
    then show ?thesis by (simp add: add.commute)
  qed
  have dr: "dropped_ok (lost_ctl r) (a + length d) (take (k + length cs) (ctls L))"
  proof -
    have "\<forall>x \<in> set (out_ctls cs). fst x = a" using chain_ctls_fst [OF cs st(3)] by blast
    then show ?thesis using ret st(4)
      by (fastforce simp: retains_def dropped_ok_def take_add oc2 dest: bspec)
  qed
  show ?thesis
    using ret st(2) oc1 kl bytes dr
    by (fastforce simp: retains_def st(1) es lost_ok_def piece_max_def take_add)
qed

lemma retains_evict_control:
  assumes ret: "retains r L a k"
    and no: "\<nexists>i. oldest_output (entries r) = Some i \<and> i + 1 < length (entries r)"
    and len: "length (entries r) > 1"
  shows "retains (drop_covered (evict_one r)) L a (Suc k)"
proof -
  have ch: "chain a (entries r) (end_off r)" and c: "retained r = sum_list (map cost (entries r))"
    using ret by (auto simp: retains_def)
  from evict_control_step [OF ch no len c] obtain i ev es
    where e: "entries r = Control a i ev # es" and che: "chain a es (end_off r)"
      and r': "drop_covered (evict_one r) =
             r\<lparr>entries := es, retained := sum_list (map cost es), lost_ctl := Some (a, i)\<rparr>" by blast
  have oc: "(a, i, ev) # out_ctls es = drop k (ctls L)" using ret by (simp add: retains_def e)
  then have kl: "k < length (ctls L)" by (metis drop_all linorder_not_le list.distinct(1))
  have kth: "ctls L ! k = (a, i, ev)" and oc1: "out_ctls es = drop (Suc k) (ctls L)"
    using oc kl by (metis Cons_nth_drop_Suc list.inject)+
  have i: "i = Suc k" using ctls_wf_id [of "ctls L" "length (log L)" k] ret kl kth
    by (simp add: retains_def)
  have "dropped_ok (lost_ctl r) a (take k (ctls L))" "lost_ok (lost_ctl r) a (take k (ctls L))"
    and wf: "ctls_wf (ctls L) (length (log L))" using ret by (simp_all add: retains_def)
  then have dr: "dropped_ok (Some (a, i)) a (take (Suc k) (ctls L))"
    using kth kl i ctls_wf_take_id [OF wf, of _ _ _ k]
    by (fastforce simp: dropped_ok_def lost_ok_def take_Suc_conv_app_nth)
  show ?thesis
    using ret che oc1 kl dr kth
    by (auto simp: retains_def r' lost_ok_def e piece_max_def take_Suc_conv_app_nth)
qed

lemma holds_evict_step:
  assumes "holds r L" "length (entries r) > 1"
  shows "holds (drop_covered (evict_one r)) L"
proof -
  obtain a k where ret: "retains r L a k" using assms(1) by (auto simp: holds_def)
  show ?thesis
  proof (cases "\<exists>i. oldest_output (entries r) = Some i \<and> i + 1 < length (entries r)")
    case True
    then obtain i where i: "oldest_output (entries r) = Some i" "i + 1 < length (entries r)" by blast
    from oldest_output_split [OF i(1)] obtain cs s d rest
      where "entries r = cs @ Output s d # rest" "length cs = i" "first_start cs = None" by blast
    with i(2) retains_evict_output [OF ret] show ?thesis by (fastforce intro: retains_holds)
  next
    case False
    then show ?thesis using retains_evict_control [OF ret] assms(2) by (auto intro: retains_holds)
  qed
qed

lemma holds_evict: "holds r L \<Longrightarrow> holds (evict r) L"
proof (induction r rule: evict.induct)
  case (1 r)
  then show ?case
    by (subst evict.simps) (simp add: holds_evict_step)
qed

lemma evict_trimmed: "trimmed (evict r)"
proof (induction r rule: evict.induct)
  case (1 r)
  show ?case
  proof (cases "retained r > budget r \<and> length (entries r) > 1")
    case True
    then show ?thesis using "1" by (subst evict.simps) simp
  next
    case False
    then show ?thesis by (subst evict.simps) (auto simp: trimmed_def)
  qed
qed

lemma evict_budget [simp]: "budget (evict r) = budget r"
proof (induction r rule: evict.induct)
  case (1 r)
  have "budget (drop_covered (evict_one r)) = budget r"
    by (auto simp: drop_covered_def evict_one_def pop_front_control_def Let_def
        split: option.splits list.splits entry.splits)
  then show ?case using "1" by (subst evict.simps) auto
qed


subsection \<open>Pushes\<close>

lemma retains_output:
  assumes "retains r L a k" and "chain a es (end_off r + length x)"
    and "out_bytes es = out_bytes (entries r) @ x" and "out_ctls es = out_ctls (entries r)"
    and "sum_list (map cost es) = sum_list (map cost (entries r)) + length x"
    and "\<forall>s d. Output s d \<in> set es \<longrightarrow> length d \<le> piece_max r"
  shows "retains (r\<lparr>entries := es, retained := retained r + length x, end_off := end_off r + length x\<rparr>)
           (log_push L x) a k"
  using assms chain_le [of a "entries r" "end_off r"]
  by (auto simp: retains_def log_push_def ctls_wf_def piece_max_def)

lemma append_output_holds:
  assumes "holds r L" "p \<noteq> []" "append_output r p = (r', n)"
  shows "n \<le> length p \<and>
    holds (r'\<lparr>retained := retained r' + n, end_off := end_off r' + n\<rparr>) (log_push L (take n p))"
proof -
  obtain a k where ret: "retains r L a k" using assms(1) by (auto simp: holds_def)
  then have ch: "chain a (entries r) (end_off r)"
    and sz: "\<forall>s d. Output s d \<in> set (entries r) \<longrightarrow> length d \<le> piece_max r"
    unfolding retains_def by blast+
  note out = retains_output [OF ret, THEN retains_holds]
  show ?thesis
  proof (cases "\<exists>es s d. entries r = es @ [Output s d] \<and> length d < piece_max r")
    case True
    then obtain es s d where e: "entries r = es @ [Output s d]" "length d < piece_max r" by blast
    then have n: "n = min (length p) (piece_max r - length d)"
      and r': "r' = r\<lparr>entries := es @ [Output s (d @ take n p)]\<rparr>"
      using assms(3) by (auto simp: append_output_def Let_def)
    have "holds (r\<lparr>entries := es @ [Output s (d @ take n p)], retained := retained r + length (take n p),
            end_off := end_off r + length (take n p)\<rparr>) (log_push L (take n p))"
      using ch e sz n by (intro out) (auto simp: chain_append)
    moreover have "length (take n p) = n" using n by simp
    ultimately show ?thesis using n r' by simp
  next
    case False
    then have "\<not> length d < piece_max r" if "entries r \<noteq> []" "last (entries r) = Output s d" for s d
      using that append_butlast_last_id [of "entries r"] by metis
    then have n: "n = min (length p) (piece_max r)"
      and r': "r' = r\<lparr>entries := entries r @ [Output (end_off r) (take n p)]\<rparr>"
      using assms(3) by (auto simp: append_output_def Let_def split: if_splits entry.splits)
    have "holds (r\<lparr>entries := entries r @ [Output (end_off r) (take n p)],
            retained := retained r + length (take n p),
            end_off := end_off r + length (take n p)\<rparr>) (log_push L (take n p))"
      using ch sz n assms(2) by (intro out) (auto simp: chain_append)
    moreover have "length (take n p) = n" using n by simp
    ultimately show ?thesis using n r' by simp
  qed
qed

lemma log_push_push: "log_push (log_push L x) y = log_push L (x @ y)"
  by (simp add: log_push_def)

lemma holds_push: "holds r L \<Longrightarrow> holds (push r d) (log_push L d)"
proof (induction r d arbitrary: L rule: push.induct)
  case (1 r d)
  show ?case
  proof (cases "d = []")
    case True
    then show ?thesis using 1 by (simp add: push.simps log_push_def)
  next
    case False
    obtain r' n where an: "append_output r d = (r', n)" by fastforce
    let ?r = "evict (r'\<lparr>retained := retained r' + n, end_off := end_off r' + n\<rparr>)"
    have pp: "push_piece r d = (?r, n)" by (simp add: push_piece_def an)
    have "holds ?r (log_push L (take n d))"
      using append_output_holds [OF "1.prems" False an] by (simp add: holds_evict)
    from "1.IH" [OF False pp [symmetric] refl this] show ?thesis
      using False pp by (subst push.simps) (simp add: log_push_push)
  qed
qed

lemma ctls_wf_snoc: "ctls_wf cs n \<Longrightarrow> ctls_wf (cs @ [(n, Suc (length cs), ev)]) n"
  by (auto simp: ctls_wf_def sorted_append)

lemma holds_append_control:
  assumes "holds r L"
  shows "holds (r\<lparr>next_ctl_id := next_ctl_id r + 1,
      entries := entries r @ [Control (end_off r) (next_ctl_id r) ev],
      retained := retained r + CONTROL_ENTRY_COST\<rparr>) (log_push_control L ev)"
proof -
  obtain a k where ret: "retains r L a k" using assms by (auto simp: holds_def)
  have "ctls_wf (ctls (log_push_control L ev)) (length (log L))"
    using ret ctls_wf_snoc by (auto simp: retains_def log_push_control_def)
  then show ?thesis
    using ret by (intro retains_holds [of _ _ a k])
      (auto simp: retains_def log_push_control_def chain_append piece_max_def)
qed

lemma holds_push_control: "holds r L \<Longrightarrow> holds (fst (push_control r ev)) (log_push_control L ev)"
  using holds_append_control by (auto simp: push_control_def Let_def intro: holds_evict)

lemma holds_new_ring: "holds (new_ring b) log_new"
  by (simp add: holds_def retains_def new_ring_def log_new_def ctls_wf_def available_from_def
      lost_ok_def dropped_ok_def)


section \<open>The byte budget and the entry count\<close>

lemma trimmed_bound:
  assumes "holds r L" "trimmed r"
  shows "retained r \<le> max (budget r) CONTROL_ENTRY_COST"
proof (cases "entries r")
  case Nil
  then show ?thesis using assms by (auto simp: holds_def retains_def)
next
  case (Cons e es)
  show ?thesis
  proof (cases "retained r \<le> budget r")
    case False
    then have "entries r = [e]" using assms(2) Cons by (simp add: trimmed_def)
    moreover have "length d \<le> max 1 (budget r)" if "e = Output s d" for s d
    proof -
      have "length d \<le> piece_max r"
        using assms(1) Cons that by (auto simp: holds_def retains_def)
      also have "\<dots> \<le> max 1 (budget r)"
        by (auto simp: piece_max_def RING_CHUNK_DIVISOR_def intro: le_trans [OF _ div_le_dividend])
      finally show ?thesis .
    qed
    ultimately show ?thesis using assms(1) by (cases e) (auto simp: holds_def retains_def)
  qed simp
qed

text \<open>Consecutive output chunks are full: a short chunk is last, or a control entry follows it.\<close>

fun coalesced :: "nat \<Rightarrow> entry list \<Rightarrow> bool" where
  "coalesced m [] \<longleftrightarrow> True"
| "coalesced m (e # es) \<longleftrightarrow>
     (is_output e \<and> es \<noteq> [] \<and> is_output (hd es) \<longrightarrow> m \<le> cost e) \<and> coalesced m es"

lemma coalesced_snoc:
  "coalesced m (es @ [x]) \<longleftrightarrow>
     coalesced m es \<and> (es \<noteq> [] \<and> is_output (last es) \<and> is_output x \<longrightarrow> m \<le> cost (last es))"
  by (induction es) (auto simp: hd_append)

lemma coalesced_snoc2:
  "coalesced m (es @ [x, y]) \<longleftrightarrow>
     coalesced m (es @ [x]) \<and> (is_output x \<and> is_output y \<longrightarrow> m \<le> cost x)"
  using coalesced_snoc [of m "es @ [x]" y] by simp

lemma coalesced_suffix: "coalesced m (xs @ ys) \<Longrightarrow> coalesced m ys"
  by (induction xs) auto

lemma coalesced_controls: "first_start cs = None \<Longrightarrow> coalesced m (cs @ es) = coalesced m es"
  by (induction cs rule: first_start.induct) auto

lemma drop_behind_suffix: "\<exists>xs. es = xs @ drop_behind av es"
proof (induction av es rule: drop_behind.induct)
  case (1 av s i e es)
  then show ?case by (cases "s < av") (auto, metis append_Cons)
qed auto

lemma coalesced_evict_one:
  assumes "coalesced m (entries r)"
  shows "coalesced m (entries (evict_one r))"
proof (cases "\<exists>i. oldest_output (entries r) = Some i \<and> i + 1 < length (entries r)")
  case True
  then obtain i where i: "oldest_output (entries r) = Some i" "i + 1 < length (entries r)" by blast
  from oldest_output_split [OF i(1)] obtain cs s d rest
    where e: "entries r = cs @ Output s d # rest" "length cs = i" "first_start cs = None" by blast
  have "coalesced m rest" using assms coalesced_suffix [of m "cs @ [Output s d]" rest] e by simp
  then show ?thesis using e i by (simp add: evict_one_def coalesced_controls)
next
  case False
  then have "entries (evict_one r) = tl (entries r)"
    by (auto simp: evict_one_def pop_front_control_def split: option.splits list.splits entry.splits)
  then show ?thesis using assms by (cases "entries r") auto
qed

lemma coalesced_evict: "coalesced m (entries r) \<Longrightarrow> coalesced m (entries (evict r))"
proof (induction r rule: evict.induct)
  case (1 r)
  obtain xs where "entries (evict_one r) = xs @ drop_behind (available_from (evict_one r)) (entries (evict_one r))"
    using drop_behind_suffix by blast
  then have "coalesced m (entries (drop_covered (evict_one r)))"
    using coalesced_evict_one [OF "1.prems"] coalesced_suffix [of m xs]
    by (simp add: drop_covered_def Let_def)
  then show ?case using "1" by (subst evict.simps) auto
qed

lemma coalesced_append_output:
  assumes "coalesced (piece_max r) (entries r)"
  shows "coalesced (piece_max r) (entries (fst (append_output r p)))"
proof (cases "entries r" rule: rev_cases)
  case (snoc es x)
  then show ?thesis
    using assms by (cases x) (simp_all add: append_output_def Let_def coalesced_snoc coalesced_snoc2)
qed (simp add: append_output_def Let_def)

lemma coalesced_outputs:
  "coalesced m es \<Longrightarrow>
   m * length (filter is_output es)
     \<le> sum_list (map cost es) + m * (length (filter (\<lambda>e. \<not> is_output e) es)
         + (if es \<noteq> [] \<and> is_output (hd es) then 1 else 0))"
proof (induction es)
  case (Cons e es)
  let ?n = "length (filter is_output es)" and ?c = "length (filter (\<lambda>e. \<not> is_output e) es)"
  have IH: "m * ?n \<le> sum_list (map cost es) + m * (?c + (if es \<noteq> [] \<and> is_output (hd es) then 1 else 0))"
    using Cons by simp
  show ?case
  proof (cases e)
    case (Output s d)
    then have "es \<noteq> [] \<and> is_output (hd es) \<Longrightarrow> m \<le> length d" using Cons.prems by simp
    then show ?thesis using IH Output by (auto split: if_splits)
  next
    case (Control s i ev)
    then show ?thesis using IH by (auto split: if_splits)
  qed
qed simp

definition ring_ok :: "replay_ring \<Rightarrow> bool" where
  "ring_ok r \<longleftrightarrow> (\<exists>L. holds r L) \<and> coalesced (piece_max r) (entries r) \<and>
     retained r \<le> max (budget r) CONTROL_ENTRY_COST"

lemma piece_max_evict [simp]: "piece_max (evict r) = piece_max r"
  by (simp add: piece_max_def)

lemma ring_ok_evict: "holds r L \<Longrightarrow> coalesced (piece_max r) (entries r) \<Longrightarrow> ring_ok (evict r)"
  using trimmed_bound [OF holds_evict evict_trimmed, of r L] holds_evict [of r L]
    coalesced_evict [of "piece_max r" r]
  by (auto simp: ring_ok_def)

lemma append_output_budget [simp]: "budget (fst (append_output r p)) = budget r"
  by (auto simp: append_output_def Let_def split: entry.splits)

lemma ring_ok_push: "ring_ok r \<Longrightarrow> ring_ok (push r d)"
proof (induction r d rule: push.induct)
  case (1 r d)
  show ?case
  proof (cases "d = []")
    case True
    then show ?thesis using 1 by (simp add: push.simps)
  next
    case False
    obtain r' n where an: "append_output r d = (r', n)" by fastforce
    let ?r = "r'\<lparr>retained := retained r' + n, end_off := end_off r' + n\<rparr>"
    obtain L where L: "holds r L" using "1.prems" by (auto simp: ring_ok_def)
    have pm: "piece_max ?r = piece_max r"
      using append_output_budget [of r d] an by (simp add: piece_max_def)
    have "coalesced (piece_max r) (entries r')"
      using coalesced_append_output [of r d] "1.prems" an by (simp add: ring_ok_def)
    then have "ring_ok (evict ?r)"
      using append_output_holds [OF L False an] pm by (intro ring_ok_evict) auto
    then show ?thesis using "1.IH" [OF False, of "(evict ?r, n)"] False an
      by (subst push.simps) (simp add: push_piece_def)
  qed
qed

lemma ring_ok_push_control:
  assumes "ring_ok r"
  shows "ring_ok (fst (push_control r ev))"
proof -
  obtain L where L: "holds r L" using assms by (auto simp: ring_ok_def)
  let ?r = "r\<lparr>next_ctl_id := next_ctl_id r + 1,
      entries := entries r @ [Control (end_off r) (next_ctl_id r) ev],
      retained := retained r + CONTROL_ENTRY_COST\<rparr>"
  have "piece_max ?r = piece_max r" by (simp add: piece_max_def)
  then have "coalesced (piece_max ?r) (entries ?r)"
    using assms by (simp add: ring_ok_def coalesced_snoc)
  moreover have "holds ?r (log_push_control L ev)"
    using holds_append_control [OF L] by simp
  ultimately show ?thesis
    by (auto simp: push_control_def Let_def intro: ring_ok_evict)
qed

lemma ring_ok_new: "ring_ok (new_ring b)"
  using holds_new_ring by (auto simp: ring_ok_def new_ring_def)

section \<open>The store interface\<close>

text \<open>
  The laws the session relies on of its \<open>ReplayStore\<close>: a store that holds a log keeps holding it
  through pushes, reports its length, and numbers control entries consecutively.
\<close>

datatype store_op = StorePush bytes | StoreControl control_event

fun store_step :: "('s \<Rightarrow> bytes \<Rightarrow> 's) \<Rightarrow> ('s \<Rightarrow> control_event \<Rightarrow> 's \<times> nat \<times> nat) \<Rightarrow> store_op \<Rightarrow> 's \<Rightarrow> 's"
where
  "store_step psh ctl (StorePush d) s = psh s d"
| "store_step psh ctl (StoreControl ev) s = fst (ctl s ev)"

fun log_step :: "store_op \<Rightarrow> replay_log \<Rightarrow> replay_log" where
  "log_step (StorePush d) L = log_push L d"
| "log_step (StoreControl ev) L = log_push_control L ev"

locale replay_store =
  fixes store_push :: "'s \<Rightarrow> bytes \<Rightarrow> 's"
    and store_control :: "'s \<Rightarrow> control_event \<Rightarrow> 's \<times> nat \<times> nat"
    and store_end :: "'s \<Rightarrow> nat"
    and stores :: "'s \<Rightarrow> replay_log \<Rightarrow> bool"
  assumes stores_push: "stores s L \<Longrightarrow> stores (store_push s d) (log_push L d)"
    and stores_control: "stores s L \<Longrightarrow> stores (fst (store_control s ev)) (log_push_control L ev)"
    and control_id: "stores s L \<Longrightarrow> snd (store_control s ev) = (length (log L), Suc (length (ctls L)))"
    and stores_end: "stores s L \<Longrightarrow> store_end s = length (log L)"
begin

lemma run_stores:
  "stores s L \<Longrightarrow> stores (fold (store_step store_push store_control) ops s) (fold log_step ops L)"
proof (induction ops arbitrary: s L)
  case (Cons p ops)
  then show ?case by (cases p) (auto intro: stores_push stores_control)
qed simp

lemma push_advances: "stores s L \<Longrightarrow> store_end (store_push s d) = store_end s + length d"
  by (simp add: stores_end [OF stores_push] stores_end log_push_def)

end


interpretation ring_store: replay_store push push_control end_off holds
proof
  fix s :: replay_ring and L :: replay_log and d ev
  assume h: "holds s L"
  show "holds (push s d) (log_push L d)" using holds_push [OF h] .
  show "holds (fst (push_control s ev)) (log_push_control L ev)" using holds_push_control [OF h] .
  show "snd (push_control s ev) = (length (log L), Suc (length (ctls L)))" "end_off s = length (log L)"
    using h by (auto simp: push_control_def Let_def holds_def retains_def)
qed

abbreviation ring_step :: "store_op \<Rightarrow> replay_ring \<Rightarrow> replay_ring" where
  "ring_step \<equiv> store_step push push_control"

lemma ring_ok_step: "ring_ok r \<Longrightarrow> ring_ok (ring_step p r)"
  by (cases p) (simp_all add: ring_ok_push ring_ok_push_control)

interpretation ring_machine: machine ring_step ring_ok
  by unfold_locales (rule ring_ok_step)

lemma budget_push [simp]: "budget (push r d) = budget r"
proof (induction r d rule: push.induct)
  case (1 r d)
  obtain r' n where an: "append_output r d = (r', n)" by fastforce
  then have "budget r' = budget r" using append_output_budget [of r d] by simp
  then show ?case using 1 an by (subst push.simps) (auto simp: push_piece_def)
qed

interpretation ring_budget: machine ring_step "\<lambda>r. budget r = b" for b
proof
  fix r :: replay_ring and x
  assume "budget r = b"
  then show "budget (ring_step x r) = b" by (cases x) (auto simp: push_control_def Let_def)
qed

end
