(* ===== verification/Replay_Delivery.thy ===== *)
theory Replay_Delivery
  imports Replay_Ring
begin

text \<open>
  What the replay ring delivers. A read is characterised against the append-only log the ring
  refines (\<open>holds\<close>), and a consumer that follows the cursors it is given is shown to receive
  every byte and every control entry exactly once and in order, or to be told of a gap. The
  properties of the ring close the theory.
\<close>

section \<open>What a read returns\<close>

fun ev_bytes :: "replay_event list \<Rightarrow> bytes" where
  "ev_bytes [] = []"
| "ev_bytes (OutputEv _ d # evs) = d @ ev_bytes evs"
| "ev_bytes (_ # evs) = ev_bytes evs"

fun ev_ctls :: "replay_event list \<Rightarrow> (nat \<times> nat \<times> control_event) list" where
  "ev_ctls [] = []"
| "ev_ctls (ControlEv s i e # evs) = (s, i, e) # ev_ctls evs"
| "ev_ctls (_ # evs) = ev_ctls evs"

text \<open>Events in stream order: an output ends at its \<open>seq\<close>, a control sits between two outputs.\<close>

fun ev_chain :: "nat \<Rightarrow> replay_event list \<Rightarrow> nat \<Rightarrow> bool" where
  "ev_chain pos [] e \<longleftrightarrow> pos = e"
| "ev_chain pos (OutputEv s d # evs) e \<longleftrightarrow> d \<noteq> [] \<and> s = pos + length d \<and> ev_chain s evs e"
| "ev_chain pos (ControlEv s i ev # evs) e \<longleftrightarrow> s = pos \<and> ev_chain pos evs e"
| "ev_chain pos (GapEv _ _ # evs) e \<longleftrightarrow> False"

definition ids_sorted :: "(nat \<times> nat \<times> control_event) list \<Rightarrow> bool" where
  "ids_sorted cs \<longleftrightarrow> sorted_wrt (<) (map (\<lambda>(s, i, e). i) cs)"

definition due :: "nat \<Rightarrow> nat \<Rightarrow> nat \<Rightarrow> (nat \<times> nat \<times> control_event) \<Rightarrow> bool" where
  "due lo hi ctl c \<longleftrightarrow> lo \<le> fst c \<and> fst c \<le> hi \<and> ctl < fst (snd c)"

definition max_id :: "nat \<Rightarrow> nat \<Rightarrow> (nat \<times> nat \<times> control_event) list \<Rightarrow> nat" where
  "max_id hi ctl cs = fold (\<lambda>(s, i, e) m. max m i) (filter (\<lambda>c. fst c \<le> hi) cs) ctl"

lemma chain_ctls_ge: "chain a es b \<Longrightarrow> c \<in> set (out_ctls es) \<Longrightarrow> a \<le> fst c"
  by (induction a es b rule: chain.induct) (auto dest: chain_le)

lemma filter_due_raise:
  "(\<forall>c \<in> set cs. i < fst (snd c)) \<Longrightarrow> filter (due lo hi (max ctl i)) cs = filter (due lo hi ctl) cs"
  by (rule filter_cong) (auto simp: due_def)

definition loop_ok :: "nat \<Rightarrow> nat \<Rightarrow> entry list \<Rightarrow> nat \<Rightarrow> nat \<Rightarrow> nat \<Rightarrow> nat \<Rightarrow> replay_event list \<Rightarrow> nat \<Rightarrow> bool"
  where
  "loop_ok st off es e from ctl remaining evs c \<longleftrightarrow>
     (let f = min e (from + remaining) in
      ev_chain from evs f \<and>
      ev_bytes evs = take remaining (drop (from - off) (out_bytes es)) \<and>
      ev_ctls evs = filter (due st f ctl) (out_ctls es) \<and>
      c = max_id f ctl (out_ctls es))"

lemma none_due:
  assumes "chain a es b" "hi < a"
  shows "filter (due lo hi ctl) (out_ctls es) = []" "max_id hi ctl (out_ctls es) = ctl"
proof -
  have *: "\<forall>c \<in> set (out_ctls es). hi < fst c"
    using chain_ctls_ge [OF assms(1)] assms(2) by fastforce
  then show "filter (due lo hi ctl) (out_ctls es) = []" by (auto simp: filter_empty_conv due_def)
  have "filter (\<lambda>c. fst c \<le> hi) (out_ctls es) = []" using * by (auto simp: filter_empty_conv)
  then show "max_id hi ctl (out_ctls es) = ctl" by (simp add: max_id_def)
qed

lemma read_loop_ok:
  assumes "chain off es e" "off \<le> from" "from = st \<or> st \<le> from \<and> off = from" "from \<le> e"
    "ids_sorted (out_ctls es)"
  shows "\<exists>evs c. read_loop st es from ctl remaining = Some (evs, min e (from + remaining), c) \<and>
           loop_ok st off es e from ctl remaining evs c"
  using assms
proof (induction st es "from" ctl remaining arbitrary: off rule: read_loop.induct)
  case (1 st "from" ctl remaining)
  then show ?case by (simp add: loop_ok_def max_id_def)
next
  case (2 st s d es "from" ctl remaining)
  let ?k = "min (length d - (from - off)) remaining"
  have ch: "s = off" "d \<noteq> []" "chain (off + length d) es e" using 2 by auto
  have le: "off + length d \<le> e" using chain_le [OF ch(3)] .
  consider (past) "off + length d \<le> from" | (full) "from < off + length d" "remaining = 0"
    | (short) "from < off + length d" "remaining > 0" "?k < length d - (from - off)"
    | (whole) "from < off + length d" "remaining > 0" "?k = length d - (from - off)"
    by linarith
  then show ?case
  proof cases
    case past
    then show ?thesis using "2.IH"(1) [of "off + length d"] "2.prems" ch
      by (auto simp: loop_ok_def Let_def)
  next
    case full
    then show ?thesis using none_due [OF ch(3)] ch "2.prems"(4)
      by (auto simp: loop_ok_def Let_def)
  next
    case short
    then show ?thesis using none_due [OF ch(3), of "from + remaining"] ch le "2.prems"(2)
      by (auto simp: loop_ok_def Let_def min_def)
  next
    case whole
    have off': "from + ?k = off + length d" and rem: "?k \<le> remaining"
      using whole "2.prems"(2) by auto
    have ch': "s = off" using ch by simp
    have st: "st \<le> off + length d" using whole(1) "2.prems"(3) by auto
    have rest: "from + ?k + (remaining - ?k) = from + remaining" using rem by simp
    have "\<exists>evs c. read_loop st es (from + ?k) ctl (remaining - ?k)
              = Some (evs, min e (from + ?k + (remaining - ?k)), c) \<and>
            loop_ok st (off + length d) es e (from + ?k) ctl (remaining - ?k) evs c"
      using whole "2.prems" ch le st unfolding off'
      by (intro "2.IH"(2) [where off = "off + length d", unfolded ch', of "from - off" ?k, unfolded off'])
        simp_all
    then obtain evs c where rl: "read_loop st es (off + length d) ctl (remaining - ?k)
              = Some (evs, min e (from + remaining), c)"
      and ok: "loop_ok st (off + length d) es e (off + length d) ctl (remaining - ?k) evs c"
      unfolding rest unfolding off' by blast
    let ?ev = "OutputEv (off + length d) (drop (from - off) d)"
    have "read_loop st (Output s d # es) from ctl remaining
            = Some (?ev # evs, min e (from + remaining), c)"
      using whole ch' off' rl "2.prems"(2) by (simp add: Let_def add.commute [of "length d" off])
    moreover have "loop_ok st off (Output s d # es) e from ctl remaining (?ev # evs) c"
      using ok whole "2.prems"(2) rem rest off'
      by (auto simp: loop_ok_def Let_def add.commute [of remaining "from"])
    ultimately show ?thesis by blast
  qed
next
  case (3 st s i ev es "from" ctl remaining)
  have ids: "\<forall>c \<in> set (out_ctls es). i < fst (snd c)" "ids_sorted (out_ctls es)"
    using "3.prems"(5) by (auto simp: ids_sorted_def)
  have ch: "s = off" "chain off es e" using 3 by auto
  let ?f = "min e (from + remaining)"
  have sf: "off \<le> ?f" using "3.prems"(2,4) by simp
  have mx: "max_id ?f ctl ((s, i, ev) # cs) = max_id ?f (max ctl i) cs" for cs
    using sf ch by (simp add: max_id_def)
  consider (past) "off < st" | (seen) "st \<le> off" "i \<le> ctl" | (emit) "st \<le> off" "ctl < i" by linarith
  then show ?case
  proof cases
    case past
    then show ?thesis using "3.IH"(1) [of off] "3.prems" ch ids mx filter_due_raise [OF ids(1)]
      by (auto simp: loop_ok_def Let_def due_def)
  next
    case seen
    then show ?thesis using "3.IH"(2) [of off] "3.prems" ch ids mx
      by (auto simp: loop_ok_def Let_def due_def max_def)
  next
    case emit
    then have "from = off" using "3.prems" by auto
    then show ?thesis using emit "3.IH"(3) [of off] "3.prems" ch ids mx filter_due_raise [OF ids(1), of st ?f ctl]
      by (auto simp: loop_ok_def Let_def due_def max_def)
  qed
qed


subsection \<open>The whole read\<close>

definition read_from :: "replay_ring \<Rightarrow> cursor \<Rightarrow> nat" where
  "read_from r cur = max (after cur) (available_from r)"

definition owed :: "replay_ring \<Rightarrow> cursor \<Rightarrow> nat option" where
  "owed r cur = (case lost_ctl r of None \<Rightarrow> None
     | Some (ls, li) \<Rightarrow> if ctl_after cur < li \<and> read_from r cur \<le> ls then Some li else None)"

definition read_ctl :: "replay_ring \<Rightarrow> cursor \<Rightarrow> nat" where
  "read_ctl r cur = (case owed r cur of None \<Rightarrow> ctl_after cur | Some li \<Rightarrow> li)"

definition read_gap :: "replay_ring \<Rightarrow> cursor \<Rightarrow> replay_event list" where
  "read_gap r cur = (if after cur < available_from r \<or> owed r cur \<noteq> None
     then [GapEv (after cur) (read_from r cur)] else [])"

lemma ring_read_unfold:
  "ring_read r cur m =
     (if after cur > end_off r then Inl (CursorBeyondEnd (after cur) (end_off r))
      else case read_loop (read_from r cur) (entries r) (read_from r cur) (read_ctl r cur) m of
             None \<Rightarrow> Inl SubtractOverflow
           | Some (evs, f, c) \<Rightarrow>
               Inr \<lparr>events = read_gap r cur @ evs, next_cursor = \<lparr>after = f, ctl_after = c\<rparr>\<rparr>)"
proof -
  have fr: "(if after cur < available_from r then available_from r else after cur) = read_from r cur"
    by (simp add: read_from_def)
  show ?thesis
    unfolding ring_read_def Let_def fr owed_def [symmetric]
    by (auto simp: read_gap_def read_ctl_def read_from_def split: option.splits)
qed

lemma ctls_wf_drop_sorted: "ctls_wf cs n \<Longrightarrow> ids_sorted (drop k cs)"
  by (simp add: ctls_wf_def ids_sorted_def drop_map [symmetric] sorted_wrt_drop del: upt_Suc)

text \<open>No control entry that left the ring is due to the cursor a read resumes with.\<close>

lemma dropped_not_due:
  assumes ret: "retains r L a k" and c: "c \<in> set (take k (ctls L))"
  shows "\<not> due (read_from r cur) f (read_ctl r cur) c"
proof -
  obtain s i e where [simp]: "c = (s, i, e)" by (cases c)
  have av: "available_from r = a" using retains_available [OF ret] .
  have "s < a \<or> (\<exists>ls li. lost_ctl r = Some (ls, li) \<and> i \<le> li \<and> s \<le> ls)"
    using ret c by (auto simp: retains_def dropped_ok_def)
  then show ?thesis
  proof
    assume "s < a"
    then show ?thesis by (simp add: due_def read_from_def av)
  next
    assume "\<exists>ls li. lost_ctl r = Some (ls, li) \<and> i \<le> li \<and> s \<le> ls"
    then obtain ls li where "lost_ctl r = Some (ls, li)" "i \<le> li" "s \<le> ls" by blast
    then show ?thesis by (auto simp: due_def read_ctl_def owed_def split: if_splits)
  qed
qed

lemma ring_read_holds:
  fixes m :: nat
  assumes "holds r L" "after cur \<le> end_off r"
  defines "a \<equiv> read_from r cur" and "f \<equiv> min (length (log L)) (read_from r cur + m)"
  shows "\<exists>evs c k. ring_read r cur m
             = Inr \<lparr>events = read_gap r cur @ evs, next_cursor = \<lparr>after = f, ctl_after = c\<rparr>\<rparr> \<and>
           ev_chain a evs f \<and> ev_bytes evs = take m (drop a (log L)) \<and>
           ev_ctls evs = filter (due a f (read_ctl r cur)) (ctls L) \<and>
           c = max_id f (read_ctl r cur) (drop k (ctls L)) \<and> retains r L (available_from r) k"
proof -
  obtain k where ret: "retains r L (available_from r) k" using assms(1) by (auto simp: holds_def)
  then have ch: "chain (available_from r) (entries r) (end_off r)"
    and oc: "out_ctls (entries r) = drop k (ctls L)" and wf: "ctls_wf (ctls L) (length (log L))"
    and e: "end_off r = length (log L)" and ob: "out_bytes (entries r) = drop (available_from r) (log L)"
    unfolding retains_def by blast+
  have "available_from r \<le> a" "a \<le> end_off r"
    using assms(2) chain_le [OF ch] by (simp_all add: a_def read_from_def)
  with read_loop_ok [OF ch, of a a "read_ctl r cur" m] ctls_wf_drop_sorted [OF wf] oc
  obtain evs c where
    rl: "read_loop a (entries r) a (read_ctl r cur) m = Some (evs, min (end_off r) (a + m), c)" and
    ok: "loop_ok a (available_from r) (entries r) (end_off r) a (read_ctl r cur) m evs c"
    by auto
  have f: "min (end_off r) (a + m) = f" by (simp add: f_def a_def e)
  have "filter (due a f (read_ctl r cur)) (ctls L)
      = filter (due a f (read_ctl r cur)) (take k (ctls L) @ drop k (ctls L))" by simp
  also have "\<dots> = filter (due a f (read_ctl r cur)) (drop k (ctls L))"
    using dropped_not_due [OF ret] unfolding filter_append a_def
    by (simp add: filter_empty_conv)
  finally have fl: "filter (due a f (read_ctl r cur)) (ctls L) = filter (due a f (read_ctl r cur)) (drop k (ctls L))" .
  have "ring_read r cur m
             = Inr \<lparr>events = read_gap r cur @ evs, next_cursor = \<lparr>after = f, ctl_after = c\<rparr>\<rparr>"
    using assms(2) rl f by (simp add: ring_read_unfold a_def)
  then show ?thesis
    using ok ret f fl oc ob \<open>available_from r \<le> a\<close>
    by (auto simp: loop_ok_def Let_def intro!: exI [of _ k])
qed


section \<open>Exactly-once delivery\<close>

abbreviation up_to :: "nat \<Rightarrow> nat \<times> nat \<times> control_event \<Rightarrow> bool" where
  "up_to f \<equiv> \<lambda>c. fst c \<le> f"

lemma sorted_filter_takeWhile: "sorted (map fst cs) \<Longrightarrow> filter (up_to f) cs = takeWhile (up_to f) cs"
proof (induction cs)
  case (Cons c cs)
  have "filter (up_to f) cs = []" if "\<not> fst c \<le> f"
    using that Cons.prems by (fastforce simp: filter_empty_conv)
  then show ?case using Cons by auto
qed simp

lemma ctls_wf_drop_id:
  assumes "ctls_wf cs n" "x \<in> set (drop c cs)"
  shows "c < fst (snd x)"
proof -
  obtain j where "j < length (drop c cs)" "x = drop c cs ! j"
    using assms(2) by (metis in_set_conv_nth)
  then show ?thesis using ctls_wf_id [OF assms(1), of "c + j"] by simp
qed

lemma fold_max_le:
  "(\<forall>x \<in> set cs. fst (snd x) \<le> c) \<Longrightarrow> fold (\<lambda>(s, i, e) m. max m i) cs (c :: nat) = c"
  by (induction cs) auto

lemma fold_max_take:
  assumes wf: "ctls_wf cs n" and "c + m \<le> length cs"
  shows "fold (\<lambda>(s, i, e) m. max m i) (take m (drop c cs)) c = c + m"
  using assms(2)
proof (induction m)
  case (Suc m)
  then have "take (Suc m) (drop c cs) = take m (drop c cs) @ [cs ! (c + m)]"
    by (simp add: take_Suc_conv_app_nth)
  moreover have "fst (snd (cs ! (c + m))) = Suc (c + m)"
    using ctls_wf_id [OF wf, of "c + m"] Suc.prems by simp
  ultimately show ?case using Suc by (simp add: case_prod_unfold)
qed simp

text \<open>
  A consumer that has the first \<open>c\<close> control entries and all those before offset \<open>a\<close> is due a
  contiguous run of the entries after them, and ends on the identifier of its last one.
\<close>

lemma due_run:
  assumes wf: "ctls_wf cs n" and have_c: "\<forall>x \<in> set (drop c cs). a \<le> fst x" and "k \<le> c"
    and "c \<le> length cs"
  shows "\<exists>m. filter (due a f c) cs = take m (drop c cs) \<and> max_id f c (drop k cs) = c + m \<and>
           c + m \<le> length cs \<and> (\<forall>x \<in> set (drop (c + m) cs). f < fst x)"
proof -
  let ?m = "length (takeWhile (up_to f) (drop c cs))"
  have srt: "sorted (map fst cs)" using wf by (simp add: ctls_wf_def)
  then have "sorted (map fst (drop c cs))" by (metis drop_map sorted_wrt_drop)
  then have fl: "filter (up_to f) (drop c cs) = take ?m (drop c cs)"
    by (simp add: sorted_filter_takeWhile takeWhile_eq_take [symmetric])
  have le: "c + ?m \<le> length cs"
    using length_takeWhile_le [of "up_to f" "drop c cs"] assms(4) by simp
  have small: "\<forall>x \<in> set (take c cs). fst (snd x) \<le> c"
    using ctls_wf_take_id [OF wf] by fastforce
  then have "filter (due a f c) (take c cs) = []" by (fastforce simp: filter_empty_conv due_def)
  moreover have "filter (due a f c) (drop c cs) = filter (up_to f) (drop c cs)"
    using ctls_wf_drop_id [OF wf] have_c by (intro filter_cong) (auto simp: due_def)
  ultimately have 1: "filter (due a f c) cs = take ?m (drop c cs)"
    using fl filter_append [of "due a f c" "take c cs" "drop c cs"] by simp
  have "drop k cs = drop k (take c cs) @ drop c cs"
    using assms(3,4) drop_append [of k "take c cs" "drop c cs"] by simp
  moreover have "fold (\<lambda>(s, i, e) m. max m i) (filter (up_to f) (drop k (take c cs))) c = c"
    using small in_set_dropD [of _ k "take c cs"] by (intro fold_max_le) fastforce
  ultimately have 2: "max_id f c (drop k cs) = c + ?m"
    using fold_max_take [OF wf le] by (simp add: max_id_def fl)
  have "f < fst x" if x: "x \<in> set (drop (c + ?m) cs)" for x
  proof (rule ccontr)
    assume "\<not> f < fst x"
    let ?t = "drop ?m (drop c cs)"
    have "filter (up_to f) (take ?m (drop c cs)) @ filter (up_to f) ?t = filter (up_to f) (drop c cs)"
      by (simp only: filter_append [symmetric] append_take_drop_id)
    moreover have "filter (up_to f) (take ?m (drop c cs)) = filter (up_to f) (drop c cs)"
      unfolding fl [symmetric] by simp
    ultimately have "filter (up_to f) ?t = []" by (simp only: append_self_conv)
    moreover have "?t = drop (c + ?m) cs" by (simp add: add.commute)
    ultimately have "filter (up_to f) (drop (c + ?m) cs) = []" by (simp only:)
    then have "\<forall>y \<in> set (drop (c + ?m) cs). \<not> fst y \<le> f" by (simp only: filter_empty_conv)
    from bspec [OF this x] \<open>\<not> f < fst x\<close> show False by linarith
  qed
  then have 3: "\<forall>x \<in> set (drop (c + ?m) cs). f < fst x" by blast
  show ?thesis by (rule exI [of _ ?m]) (intro conjI 1 2 le 3)
qed

text \<open>
  One consumer of the ring among its writers: \<open>written\<close> is everything pushed so far, \<open>got_bytes\<close>
  and \<open>got_ctls\<close> what the consumer's reads have returned, each read starting at the
  \<open>next_cursor\<close> of the one before. \<open>consume\<close> interleaves pushes and reads in any order, the reads
  with any byte limit, as long as none of them reports a gap.
\<close>

record consumer =
  ring :: replay_ring
  written :: replay_log
  cur :: cursor
  got_bytes :: bytes
  got_ctls :: "(nat \<times> nat \<times> control_event) list"

definition consumer_init :: "nat \<Rightarrow> consumer" where
  "consumer_init b = \<lparr>ring = new_ring b, written = log_new, cur = from_offset 0,
     got_bytes = [], got_ctls = []\<rparr>"

definition do_push :: "bytes \<Rightarrow> consumer \<Rightarrow> consumer" where
  "do_push d S = S\<lparr>ring := push (ring S) d, written := log_push (written S) d\<rparr>"

definition do_control :: "control_event \<Rightarrow> consumer \<Rightarrow> consumer" where
  "do_control ev S =
     S\<lparr>ring := fst (push_control (ring S) ev), written := log_push_control (written S) ev\<rparr>"

definition do_read :: "read_out \<Rightarrow> consumer \<Rightarrow> consumer" where
  "do_read out S = S\<lparr>cur := next_cursor out, got_bytes := got_bytes S @ ev_bytes (events out),
     got_ctls := got_ctls S @ ev_ctls (events out)\<rparr>"

inductive consume :: "nat \<Rightarrow> consumer \<Rightarrow> bool" for b where
  start: "consume b (consumer_init b)"
| pushed: "consume b S \<Longrightarrow> consume b (do_push d S)"
| control: "consume b S \<Longrightarrow> consume b (do_control ev S)"
| read: "consume b S \<Longrightarrow> ring_read (ring S) (cur S) m = Inr out \<Longrightarrow> \<not> has_gap out \<Longrightarrow>
    consume b (do_read out S)"

definition caught :: "consumer \<Rightarrow> bool" where
  "caught S \<longleftrightarrow>
     (let x = after (cur S); c = ctl_after (cur S); L = written S in
      holds (ring S) L \<and> x \<le> length (log L) \<and> got_bytes S = take x (log L) \<and>
      c \<le> length (ctls L) \<and> got_ctls S = take c (ctls L) \<and>
      (\<forall>y \<in> set (drop c (ctls L)). x \<le> fst y))"

lemma has_gap_read_gap:
  assumes "ring_read r c m = Inr out" "\<not> has_gap out"
  shows "read_gap r c = []"
  using assms by (auto simp: ring_read_unfold read_gap_def has_gap_def split: if_splits option.splits)

lemma ungapped_read:
  assumes "read_gap r c = []"
  shows "read_from r c = after c" "read_ctl r c = ctl_after c" "available_from r \<le> after c"
    "owed r c = None"
  using assms by (auto simp: read_gap_def read_from_def read_ctl_def split: if_splits)

text \<open>Without a gap, a consumer that has every control entry before its offset has all dropped ones.\<close>

lemma ungapped_dropped:
  assumes ret: "retains r L (available_from r) k" and gap: "read_gap r c = []"
    and seen: "\<forall>y \<in> set (drop (ctl_after c) (ctls L)). after c \<le> fst y"
  shows "k \<le> ctl_after c"
proof (rule ccontr)
  let ?c = "ctl_after c"
  assume "\<not> k \<le> ?c"
  then have k: "?c < k" "?c < length (ctls L)" using ret by (auto simp: retains_def)
  define y where "y = ctls L ! ?c"
  have wf: "ctls_wf (ctls L) (length (log L))" using ret by (simp add: retains_def)
  have "y \<in> set (take k (ctls L))"
    using k unfolding y_def by (metis length_take min_less_iff_conj nth_mem nth_take)
  then have "\<not> due (after c) (fst y) ?c y"
    using dropped_not_due [OF ret, of y c] ungapped_read [OF gap] by simp
  moreover have "y \<in> set (drop ?c (ctls L))"
    using k(2) unfolding y_def by (metis Cons_nth_drop_Suc list.set_intros(1))
  ultimately show False
    using seen ctls_wf_drop_id [OF wf] by (auto simp: due_def)
qed

lemma caught_read:
  assumes C: "caught S" and rd: "ring_read (ring S) (cur S) m = Inr out" and gap: "\<not> has_gap out"
  shows "caught (do_read out S) \<and>
    after (next_cursor out) = min (length (log (written S))) (after (cur S) + m) \<and>
    (\<forall>y \<in> set (drop (ctl_after (next_cursor out)) (ctls (written S))). after (next_cursor out) < fst y)"
proof -
  let ?L = "written S" and ?x = "after (cur S)" and ?c = "ctl_after (cur S)"
  define f where "f = min (length (log ?L)) (?x + m)"
  have h: "holds (ring S) ?L" and x: "?x \<le> length (log ?L)" and gb: "got_bytes S = take ?x (log ?L)"
    and c: "?c \<le> length (ctls ?L)" and gc: "got_ctls S = take ?c (ctls ?L)"
    and seen: "\<forall>y \<in> set (drop ?c (ctls ?L)). ?x \<le> fst y"
    using C by (simp_all add: caught_def Let_def)
  have e: "end_off (ring S) = length (log ?L)" using h by (auto simp: holds_def retains_def)
  note g = has_gap_read_gap [OF rd gap]
  note ug = ungapped_read [OF g]
  from ring_read_holds [OF h, of "cur S" m] x e obtain evs c' k where
    out: "out = \<lparr>events = evs, next_cursor = \<lparr>after = f, ctl_after = c'\<rparr>\<rparr>" and
    b: "ev_bytes evs = take m (drop ?x (log ?L))" and
    ct: "ev_ctls evs = filter (due ?x f ?c) (ctls ?L)" and
    c': "c' = max_id f ?c (drop k (ctls ?L))" and ret: "retains (ring S) ?L (available_from (ring S)) k"
    using rd ug g by (auto simp: f_def)
  have wf: "ctls_wf (ctls ?L) (length (log ?L))" using ret by (simp add: retains_def)
  from due_run [OF wf seen ungapped_dropped [OF ret g seen] c, of f] obtain n where
    n: "ev_ctls evs = take n (drop ?c (ctls ?L))" "c' = ?c + n" "?c + n \<le> length (ctls ?L)"
      "\<forall>y \<in> set (drop (?c + n) (ctls ?L)). f < fst y"
    using ct c' by auto
  have "take ?x (log ?L) @ take m (drop ?x (log ?L)) = take f (log ?L)"
    by (simp add: take_add [symmetric] min_def f_def)
  moreover have "take ?c (ctls ?L) @ take n (drop ?c (ctls ?L)) = take (?c + n) (ctls ?L)"
    by (simp add: take_add)
  moreover have "f \<le> length (log ?L)" by (simp add: f_def)
  moreover have "\<forall>y \<in> set (drop (?c + n) (ctls ?L)). f \<le> fst y"
    using n(4) less_imp_le by blast
  ultimately have "caught (do_read out S)"
    using n(1,2,3) h by (simp add: caught_def do_read_def Let_def out gb gc b)
  then show ?thesis using n out by (simp add: f_def [symmetric])
qed

lemma consume_caught: "consume b S \<Longrightarrow> caught S"
proof (induction rule: consume.induct)
  case start
  show ?case by (simp add: caught_def consumer_init_def holds_new_ring from_offset_def)
next
  case (pushed S d)
  then show ?case
    by (auto simp: caught_def do_push_def Let_def holds_push) (auto simp: log_push_def)
next
  case (control S ev)
  then have "drop (ctl_after (cur S)) (ctls (written S) @ [y]) = drop (ctl_after (cur S)) (ctls (written S)) @ [y]" for y
    by (simp add: caught_def Let_def)
  then show ?case using control
    by (auto simp: caught_def do_control_def Let_def holds_push_control) (auto simp: log_push_control_def)
next
  case (read S m out)
  then show ?case using caught_read by blast
qed


text \<open>A gap is reported exactly when bytes or a control entry due to the cursor are gone.\<close>

lemma gap_iff_lost:
  assumes ret: "retains r L (available_from r) k"
  shows "read_gap r c \<noteq> [] \<longleftrightarrow> after c < available_from r \<or>
    (\<exists>x \<in> set (ctls L) - set (out_ctls (entries r)). read_from r c \<le> fst x \<and> ctl_after c < fst (snd x))"
    (is "_ \<longleftrightarrow> _ \<or> ?lost")
proof -
  have oc: "out_ctls (entries r) = drop k (ctls L)" and wf: "ctls_wf (ctls L) (length (log L))"
    using ret unfolding retains_def by blast+
  have "?lost" if o: "owed r c = Some li" for li
  proof -
    obtain ls where l: "lost_ctl r = Some (ls, li)" "ctl_after c < li" "read_from r c \<le> ls"
      using o by (auto simp: owed_def split: option.splits if_splits)
    then obtain e where e: "(ls, li, e) \<in> set (take k (ctls L))"
      using ret by (auto simp: retains_def lost_ok_def)
    then have "(ls, li, e) \<notin> set (drop k (ctls L))"
      using ctls_wf_take_id [OF wf e] ctls_wf_drop_id [OF wf, of "(ls, li, e)" k] by auto
    then show ?thesis using l e oc in_set_takeD [OF e] by force
  qed
  moreover have "read_gap r c \<noteq> []" if ?lost
  proof
    assume gap: "read_gap r c = []"
    from that obtain x where x: "x \<in> set (ctls L)" "x \<notin> set (drop k (ctls L))"
      "read_from r c \<le> fst x" "ctl_after c < fst (snd x)" by (auto simp: oc)
    then have "x \<in> set (take k (ctls L))"
      using set_append [of "take k (ctls L)" "drop k (ctls L)"] by auto
    then show False
      using dropped_not_due [OF ret, of x c "fst x"] x(3,4) ungapped_read(2) [OF gap] by (simp add: due_def)
  qed
  moreover have "read_gap r c \<noteq> [] \<longleftrightarrow> after c < available_from r \<or> (\<exists>li. owed r c = Some li)"
    by (auto simp: read_gap_def)
  ultimately show ?thesis by blast
qed

section \<open>Properties\<close>

text \<open>
  C1. Exactly-once, in-order delivery. However pushes, control appends and reads of any size
  interleave, a consumer that feeds each read's \<open>next\<close> cursor back and is never given a gap
  holds exactly a prefix of the output ever pushed and a prefix of the control entries ever
  appended, cut where its cursor says: nothing lost, repeated or reordered, evictions or not.
\<close>

theorem ring_exactly_once:
  assumes "consume b S"
  shows "got_bytes S = take (after (cur S)) (log (written S)) \<and>
         got_ctls S = take (ctl_after (cur S)) (ctls (written S)) \<and>
         after (cur S) \<le> length (log (written S)) \<and> ctl_after (cur S) \<le> length (ctls (written S))"
  using consume_caught [OF assms] by (simp add: caught_def Let_def)

lemmas ring_eval = new_ring_def push.simps push_piece_def append_output_def piece_max_def
  RING_CHUNK_MAX_def RING_CHUNK_DIVISOR_def CONTROL_ENTRY_COST_def evict.simps push_control_def
  ring_read_def available_from_def from_offset_def has_gap_def Let_def

lemma consume_demo:
  "consume 100 (do_read \<lparr>events = [OutputEv 2 [1, 2]], next_cursor = \<lparr>after = 2, ctl_after = 0\<rparr>\<rparr>
     (do_control (WriterChanged None) (do_push [1, 2, 3] (consumer_init 100))))"
proof (rule consume.read [where m = 2])
  show "consume 100 (do_control (WriterChanged None) (do_push [1, 2, 3] (consumer_init 100)))"
    by (intro consume.intros)
qed (simp_all add: do_push_def do_control_def consumer_init_def ring_eval)

theorem ring_exactly_once_witness:
  "got_bytes (do_read \<lparr>events = [OutputEv 2 [1, 2]], next_cursor = \<lparr>after = 2, ctl_after = 0\<rparr>\<rparr>
     (do_control (WriterChanged None) (do_push [1, 2, 3] (consumer_init 100)))) = [1, 2]"
  using ring_exactly_once [OF consume_demo]
  by (simp add: do_read_def do_control_def do_push_def consumer_init_def log_push_control_def
      log_push_def log_new_def)


text \<open>
  C24. A consumer catches up. In every reachable interleaving the consumer's next read succeeds,
  and if it is not told of a gap and asks for as many bytes as are outstanding, it then holds
  the whole output and every control entry appended so far, those at its offset included.
\<close>

theorem ring_catch_up:
  assumes "consume b S" and "length (log (written S)) \<le> after (cur S) + m"
  shows "\<exists>out. ring_read (ring S) (cur S) m = Inr out \<and>
           (\<not> has_gap out \<longrightarrow>
              got_bytes (do_read out S) = log (written S) \<and> got_ctls (do_read out S) = ctls (written S))"
proof -
  let ?L = "written S"
  have C: "caught S" using consume_caught [OF assms(1)] .
  then have h: "holds (ring S) ?L" and "after (cur S) \<le> end_off (ring S)"
    by (auto simp: caught_def Let_def holds_def retains_def)
  then obtain out where rd: "ring_read (ring S) (cur S) m = Inr out"
    using ring_read_holds [of "ring S" ?L "cur S" m] by blast
  have wf: "ctls_wf (ctls ?L) (length (log ?L))" using h by (auto simp: holds_def retains_def)
  have "got_bytes (do_read out S) = log ?L \<and> got_ctls (do_read out S) = ctls ?L" if "\<not> has_gap out"
  proof -
    note r = caught_read [OF C rd that]
    have n: "after (next_cursor out) = length (log ?L)" using r assms(2) by simp
    have "y \<notin> set (drop (ctl_after (next_cursor out)) (ctls ?L))" for y
      using r n wf in_set_dropD [of y _ "ctls ?L"] by (fastforce simp: ctls_wf_def)
    then have "drop (ctl_after (next_cursor out)) (ctls ?L) = []" by (meson list.set_sel(1))
    then show ?thesis using r n by (auto simp: caught_def Let_def do_read_def)
  qed
  with rd show ?thesis by blast
qed

theorem ring_catch_up_witness:
  "\<exists>out. ring_read (push (new_ring 100) [1, 2, 3]) (from_offset 0) 5 = Inr out \<and>
     ev_bytes (events out) = [1, 2, 3]"
  using ring_catch_up [OF consume.pushed [OF consume.start [of 100], of "[1, 2, 3]"], of 5]
  by (simp add: do_push_def do_read_def consumer_init_def log_push_def log_new_def ring_eval)

text \<open>
  What one read returns, for every ring that holds a log and every cursor not beyond its end.
  The read never fails (in particular it never underflows). It starts at the cursor's offset, or
  at the oldest retained byte behind which the cursor fell; the bytes it returns are exactly the
  next \<open>m\<close> bytes of the log from there, in stream order with the control entries among them. It
  reports a gap exactly when something due to this cursor is no longer held (bytes, or a control
  entry), and without a gap the control entries it returns are exactly those due.
\<close>

theorem ring_read_exact:
  assumes "holds r L" and "after c \<le> length (log L)"
  defines "a \<equiv> max (after c) (available_from r)"
  shows "\<exists>gap evs ctl. let f = min (length (log L)) (a + m) in
     ring_read r c m = Inr \<lparr>events = gap @ evs, next_cursor = \<lparr>after = f, ctl_after = ctl\<rparr>\<rparr> \<and>
     ev_chain a evs f \<and> ev_bytes evs = take m (drop a (log L)) \<and>
     gap \<in> {[], [GapEv (after c) a]} \<and>
     (gap = [] \<longrightarrow> ev_ctls evs = filter (due a f (ctl_after c)) (ctls L)) \<and>
     (gap \<noteq> [] \<longleftrightarrow> after c < available_from r \<or>
        (\<exists>x \<in> set (ctls L) - set (out_ctls (entries r)). a \<le> fst x \<and> ctl_after c < fst (snd x)))"
proof -
  let ?f = "min (length (log L)) (a + m)"
  have a: "a = read_from r c" by (simp add: a_def read_from_def)
  have "after c \<le> end_off r" using assms(1,2) by (auto simp: holds_def retains_def)
  from ring_read_holds [OF assms(1) this, of m] obtain evs ctl k where
    rd: "ring_read r c m = Inr \<lparr>events = read_gap r c @ evs, next_cursor = \<lparr>after = ?f, ctl_after = ctl\<rparr>\<rparr>"
      "ev_chain a evs ?f" "ev_bytes evs = take m (drop a (log L))"
      "ev_ctls evs = filter (due a ?f (read_ctl r c)) (ctls L)"
    and ret: "retains r L (available_from r) k"
    unfolding a by blast
  have "read_gap r c \<in> {[], [GapEv (after c) a]}" by (simp add: read_gap_def a)
  moreover have "ev_ctls evs = filter (due a ?f (ctl_after c)) (ctls L)" if "read_gap r c = []"
    using rd(4) ungapped_read(2) [OF that] by simp
  moreover have "read_gap r c \<noteq> [] \<longleftrightarrow> after c < available_from r \<or>
      (\<exists>x \<in> set (ctls L) - set (out_ctls (entries r)). a \<le> fst x \<and> ctl_after c < fst (snd x))"
    unfolding a by (rule gap_iff_lost [OF ret])
  ultimately show ?thesis using rd(1-3) unfolding Let_def by blast
qed


theorem ring_read_exact_witness:
  "ring_read (fst (push_control (push (new_ring 100) [7, 8, 9]) (WriterChanged None)))
     \<lparr>after = 1, ctl_after = 0\<rparr> 9
   = Inr \<lparr>events = [OutputEv 3 [8, 9], ControlEv 3 1 (WriterChanged None)],
          next_cursor = \<lparr>after = 3, ctl_after = 1\<rparr>\<rparr> \<and>
   (\<exists>gap evs ctl. gap = [] \<and> ev_bytes evs = take 9 (drop 1 [7, 8, 9]) \<and>
     ring_read (fst (push_control (push (new_ring 100) [7, 8, 9]) (WriterChanged None)))
       \<lparr>after = 1, ctl_after = 0\<rparr> 9
     = Inr \<lparr>events = gap @ evs, next_cursor = \<lparr>after = 3, ctl_after = ctl\<rparr>\<rparr>)"
  using ring_read_exact [OF holds_push_control [OF holds_push [OF holds_new_ring [of 100], of "[7, 8, 9]"],
      of "WriterChanged None"], of "\<lparr>after = 1, ctl_after = 0\<rparr>" 9]
  by (simp add: ring_eval log_push_control_def log_push_def log_new_def)

text \<open>
  C35. The ring is the append-only log with its past forgotten: after any sequence of pushes and
  control appends, the end offset is the number of bytes ever pushed, the retained bytes are
  exactly the log from \<open>available_from\<close> on, laid out contiguously with the control entries at
  their offsets, the retained control entries are the newest ones, in order, and the next control
  entry is numbered one past all those ever appended.
\<close>

theorem ring_refines_log:
  "let r = fold ring_step ops (new_ring b); L = fold log_step ops log_new in
     end_off r = length (log L) \<and>
     available_from r \<le> end_off r \<and>
     chain (available_from r) (entries r) (end_off r) \<and>
     out_bytes (entries r) = drop (available_from r) (log L) \<and>
     (\<exists>k. out_ctls (entries r) = drop k (ctls L)) \<and>
     snd (push_control r ev) = (length (log L), Suc (length (ctls L)))"
proof -
  let ?r = "fold ring_step ops (new_ring b)" and ?L = "fold log_step ops log_new"
  have h: "holds ?r ?L" by (rule ring_store.run_stores [OF holds_new_ring])
  then obtain k where "retains ?r ?L (available_from ?r) k" by (auto simp: holds_def)
  then have "end_off ?r = length (log ?L) \<and> chain (available_from ?r) (entries ?r) (end_off ?r) \<and>
      out_bytes (entries ?r) = drop (available_from ?r) (log ?L) \<and> out_ctls (entries ?r) = drop k (ctls ?L)"
    unfolding retains_def by blast
  then show ?thesis
    using ring_store.control_id [OF h, of ev] chain_le unfolding Let_def by blast
qed

text \<open>
  Memory is bounded. After any sequence of pushes and control appends, the ring's charge is the
  cost of its entries and never exceeds the budget (or one control entry, where the budget is
  smaller than that), and the number of output chunks is bounded by the charge over the chunk
  size plus the control entries, however the producer cuts its writes.
\<close>

theorem ring_bounded:
  "let r = fold ring_step ops (new_ring b) in
     budget r = max b 1 \<and>
     retained r = sum_list (map cost (entries r)) \<and>
     retained r \<le> max (budget r) CONTROL_ENTRY_COST \<and>
     piece_max r * length (filter is_output (entries r))
       \<le> retained r + piece_max r * (length (filter (\<lambda>e. \<not> is_output e) (entries r)) + 1)"
proof -
  let ?r = "fold ring_step ops (new_ring b)"
  have ok: "ring_ok ?r" by (rule ring_machine.run_inv [OF ring_ok_new])
  then have c: "retained ?r = sum_list (map cost (entries ?r))"
    by (auto simp: ring_ok_def holds_def retains_def)
  have "piece_max ?r * length (filter is_output (entries ?r))
       \<le> retained ?r + piece_max ?r * (length (filter (\<lambda>e. \<not> is_output e) (entries ?r)) + 1)"
    using coalesced_outputs [of "piece_max ?r" "entries ?r"] ok
    by (auto simp: ring_ok_def c split: if_splits)
  moreover have "budget ?r = max b 1" using ring_budget.run_inv [of "new_ring b"]
    by (simp add: new_ring_def)
  ultimately show ?thesis using ok c by (simp add: Let_def ring_ok_def)
qed

end
