(* ===== verification/Writer_Lease.thy ===== *)
theory Writer_Lease
  imports Qsh_Prelude
begin

text \<open>
  The writer lease of a session (\<open>qsh-core/src/broker/lease.rs\<close>): at most one holder, taken over
  by default and not with \<open>no_steal\<close>, released when the physical connection it sits on dies.
  Operations return the new lease with the source's result.
\<close>

section \<open>Data and operations\<close>

type_synonym connection_id = nat

record lease_holder =
  principal :: string
  conn :: connection_id
  physical :: connection_id

datatype take_outcome =
    Acquired (displaced: "lease_holder option") (changed: bool)
  | Conflict (holder: lease_holder)

type_synonym writer_lease = "lease_holder option"

definition is_held_by :: "writer_lease \<Rightarrow> connection_id \<Rightarrow> bool" where
  "is_held_by l c = (case l of None \<Rightarrow> False | Some h \<Rightarrow> conn h = c)"

definition take_owned ::
  "writer_lease \<Rightarrow> string \<Rightarrow> connection_id \<Rightarrow> connection_id \<Rightarrow> bool \<Rightarrow> writer_lease \<times> take_outcome" where
  "take_owned l p owner phys no_steal =
     (let replace = (Some \<lparr>principal = p, conn = owner, physical = phys\<rparr>, Acquired l True)
      in case l of
           None \<Rightarrow> replace
         | Some h \<Rightarrow>
             if conn h = owner then (l, Acquired None False)
             else if no_steal \<and> principal h \<noteq> p then (l, Conflict h)
             else replace)"

definition take_lease :: "writer_lease \<Rightarrow> string \<Rightarrow> connection_id \<Rightarrow> bool \<Rightarrow> writer_lease \<times> take_outcome" where
  "take_lease l p c no_steal = take_owned l p c c no_steal"

definition release_connection :: "writer_lease \<Rightarrow> connection_id \<Rightarrow> writer_lease \<times> lease_holder option" where
  "release_connection l phys =
     (case l of
        Some h \<Rightarrow> (if physical h = phys then (None, Some h) else (l, None))
      | None \<Rightarrow> (l, None))"

definition lease_conflict :: "writer_lease \<Rightarrow> string \<Rightarrow> bool" where
  "lease_conflict l p = (case l of None \<Rightarrow> False | Some h \<Rightarrow> principal h \<noteq> p)"

section \<open>Lemmas\<close>

datatype lease_op =
    OpTake string connection_id connection_id bool
  | OpRelease connection_id

fun lease_step :: "lease_op \<Rightarrow> writer_lease \<Rightarrow> writer_lease" where
  "lease_step (OpTake p owner phys ns) l = fst (take_owned l p owner phys ns)"
| "lease_step (OpRelease phys) l = fst (release_connection l phys)"

text \<open>An operation that respects principal \<open>p\<close>: a polite take, or one by \<open>p\<close> itself.\<close>

fun polite :: "string \<Rightarrow> lease_op \<Rightarrow> bool" where
  "polite p (OpTake q _ _ ns) \<longleftrightarrow> ns \<or> q = p"
| "polite p (OpRelease _) \<longleftrightarrow> False"

lemma polite_step:
  "polite p x \<Longrightarrow> map_option principal l = Some p \<Longrightarrow> map_option principal (lease_step x l) = Some p"
  by (cases x) (auto simp: take_owned_def Let_def split: option.splits)

lemma polite_run:
  "list_all (polite p) xs \<Longrightarrow> map_option principal l = Some p \<Longrightarrow>
   map_option principal (fold lease_step xs l) = Some p"
proof (induction xs arbitrary: l)
  case (Cons x xs)
  then have "map_option principal (lease_step x l) = Some p" by (intro polite_step) simp_all
  then show ?case using Cons by simp
qed simp

section \<open>Properties\<close>

text \<open>
  A take decides as documented. Afterwards exactly the taker holds the lease, or the lease is
  unchanged and the conflict names its holder, a different principal under \<open>no_steal\<close>; a change is
  reported exactly when the taker did not hold the lease before, with the displaced holder; and
  \<open>lease_conflict\<close>, the read-only probe of the attach path, predicts the refusal of a
  \<open>no_steal\<close> take by any connection that is not already the holder.
\<close>

theorem lease_take_decides:
  "case take_owned l p owner phys ns of
     (l', Acquired d ch) \<Rightarrow>
       (\<forall>c. is_held_by l' c = (c = owner)) \<and> ch = (\<not> is_held_by l owner) \<and> d = (if ch then l else None) \<and>
       (ch \<and> ns \<longrightarrow> \<not> lease_conflict l p)
   | (l', Conflict h) \<Rightarrow> l' = l \<and> l = Some h \<and> ns \<and> principal h \<noteq> p \<and> \<not> is_held_by l owner \<and>
       lease_conflict l p"
  by (cases l) (auto simp: take_owned_def Let_def is_held_by_def lease_conflict_def)

theorem lease_take_decides_witness:
  "take_owned (Some \<lparr>principal = ''device:a'', conn = 1, physical = 1\<rparr>) ''device:b'' 2 2 True
     = (Some \<lparr>principal = ''device:a'', conn = 1, physical = 1\<rparr>,
        Conflict \<lparr>principal = ''device:a'', conn = 1, physical = 1\<rparr>) \<and>
   lease_conflict (Some \<lparr>principal = ''device:a'', conn = 1, physical = 1\<rparr>) ''device:b''"
  using lease_take_decides [where l = "Some \<lparr>principal = ''device:a'', conn = 1, physical = 1\<rparr>"
      and p = "''device:b''" and owner = 2 and phys = 2 and ns = True]
  by (simp add: take_owned_def)

text \<open>
  The lease stays with its principal. Through any sequence of takes each of which is
  \<open>no_steal\<close> or by the holding principal itself (from any of its devices), the holder's principal
  never changes; and the death of a connection frees the lease exactly when it is the physical
  connection of the holder.
\<close>

theorem lease_principal_kept:
  assumes "list_all (polite (principal h)) xs"
  shows "map_option principal (fold lease_step xs (Some h)) = Some (principal h) \<and>
    (let l = fold lease_step xs (Some h) in
      \<forall>c. lease_step (OpRelease c) l = (if map_option physical l = Some c then None else l))"
  using polite_run [OF assms, of "Some h"]
  by (auto simp: release_connection_def Let_def split: option.splits)

theorem lease_principal_kept_witness:
  "map_option principal (fold lease_step [OpTake ''b'' 2 2 True, OpTake ''a'' 3 7 False, OpTake ''c'' 4 4 True]
      (Some \<lparr>principal = ''a'', conn = 1, physical = 1\<rparr>)) = Some ''a'' \<and>
   lease_step (OpRelease 7) (fold lease_step [OpTake ''b'' 2 2 True, OpTake ''a'' 3 7 False, OpTake ''c'' 4 4 True]
      (Some \<lparr>principal = ''a'', conn = 1, physical = 1\<rparr>)) = None"
  using lease_principal_kept [of "\<lparr>principal = ''a'', conn = 1, physical = 1\<rparr>"
      "[OpTake ''b'' 2 2 True, OpTake ''a'' 3 7 False, OpTake ''c'' 4 4 True]"]
  by (simp add: take_owned_def release_connection_def)

end
