(* ===== verification/Session_Actor.thy ===== *)
theory Session_Actor
  imports Replay_Ring Writer_Lease
begin

text \<open>
  The per-session actor (\<open>qsh-core/src/broker/session.rs\<close>, \<open>signal.rs\<close>): the input cursor of each
  client stream, the writer lease, the bounded input queue, the close escalation and the exit
  protocol. One step of the model is one arm of the actor's \<open>select!\<close> followed by the checks at
  the top of its loop, one action of the output pump or the input writer task, or one call on a
  session handle; a run is any sequence of steps, so the theorems hold for every scheduling.

  What the session source does is an argument of the step: what it outputs, when its child
  exits, and the result of each resize, signal and write. The emulator's answers to terminal
  queries are an argument of the output step. Instants are the session clock's, as numbers.
  Aborting the two I/O tasks is immediate.
\<close>

section \<open>Signals\<close>

datatype signal = SigHup | SigInt | SigQuit | SigTerm | SigUsr1 | SigUsr2 | SigKill

definition all_signals :: "signal list" where
  "all_signals = [SigHup, SigInt, SigQuit, SigTerm, SigUsr1, SigUsr2, SigKill]"

text \<open>\<open>str::trim\<close> and \<open>to_ascii_uppercase\<close>, on ASCII names.\<close>

definition ascii_ws :: "char \<Rightarrow> bool" where
  "ascii_ws c \<longleftrightarrow> of_char c \<in> {9, 10, 11, 12, 13, 32 :: nat}"

definition trim :: "string \<Rightarrow> string" where
  "trim s = rev (dropWhile ascii_ws (rev (dropWhile ascii_ws s)))"

definition to_ascii_uppercase :: "string \<Rightarrow> string" where
  "to_ascii_uppercase s =
     map (\<lambda>c. if 97 \<le> (of_char c :: nat) \<and> (of_char c :: nat) \<le> 122 then char_of (of_char c - 32 :: nat) else c) s"

definition signal_parse :: "string \<Rightarrow> signal option" where
  "signal_parse name =
     (let upper = to_ascii_uppercase (trim name);
          bare = (case strip_prefix ''SIG'' upper of Some r \<Rightarrow> r | None \<Rightarrow> upper)
      in if bare = ''HUP'' then Some SigHup
         else if bare = ''INT'' then Some SigInt
         else if bare = ''QUIT'' then Some SigQuit
         else if bare = ''TERM'' then Some SigTerm
         else if bare = ''USR1'' then Some SigUsr1
         else if bare = ''USR2'' then Some SigUsr2
         else if bare = ''KILL'' then Some SigKill
         else None)"

fun signal_str :: "signal \<Rightarrow> string" where
  "signal_str SigHup = ''SIGHUP''"
| "signal_str SigInt = ''SIGINT''"
| "signal_str SigQuit = ''SIGQUIT''"
| "signal_str SigTerm = ''SIGTERM''"
| "signal_str SigUsr1 = ''SIGUSR1''"
| "signal_str SigUsr2 = ''SIGUSR2''"
| "signal_str SigKill = ''SIGKILL''"

section \<open>Session state\<close>

datatype session_state = Running | Exited

record meta =
  m_state :: session_state
  lease :: writer_lease
  attached :: nat
  ttl_base :: nat
  applied_input :: "(nat \<times> nat) list"
  next_input_stream :: nat
  closing :: bool
  closed_at :: "nat option"

definition FIRST_INPUT_STREAM :: nat where
  "FIRST_INPUT_STREAM = 1"

definition MAX_INPUT_AXES :: nat where
  "MAX_INPUT_AXES = 32"

record ttl_window =
  w_attached :: nat
  w_closing :: bool
  w_state :: session_state
  w_ttl_base :: nat

definition reap_reason :: "ttl_window \<Rightarrow> nat \<Rightarrow> nat \<Rightarrow> close_reason option" where
  "reap_reason w now ttl =
     (if w_attached w > 0 \<or> w_closing w then None
      else if now - w_ttl_base w < ttl then None
      else Some (case w_state w of Exited \<Rightarrow> Exit | Running \<Rightarrow> TtlExpired))"

definition deadline :: "ttl_window \<Rightarrow> nat \<Rightarrow> nat \<Rightarrow> nat" where
  "deadline w now ttl = (if w_attached w > 0 then now + ttl else w_ttl_base w + ttl)"

definition ttl_window_of :: "meta \<Rightarrow> ttl_window" where
  "ttl_window_of m =
     \<lparr>w_attached = attached m, w_closing = closing m, w_state = m_state m, w_ttl_base = ttl_base m\<rparr>"

datatype write_error =
    NotWriter | NotRunning | Backpressure
  | InputGap nat nat
  | Io string
  | Gone

text \<open>A response channel is a number; the emulator's answers are queued with none.\<close>

type_synonym resp = nat

datatype command =
    Write connection_id bytes "(nat \<times> nat) option" resp
  | Resize nat nat resp
  | ResizeAt connection_id nat nat resp
  | Signal signal resp
  | TakeLease string connection_id connection_id bool resp
  | ReleaseConnection connection_id resp
  | Close close_reason "signal option" resp

datatype reply =
    WriteReply "write_error + nat"
  | ResizeReply "string + unit"
  | ResizeAtReply "write_error + unit"
  | SignalReply "string + unit"
  | TakeReply take_outcome
  | DoneReply
  | GoneReply

record closing_state =
  c_reason :: close_reason
  responders :: "resp list"
  next_sig :: "signal option"
  forced :: bool

record source_exit =
  exit_code :: "int option"
  exit_signal :: "string option"

text \<open>
  The actor's state and what it shares with its two I/O tasks. \<open>sent\<close>, \<open>signals\<close>, \<open>resizes\<close> and
  \<open>replies\<close> record the effects: bytes written to the source, signals and sizes handed to
  \<open>SourceControl\<close>, and responses sent, oldest first. \<open>flight\<close> is the chunk the writer task has
  taken off the queue and not finished; \<open>pump_done\<close> is the pump's end-of-file notice.
\<close>

record session =
  smeta :: meta
  sring :: replay_ring
  lease_conn :: "connection_id option"
  exiting :: bool
  output_done :: bool
  exit_appended :: bool
  pending_exit :: "source_exit option"
  close_st :: "closing_state option"
  input_queue :: nat
  inq :: "(bytes \<times> nat \<times> resp option) list"
  flight :: "(bytes \<times> nat \<times> resp option) option"
  pump_done :: bool
  finished :: bool
  sent :: bytes
  signals :: "signal list"
  resizes :: "(nat \<times> nat) list"
  replies :: "(resp \<times> reply) list"

section \<open>Input axes\<close>

function prune_input_axes :: "(nat \<times> nat) list \<Rightarrow> (nat \<times> nat) list" where
  "prune_input_axes axes =
     (if length axes > MAX_INPUT_AXES then prune_input_axes (tl axes) else axes)"
  by pat_completeness auto
termination
  by (relation "measure length") (auto simp: MAX_INPUT_AXES_def)

declare prune_input_axes.simps [simp del]

definition reserve_input_stream :: "meta \<Rightarrow> meta \<times> nat" where
  "reserve_input_stream m =
     (m\<lparr>next_input_stream := next_input_stream m + 1\<rparr>, next_input_stream m)"

definition seed_input_stream :: "meta \<Rightarrow> nat \<Rightarrow> nat option \<Rightarrow> meta \<times> nat" where
  "seed_input_stream m i from =
     (let start = (case Option.bind from (btm_get (applied_input m)) of Some n \<Rightarrow> n | None \<Rightarrow> 0)
      in (m\<lparr>applied_input := prune_input_axes (btm_insert i start (applied_input m))\<rparr>, start))"


definition attach_guard :: "meta \<Rightarrow> meta" where
  "attach_guard m = m\<lparr>attached := attached m + 1\<rparr>"

definition drop_guard :: "nat \<Rightarrow> meta \<Rightarrow> meta" where
  "drop_guard now m =
     (let m1 = m\<lparr>attached := attached m - 1\<rparr>
      in if attached m1 = 0 then m1\<lparr>ttl_base := now\<rparr> else m1)"

lemma guard_simps [simp]:
  "applied_input (attach_guard m) = applied_input m" "lease (attach_guard m) = lease m"
  "m_state (attach_guard m) = m_state m" "closing (attach_guard m) = closing m"
  "applied_input (drop_guard now m) = applied_input m" "lease (drop_guard now m) = lease m"
  "m_state (drop_guard now m) = m_state m" "closing (drop_guard now m) = closing m"
  by (simp_all add: attach_guard_def drop_guard_def Let_def)

section \<open>The actor\<close>

definition reply :: "resp \<Rightarrow> reply \<Rightarrow> session \<Rightarrow> session" where
  "reply r x s = s\<lparr>replies := replies s @ [(r, x)]\<rparr>"

definition sess_push_control :: "control_event \<Rightarrow> session \<Rightarrow> session" where
  "sess_push_control ev s = s\<lparr>sring := fst (push_control (sring s) ev)\<rparr>"

definition set_state_exited :: "nat \<Rightarrow> session \<Rightarrow> session" where
  "set_state_exited now s = s\<lparr>smeta := (smeta s)\<lparr>m_state := Exited, ttl_base := now\<rparr>\<rparr>"

definition mark_closed :: "nat \<Rightarrow> close_reason \<Rightarrow> session \<Rightarrow> session" where
  "mark_closed now reason s =
     sess_push_control (ClosedEvent reason)
       (s\<lparr>smeta := (smeta s)\<lparr>closing := True, closed_at := Some now\<rparr>\<rparr>)"

text \<open>\<open>mpsc::Sender::try_send\<close> on the input queue; its receiver lives as long as the actor runs.\<close>

datatype try_send = SendOk session | SendFull

definition try_send :: "session \<Rightarrow> bytes \<times> nat \<times> resp option \<Rightarrow> try_send" where
  "try_send s chunk =
     (if length (inq s) < max (input_queue s) 1 then SendOk (s\<lparr>inq := inq s @ [chunk]\<rparr>) else SendFull)"

text \<open>
  \<open>enqueue_write\<close>, in the source's order: state and lease, the stream's cursor, then the queue.
  \<open>admit_write\<close> is its first block, \<open>trim_write\<close> the cursor arithmetic.
\<close>

definition admit_write :: "meta \<Rightarrow> connection_id \<Rightarrow> nat option \<Rightarrow> write_error + nat" where
  "admit_write m c axis =
     (if m_state m \<noteq> Running \<or> closing m then Inl NotRunning
      else if \<not> is_held_by (lease m) c then Inl NotWriter
      else Inr (case Option.bind axis (btm_get (applied_input m)) of Some n \<Rightarrow> n | None \<Rightarrow> 0))"

definition trim_write :: "nat \<Rightarrow> bytes \<Rightarrow> nat \<Rightarrow> (write_error + nat) + bytes" where
  "trim_write applied data seq =
     (if seq < length data then Inl (Inl (InputGap seq applied))
      else
        let start = seq - length data
        in if start > applied then Inl (Inl (InputGap start applied))
           else let skip = applied - start
                in if skip \<ge> length data then Inl (Inr applied) else Inr (drop skip data))"

definition refuse_axis :: "meta \<Rightarrow> nat \<Rightarrow> nat \<Rightarrow> meta" where
  "refuse_axis m stream seq =
     (let slot = (case btm_get (applied_input m) stream of Some n \<Rightarrow> n | None \<Rightarrow> 0)
      in m\<lparr>applied_input := prune_input_axes (btm_insert stream (max slot seq) (applied_input m))\<rparr>)"

definition send_input :: "session \<Rightarrow> bytes \<Rightarrow> nat \<Rightarrow> nat option \<Rightarrow> resp \<Rightarrow> session" where
  "send_input s data nxt axis r =
     (case try_send s (data, nxt, Some r) of
        SendOk s' \<Rightarrow>
          (case axis of
             Some stream \<Rightarrow> s'\<lparr>smeta := (smeta s')\<lparr>applied_input := btm_insert stream nxt (applied_input (smeta s'))\<rparr>\<rparr>
           | None \<Rightarrow> s')
      | SendFull \<Rightarrow> reply r (WriteReply (Inl Backpressure)) s)"

definition enqueue_write ::
  "connection_id \<Rightarrow> bytes \<Rightarrow> (nat \<times> nat) option \<Rightarrow> resp \<Rightarrow> session \<Rightarrow> session" where
  "enqueue_write c data input_seq r s =
     (let axis = map_option fst input_seq
      in case admit_write (smeta s) c axis of
           Inl err \<Rightarrow>
             reply r (WriteReply (Inl err))
               (case input_seq of
                  Some (stream, seq) \<Rightarrow> s\<lparr>smeta := refuse_axis (smeta s) stream seq\<rparr>
                | None \<Rightarrow> s)
         | Inr applied \<Rightarrow>
             (case input_seq of
                None \<Rightarrow> send_input s data applied axis r
              | Some (_, seq) \<Rightarrow>
                  (case trim_write applied data seq of
                     Inl answer \<Rightarrow> reply r (WriteReply answer) s
                   | Inr rest \<Rightarrow> send_input s rest seq axis r)))"

definition deliver_signal :: "signal \<Rightarrow> session \<Rightarrow> session" where
  "deliver_signal sg s = s\<lparr>signals := signals s @ [sg]\<rparr>"

definition begin_close :: "close_reason \<Rightarrow> signal option \<Rightarrow> resp \<Rightarrow> session \<Rightarrow> session" where
  "begin_close reason sg r s =
     (case close_st s of
        Some c \<Rightarrow> s\<lparr>close_st := Some (c\<lparr>responders := responders c @ [r]\<rparr>)\<rparr>
      | None \<Rightarrow>
          let s1 = s\<lparr>smeta := (smeta s)\<lparr>closing := True\<rparr>\<rparr>;
              first = (case sg of Some x \<Rightarrow> x | None \<Rightarrow> SigHup);
              (s2, nxt) =
                (if m_state (smeta s) = Exited \<or> exiting s then (s1, None)
                 else (deliver_signal first s1,
                       case first of SigKill \<Rightarrow> None | SigTerm \<Rightarrow> Some SigKill | _ \<Rightarrow> Some SigTerm))
          in s2\<lparr>close_st := Some \<lparr>c_reason = reason, responders = [r], next_sig = nxt, forced = False\<rparr>\<rparr>)"

definition escalate :: "session \<Rightarrow> session" where
  "escalate s =
     (case close_st s of
        None \<Rightarrow> s
      | Some c \<Rightarrow>
          (case next_sig c of
             Some sg \<Rightarrow>
               (deliver_signal sg s)\<lparr>close_st :=
                  Some (c\<lparr>next_sig := (case sg of SigKill \<Rightarrow> None | _ \<Rightarrow> Some SigKill)\<rparr>)\<rparr>
           | None \<Rightarrow> s\<lparr>close_st := Some (c\<lparr>next_sig := None, forced := True\<rparr>)\<rparr>))"


text \<open>\<open>handle_command\<close>; \<open>io\<close> is what \<open>SourceControl\<close> answers if the command calls it.\<close>

definition is_running :: "session \<Rightarrow> bool" where
  "is_running s \<longleftrightarrow> m_state (smeta s) = Running \<and> \<not> closing (smeta s) \<and> \<not> exiting s"

definition set_lease :: "writer_lease \<Rightarrow> session \<Rightarrow> session" where
  "set_lease l s = s\<lparr>smeta := (smeta s)\<lparr>lease := l\<rparr>\<rparr>"

fun handle_command :: "command \<Rightarrow> string + unit \<Rightarrow> session \<Rightarrow> session" where
  "handle_command (Write c data input_seq r) io s = enqueue_write c data input_seq r s"
| "handle_command (Resize cols rows r) io s =
     reply r (ResizeReply io) (s\<lparr>resizes := resizes s @ [(cols, rows)]\<rparr>)"
| "handle_command (ResizeAt c cols rows r) io s =
     (if \<not> is_held_by (lease (smeta s)) c then reply r (ResizeAtReply (Inl NotWriter)) s
      else reply r (ResizeAtReply (map_sum Io id io)) (s\<lparr>resizes := resizes s @ [(cols, rows)]\<rparr>))"
| "handle_command (Signal sg r) io s =
     (if is_running s then reply r (SignalReply io) (deliver_signal sg s)
      else reply r (SignalReply (Inl ''session is not running'')) s)"
| "handle_command (TakeLease p c phys no_steal r) io s =
     (let (l, out) = take_owned (lease (smeta s)) p c phys no_steal;
          s1 = set_lease l s
      in reply r (TakeReply out)
           (case out of
              Acquired _ True \<Rightarrow> sess_push_control (WriterChanged (Some p)) (s1\<lparr>lease_conn := Some phys\<rparr>)
            | _ \<Rightarrow> s1))"
| "handle_command (ReleaseConnection c r) io s =
     (let (l, released) = release_connection (lease (smeta s)) c;
          s1 = set_lease l s
      in reply r DoneReply
           (case released of
              Some _ \<Rightarrow>
                sess_push_control (WriterChanged None)
                  (if lease_conn s1 = Some c then s1\<lparr>lease_conn := None\<rparr> else s1)
            | None \<Rightarrow> s1))"
| "handle_command (Close reason sg r) io s = begin_close reason sg r s"

text \<open>What a handle returns for a command whose actor is gone.\<close>

fun gone_reply :: "command \<Rightarrow> resp \<times> reply" where
  "gone_reply (Write _ _ _ r) = (r, WriteReply (Inl Gone))"
| "gone_reply (Resize _ _ r) = (r, GoneReply)"
| "gone_reply (ResizeAt _ _ _ r) = (r, ResizeAtReply (Inl Gone))"
| "gone_reply (Signal _ r) = (r, GoneReply)"
| "gone_reply (TakeLease _ _ _ _ r) = (r, GoneReply)"
| "gone_reply (ReleaseConnection _ r) = (r, DoneReply)"
| "gone_reply (Close _ _ r) = (r, DoneReply)"

section \<open>The loop\<close>

definition append_exit :: "nat \<Rightarrow> session \<Rightarrow> session" where
  "append_exit now s =
     (if exiting s \<and> output_done s \<and> \<not> exit_appended s then
        let x = (case pending_exit s of Some x \<Rightarrow> x | None \<Rightarrow> \<lparr>exit_code = None, exit_signal = None\<rparr>)
        in set_state_exited now
             (sess_push_control (ExitEvent (exit_code x) (exit_signal x))
               (s\<lparr>exit_appended := True, pending_exit := None\<rparr>))
      else s)"

definition pending_writes :: "session \<Rightarrow> resp list" where
  "pending_writes s =
     List.map_filter (\<lambda>(d, n, r). r) ((case flight s of Some x \<Rightarrow> [x] | None \<Rightarrow> []) @ inq s)"

text \<open>
  After the loop: the I/O tasks are aborted, which drops the queued writes with their response
  channels, then \<open>Closed\<close> is appended and every closer answered.
\<close>

definition finalise :: "nat \<Rightarrow> session \<Rightarrow> session" where
  "finalise now s =
     (let dropped = map (\<lambda>r. (r, WriteReply (Inl Gone))) (pending_writes s);
          reason = (case close_st s of Some c \<Rightarrow> c_reason c | None \<Rightarrow> Closed);
          resps = (case close_st s of Some c \<Rightarrow> responders c | None \<Rightarrow> []);
          s1 = mark_closed now reason
                 (s\<lparr>inq := [], flight := None, close_st := None, finished := True\<rparr>)
      in s1\<lparr>replies := replies s1 @ dropped @ map (\<lambda>r. (r, DoneReply)) resps\<rparr>)"

definition loop_top :: "nat \<Rightarrow> session \<Rightarrow> session" where
  "loop_top now s =
     (let s1 = append_exit now s
      in case close_st s1 of
           Some c \<Rightarrow> (if exit_appended s1 \<or> forced c then finalise now s1 else s1)
         | None \<Rightarrow> s1)"

datatype event =
    Inbox command "string + unit"
  | InboxClosed
  | EofNotice
  | ChildExit source_exit
  | CloseTimer
  | PumpRead bytes bytes
  | PumpEof
  | WriterRecv
  | WriterDone "(nat \<times> string) option"
  | AttachGuard
  | DropGuard
  | ReserveStream
  | SeedStream nat "nat option"

fun actor_step :: "nat \<Rightarrow> event \<Rightarrow> session \<Rightarrow> session" where
  "actor_step now (Inbox cmd io) s =
     (if finished s then s\<lparr>replies := replies s @ [gone_reply cmd]\<rparr>
      else loop_top now (handle_command cmd io s))"
| "actor_step now InboxClosed s = (if finished s then s else finalise now s)"
| "actor_step now EofNotice s =
     (if finished s \<or> output_done s \<or> \<not> pump_done s then s else loop_top now (s\<lparr>output_done := True\<rparr>))"
| "actor_step now (ChildExit x) s =
     (if finished s \<or> exiting s then s
      else loop_top now (s\<lparr>pending_exit := Some x, exiting := True\<rparr>))"
| "actor_step now CloseTimer s =
     (if finished s \<or> close_st s = None then s else loop_top now (escalate s))"
| "actor_step now (PumpRead data answers) s =
     (if finished s \<or> pump_done s \<or> data = [] then s
      else
        let s1 = s\<lparr>sring := push (sring s) data\<rparr>
        in if answers = [] then s1
           else case try_send s1 (answers, 0, None) of SendOk s2 \<Rightarrow> s2 | SendFull \<Rightarrow> s1)"
| "actor_step now PumpEof s = (if finished s then s else s\<lparr>pump_done := True\<rparr>)"
| "actor_step now WriterRecv s =
     (case (flight s, inq s) of
        (None, x # xs) \<Rightarrow> s\<lparr>flight := Some x, inq := xs\<rparr>
      | _ \<Rightarrow> s)"
| "actor_step now (WriterDone res) s =
     (case flight s of
        None \<Rightarrow> s
      | Some (data, n, r) \<Rightarrow>
          let (written, answer) =
                (case res of None \<Rightarrow> (data, Inr n) | Some (k, e) \<Rightarrow> (take k data, Inl (Io e)));
              s1 = s\<lparr>flight := None, sent := sent s @ written\<rparr>
          in case r of Some i \<Rightarrow> reply i (WriteReply answer) s1 | None \<Rightarrow> s1)"
| "actor_step now AttachGuard s = s\<lparr>smeta := attach_guard (smeta s)\<rparr>"
| "actor_step now DropGuard s = s\<lparr>smeta := drop_guard now (smeta s)\<rparr>"
| "actor_step now ReserveStream s = s\<lparr>smeta := fst (reserve_input_stream (smeta s))\<rparr>"
| "actor_step now (SeedStream i from) s = s\<lparr>smeta := fst (seed_input_stream (smeta s) i from)\<rparr>"

definition session_new :: "nat \<Rightarrow> nat \<Rightarrow> nat \<Rightarrow> session" where
  "session_new now replay_bytes queue =
     \<lparr>smeta = \<lparr>m_state = Running, lease = None, attached = 0, ttl_base = now,
        applied_input = [(FIRST_INPUT_STREAM, 0)], next_input_stream = FIRST_INPUT_STREAM + 1,
        closing = False, closed_at = None\<rparr>,
      sring = new_ring replay_bytes, lease_conn = None, exiting = False, output_done = False,
      exit_appended = False, pending_exit = None, close_st = None, input_queue = queue, inq = [],
      flight = None, pump_done = False, finished = False, sent = [], signals = [], resizes = [],
      replies = []\<rparr>"

definition run_session :: "(nat \<times> event) list \<Rightarrow> session \<Rightarrow> session" where
  "run_session evs s = fold (\<lambda>(now, ev). actor_step now ev) evs s"

end
