(* ===== verification/Session_Guarantees.thy ===== *)
theory Session_Guarantees
  imports Session_Actor "HOL-Library.Multiset"
begin

text \<open>
  What a session guarantees, for every sequence of steps of its actor, its two I/O tasks and its
  handles: exactly-once input per client stream, first-in first-out delivery to the child, one
  answer per command, the order of the entries in the ring, and a close that always ends.
\<close>

section \<open>Input axes\<close>

lemma prune_drop: "prune_input_axes axes = drop (length axes - MAX_INPUT_AXES) axes"
proof (induction axes rule: prune_input_axes.induct)
  case (1 axes)
  show ?case
  proof (cases "length axes > MAX_INPUT_AXES")
    case True
    then have "Suc (length (tl axes) - MAX_INPUT_AXES) = length axes - MAX_INPUT_AXES"
      by (cases axes) auto
    then have "drop (length (tl axes) - MAX_INPUT_AXES) (tl axes) = drop (length axes - MAX_INPUT_AXES) axes"
      by (metis drop_Suc)
    then show ?thesis using "1" True by (subst prune_input_axes.simps) simp
  next
    case False
    then show ?thesis by (subst prune_input_axes.simps) simp
  qed
qed

lemma btm_get_drop: "btm_wf m \<Longrightarrow> btm_get (drop n m) k = Some v \<Longrightarrow> btm_get m k = Some v"
proof (induction m arbitrary: n)
  case (Cons p m)
  obtain a b where p: "p = (a, b)" by fastforce
  show ?case
  proof (cases n)
    case (Suc n')
    have "btm_wf m" "\<forall>x \<in> fst ` set m. a < x" using Cons.prems by (auto simp: btm_wf_def p)
    moreover have "btm_get m k = Some v" using Cons Suc \<open>btm_wf m\<close> by simp
    ultimately show ?thesis using btm_get_None_iff [of m k] by (auto simp: p)
  qed (use Cons in simp)
qed simp

definition axis :: "session \<Rightarrow> nat \<Rightarrow> nat option" where
  "axis s st = btm_get (applied_input (smeta s)) st"

definition axes_ok :: "session \<Rightarrow> bool" where
  "axes_ok s \<longleftrightarrow> btm_wf (applied_input (smeta s)) \<and> (close_st s \<noteq> None \<longrightarrow> closing (smeta s))"

text \<open>What the surrounding loop leaves alone.\<close>

lemma loop_top_simps [simp]:
  "applied_input (smeta (loop_top now s)) = applied_input (smeta s)"
  "lease (smeta (loop_top now s)) = lease (smeta s)"
  "attached (smeta (loop_top now s)) = attached (smeta s)"
  "signals (loop_top now s) = signals s"
  "sent (loop_top now s) = sent s"
  "exiting (loop_top now s) = exiting s"
  "output_done (loop_top now s) = output_done s"
  "pump_done (loop_top now s) = pump_done s"
  "closing (smeta s) \<Longrightarrow> closing (smeta (loop_top now s))"
  by (simp_all add: loop_top_def append_exit_def finalise_def mark_closed_def sess_push_control_def
      set_state_exited_def Let_def split: option.splits)


lemma enqueue_write_refused:
  "admit_write (smeta s) c (map_option fst sq) = Inl err \<Longrightarrow>
   enqueue_write c d sq r s = reply r (WriteReply (Inl err))
     (case sq of Some (st, q) \<Rightarrow> s\<lparr>smeta := refuse_axis (smeta s) st q\<rparr> | None \<Rightarrow> s)"
  by (simp add: enqueue_write_def)

definition queue_room :: "session \<Rightarrow> bool" where
  "queue_room s \<longleftrightarrow> length (inq s) < max (input_queue s) 1"

lemma send_input_cases:
  "send_input s d n ax r =
     (if queue_room s
      then s\<lparr>inq := inq s @ [(d, n, Some r)],
             smeta := (case ax of Some st \<Rightarrow> (smeta s)\<lparr>applied_input := btm_insert st n (applied_input (smeta s))\<rparr>
                       | None \<Rightarrow> smeta s)\<rparr>
      else reply r (WriteReply (Inl Backpressure)) s)"
  by (auto simp: send_input_def try_send_def queue_room_def split: option.splits)

text \<open>What a numbered chunk that was admitted does, by the outcome of the cursor arithmetic.\<close>

lemma enqueue_write_admitted:
  assumes "admit_write (smeta s) c (Some st) = Inr a"
  shows "enqueue_write c d (Some (st, q)) r s =
     (case trim_write a d q of
        Inl answer \<Rightarrow> reply r (WriteReply answer) s
      | Inr rest \<Rightarrow> send_input s rest q (Some st) r)"
  using assms by (simp add: enqueue_write_def)

lemma btm_wf_prune: "btm_wf m \<Longrightarrow> btm_wf (prune_input_axes m)"
  by (simp add: prune_drop btm_wf_drop)

lemma get_prune: "btm_wf m \<Longrightarrow> btm_get (prune_input_axes m) k = Some v \<Longrightarrow> btm_get m k = Some v"
  by (simp add: prune_drop) (rule btm_get_drop)

lemma get_prune_insert:
  "btm_get (prune_input_axes (btm_insert k v m)) j = Some w \<Longrightarrow> btm_wf m \<Longrightarrow> j \<noteq> k \<Longrightarrow> btm_get m j = Some w"
  using get_prune [of "btm_insert k v m" j w] by (simp add: btm_wf_insert btm_get_insert)

definition seeds :: "nat \<Rightarrow> event \<Rightarrow> bool" where
  "seeds st ev = (case ev of SeedStream i _ \<Rightarrow> i = st | _ \<Rightarrow> False)"

fun on_stream :: "nat \<Rightarrow> event \<Rightarrow> (connection_id \<times> bytes \<times> nat \<times> resp) option" where
  "on_stream st (Inbox (Write c d (Some (st', q)) r) io) = (if st' = st then Some (c, d, q, r) else None)"
| "on_stream st ev = None"

lemma on_stream_Some:
  "on_stream st ev = Some (c, d, q, r) \<longleftrightarrow> (\<exists>io. ev = Inbox (Write c d (Some (st, q)) r) io)"
  by (cases "(st, ev)" rule: on_stream.cases) auto

lemma begin_close_axes [simp]: "applied_input (smeta (begin_close reason sg r s)) = applied_input (smeta s)"
  by (auto simp: begin_close_def deliver_signal_def Let_def split: option.splits prod.splits)

lemma escalate_axes [simp]: "smeta (escalate s) = smeta s"
  by (auto simp: escalate_def deliver_signal_def split: option.splits)

lemma finalise_axes [simp]: "applied_input (smeta (finalise now s)) = applied_input (smeta s)"
  by (simp add: finalise_def mark_closed_def sess_push_control_def Let_def)

text \<open>A write moves the axis it is numbered on, and at most drops others.\<close>

lemma enqueue_write_axes:
  assumes "btm_wf (applied_input (smeta s))"
  shows "btm_wf (applied_input (smeta (enqueue_write c d sq r s)))"
    and "axis (enqueue_write c d sq r s) st = Some v \<Longrightarrow> \<forall>q. sq \<noteq> Some (st, q) \<Longrightarrow> axis s st = Some v"
  using assms
  by (auto dest: get_prune_insert simp: enqueue_write_def send_input_cases reply_def refuse_axis_def Let_def axis_def btm_get_insert
      btm_wf_insert btm_wf_prune split: option.splits sum.splits prod.splits if_splits)

lemma actor_step_axes:
  assumes "btm_wf (applied_input (smeta s))"
  shows "btm_wf (applied_input (smeta (actor_step now ev s)))"
    and "axis (actor_step now ev s) st = Some v \<Longrightarrow> on_stream st ev = None \<Longrightarrow> \<not> seeds st ev \<Longrightarrow>
         axis s st = Some v"
proof -
  have upd: "axis (s\<lparr>smeta := m\<rparr>) st = btm_get (applied_input m) st" for m by (simp add: axis_def)
  have cmd: "btm_wf (applied_input (smeta (handle_command cmd io s))) \<and>
      (axis (handle_command cmd io s) st = Some v \<longrightarrow> on_stream st (Inbox cmd io) = None \<longrightarrow> axis s st = Some v)"
    for cmd io
  proof (cases cmd)
    case (Write c d sq r)
    then show ?thesis using enqueue_write_axes [OF assms, of c d sq r] by (cases sq) (auto split: if_splits)
  qed (auto simp: assms axis_def reply_def deliver_signal_def set_lease_def sess_push_control_def Let_def
      split: prod.splits take_outcome.splits bool.splits option.splits)
  show "btm_wf (applied_input (smeta (actor_step now ev s)))"
    using assms cmd by (cases ev) (auto simp: reply_def try_send_def reserve_input_stream_def
        seed_input_stream_def Let_def btm_wf_insert btm_wf_prune
        split: option.splits list.splits prod.splits)
  show "axis s st = Some v"
    if "axis (actor_step now ev s) st = Some v" "on_stream st ev = None" "\<not> seeds st ev"
    using that assms cmd by (cases ev) (auto dest: get_prune_insert simp: axis_def reply_def try_send_def
        reserve_input_stream_def seed_input_stream_def seeds_def Let_def
        split: option.splits list.splits prod.splits if_splits)
qed


section \<open>Exactly-once input\<close>

text \<open>
  A client stream is a byte sequence \<open>S\<close>; a chunk is numbered by the offset after it. \<open>stream_slice S lo d\<close>:
  \<open>d\<close> is what \<open>S\<close> has at offset \<open>lo\<close>. \<open>stream_chunks\<close> collects what the writes of stream \<open>st\<close> put on
  the input queue over a run, each with the offset the stream had before it.
\<close>

definition stream_slice :: "bytes \<Rightarrow> nat \<Rightarrow> bytes \<Rightarrow> bool" where
  "stream_slice S lo d \<longleftrightarrow> lo + length d \<le> length S \<and> d = take (length d) (drop lo S)"

definition numbered :: "bytes \<Rightarrow> nat \<Rightarrow> event \<Rightarrow> bool" where
  "numbered S st ev \<longleftrightarrow>
     (case on_stream st ev of None \<Rightarrow> True
      | Some (c, d, q, r) \<Rightarrow> length d \<le> q \<and> q \<le> length S \<and> stream_slice S (q - length d) d)"

definition queued_by :: "session \<Rightarrow> session \<Rightarrow> bytes" where
  "queued_by s s' = concat (map fst (drop (length (inq s)) (inq s')))"

definition new_chunk :: "nat \<Rightarrow> session \<Rightarrow> event \<Rightarrow> (nat \<times> bytes) list" where
  "new_chunk st s ev =
     (case on_stream st ev of
        Some (c, d, q, r) \<Rightarrow>
          (let new = (if finished s then [] else queued_by s (enqueue_write c d (Some (st, q)) r s))
           in if new = [] then [] else [(case axis s st of Some a \<Rightarrow> a | None \<Rightarrow> 0, new)])
      | None \<Rightarrow> [])"

fun stream_chunks :: "nat \<Rightarrow> session \<Rightarrow> (nat \<times> event) list \<Rightarrow> (nat \<times> bytes) list" where
  "stream_chunks st s [] = []"
| "stream_chunks st s ((now, ev) # evs) =
     new_chunk st s ev @ stream_chunks st (actor_step now ev s) evs"

text \<open>The stream's axis is not re-seeded and not pruned during the run.\<close>

fun undisturbed :: "nat \<Rightarrow> session \<Rightarrow> (nat \<times> event) list \<Rightarrow> bool" where
  "undisturbed st s [] \<longleftrightarrow> axis s st \<noteq> None"
| "undisturbed st s ((now, ev) # evs) \<longleftrightarrow>
     axis s st \<noteq> None \<and> \<not> seeds st ev \<and> undisturbed st (actor_step now ev s) evs"

text \<open>Every write of the stream finds the session running and its connection holding the lease.\<close>

definition refused :: "nat \<Rightarrow> session \<Rightarrow> event \<Rightarrow> bool" where
  "refused st s ev \<longleftrightarrow>
     (case on_stream st ev of None \<Rightarrow> False
      | Some (c, d, q, r) \<Rightarrow> finished s \<or> isl (admit_write (smeta s) c (Some st)))"

fun unrefused :: "nat \<Rightarrow> session \<Rightarrow> (nat \<times> event) list \<Rightarrow> bool" where
  "unrefused st s [] \<longleftrightarrow> True"
| "unrefused st s ((now, ev) # evs) \<longleftrightarrow> \<not> refused st s ev \<and> unrefused st (actor_step now ev s) evs"

lemma trim_write_slice:
  assumes "trim_write a d q = Inr rest" "length d \<le> q" "q \<le> length S" "stream_slice S (q - length d) d"
  shows "stream_slice S a rest \<and> rest \<noteq> [] \<and> q = a + length rest"
proof -
  let ?st = "q - length d"
  have st: "?st \<le> a" "a - ?st < length d" and r: "rest = drop (a - ?st) d"
    using assms(1) by (auto simp: trim_write_def Let_def split: if_splits)
  have len: "length rest = q - a" "a \<le> q" using st r assms(2) by auto
  have "d = take (length d) (drop ?st S)" using assms(4) by (simp add: stream_slice_def)
  then have "rest = take (length d - (a - ?st)) (drop (a - ?st) (drop ?st S))"
    unfolding r by (metis drop_take)
  also have "length d - (a - ?st) = q - a" using st assms(2) by arith
  also have "drop (a - ?st) (drop ?st S) = drop a S" using st by simp
  finally have "rest = take (length rest) (drop a S)" unfolding len(1) .
  moreover have "rest \<noteq> []" using st r by simp
  ultimately show ?thesis using len assms(3) by (simp add: stream_slice_def)
qed

lemma enqueue_write_step:
  assumes ax: "axis s st = Some a" and num: "length d \<le> q" "q \<le> length S" "stream_slice S (q - length d) d"
    and wf: "btm_wf (applied_input (smeta s))"
    and ax': "axis (enqueue_write c d (Some (st, q)) r s) st = Some a'"
  shows "let new = queued_by s (enqueue_write c d (Some (st, q)) r s) in
    (new = [] \<and> a \<le> a' \<and> (\<not> isl (admit_write (smeta s) c (Some st)) \<longrightarrow> a' = a)) \<or>
    (new \<noteq> [] \<and> stream_slice S a new \<and> a' = a + length new)"
proof (cases "admit_write (smeta s) c (Some st)")
  case (Inl err)
  have "btm_get (btm_insert st (max a q) (applied_input (smeta s))) st = Some a'"
    using ax ax' get_prune [OF btm_wf_insert [OF wf], of st "max a q" st a']
    by (simp add: enqueue_write_refused Inl reply_def axis_def refuse_axis_def)
  then show ?thesis
    by (auto simp: enqueue_write_refused Inl queued_by_def reply_def btm_get_insert)
next
  case (Inr b)
  then have b: "b = a" using ax by (auto simp: admit_write_def axis_def split: if_splits)
  show ?thesis
  proof (cases "trim_write a d q")
    case (Inl answer)
    then show ?thesis using Inr b ax ax'
      by (simp add: enqueue_write_admitted reply_def queued_by_def axis_def)
  next
    case (Inr rest)
    then show ?thesis
      using trim_write_slice [OF Inr num] ax ax' \<open>admit_write (smeta s) c (Some st) = Inr b\<close> b
      by (auto simp: enqueue_write_admitted send_input_cases reply_def queued_by_def axis_def
          btm_get_insert)
  qed
qed


lemma chunk_step:
  assumes wf: "btm_wf (applied_input (smeta s))" and ax: "axis s st = Some a"
    and num: "numbered S st ev" and sd: "\<not> seeds st ev" and ax': "axis (actor_step now ev s) st = Some a'"
  shows "(new_chunk st s ev = [] \<and> a \<le> a' \<and> (\<not> refused st s ev \<longrightarrow> a' = a)) \<or>
    (\<exists>d. new_chunk st s ev = [(a, d)] \<and> stream_slice S a d \<and> a' = a + length d)"
proof (cases "on_stream st ev")
  case None
  then show ?thesis using actor_step_axes(2) [OF wf ax' None sd] ax by (simp add: new_chunk_def)
next
  case (Some w)
  obtain c d q r where w: "w = (c, d, q, r)" by (cases w)
  then obtain io where ev: "ev = Inbox (Write c d (Some (st, q)) r) io"
    using Some on_stream_Some by fastforce
  show ?thesis
  proof (cases "finished s")
    case True
    then show ?thesis using ax ax' by (simp add: ev new_chunk_def axis_def)
  next
    case False
    let ?s = "enqueue_write c d (Some (st, q)) r s"
    have "axis ?s st = Some a'" using ax' False by (simp add: ev axis_def)
    moreover have "length d \<le> q" "q \<le> length S" "stream_slice S (q - length d) d"
      using num by (simp_all add: numbered_def Some w)
    ultimately show ?thesis
      using enqueue_write_step [OF ax _ _ _ wf, of d q S c r a'] ax False
      by (auto simp: new_chunk_def Some w refused_def Let_def)
  qed
qed

definition before :: "nat \<times> bytes \<Rightarrow> nat \<times> bytes \<Rightarrow> bool" where
  "before x y \<longleftrightarrow> fst x + length (snd x) \<le> fst y"

lemma before_Pair [simp]: "before (a, d) (b, e) \<longleftrightarrow> a + length d \<le> b"
  by (simp add: before_def)

lemma stream_chunks_ordered:
  assumes "btm_wf (applied_input (smeta s))" "undisturbed st s evs" "\<forall>(now, ev) \<in> set evs. numbered S st ev"
    "axis s st = Some a" "axis (run_session evs s) st = Some b"
  shows "a \<le> b \<and> sorted_wrt before (stream_chunks st s evs) \<and>
    (\<forall>(lo, d) \<in> set (stream_chunks st s evs). a \<le> lo \<and> lo + length d \<le> b \<and> stream_slice S lo d)"
  using assms
proof (induction evs arbitrary: s a)
  case (Cons p evs)
  obtain now ev where p: "p = (now, ev)" by fastforce
  let ?s = "actor_step now ev s"
  obtain a' where a': "axis ?s st = Some a'"
    using Cons.prems(2) by (cases evs) (auto simp: p)
  have IH: "a' \<le> b \<and> sorted_wrt before (stream_chunks st ?s evs) \<and>
    (\<forall>(lo, d) \<in> set (stream_chunks st ?s evs). a' \<le> lo \<and> lo + length d \<le> b \<and> stream_slice S lo d)"
    using Cons.prems actor_step_axes(1) a' by (intro Cons.IH) (auto simp: p run_session_def)
  have "(new_chunk st s ev = [] \<and> a \<le> a') \<or>
    (\<exists>d. new_chunk st s ev = [(a, d)] \<and> stream_slice S a d \<and> a' = a + length d)"
    using chunk_step [of s st a S ev now a'] Cons.prems a' by (auto simp: p)
  then show ?case using IH by (fastforce simp: p)
qed (simp add: run_session_def)

lemma slice_concat: "stream_slice S a d \<Longrightarrow> a + length d \<le> b \<Longrightarrow> d @ drop (a + length d) (take b S) = drop a (take b S)"
proof -
  assume "stream_slice S a d" "a + length d \<le> b"
  then have "d = take (length d) (drop a (take b S))"
    by (auto simp: stream_slice_def drop_take min_def)
  then show ?thesis by (metis add.commute append_take_drop_id drop_drop)
qed

lemma stream_chunks_complete:
  assumes "btm_wf (applied_input (smeta s))" "undisturbed st s evs" "\<forall>(now, ev) \<in> set evs. numbered S st ev"
    "axis s st = Some a" "axis (run_session evs s) st = Some b" "unrefused st s evs"
  shows "concat (map snd (stream_chunks st s evs)) = drop a (take b S)"
  using assms
proof (induction evs arbitrary: s a)
  case (Cons p evs)
  obtain now ev where p: "p = (now, ev)" by fastforce
  let ?s = "actor_step now ev s"
  obtain a' where a': "axis ?s st = Some a'"
    using Cons.prems(2) by (cases evs) (auto simp: p)
  have IH: "concat (map snd (stream_chunks st ?s evs)) = drop a' (take b S)"
    using Cons.prems actor_step_axes(1) a' by (intro Cons.IH) (auto simp: p run_session_def)
  have le: "a' \<le> b"
    using stream_chunks_ordered [of ?s st evs S a' b] Cons.prems actor_step_axes(1) a'
    by (auto simp: p run_session_def)
  have "(new_chunk st s ev = [] \<and> a' = a) \<or>
    (\<exists>d. new_chunk st s ev = [(a, d)] \<and> stream_slice S a d \<and> a' = a + length d)"
    using chunk_step [of s st a S ev now a'] Cons.prems a' by (auto simp: p)
  then show ?case using IH slice_concat le by (auto simp: p)
qed (simp add: run_session_def)


section \<open>The input queue is first-in first-out\<close>

definition in_transit :: "session \<Rightarrow> bytes" where
  "in_transit s = (case flight s of Some (d, n, r) \<Rightarrow> d | None \<Rightarrow> []) @ concat (map fst (inq s))"

definition step_input :: "nat \<Rightarrow> session \<Rightarrow> event \<Rightarrow> bytes" where
  "step_input now s ev =
     (case ev of
        Inbox cmd io \<Rightarrow> if finished s then [] else queued_by s (handle_command cmd io s)
      | PumpRead d a \<Rightarrow> queued_by s (actor_step now ev s)
      | _ \<Rightarrow> [])"

fun run_input :: "session \<Rightarrow> (nat \<times> event) list \<Rightarrow> bytes" where
  "run_input s [] = []"
| "run_input s ((now, ev) # evs) = step_input now s ev @ run_input (actor_step now ev s) evs"

definition write_fails :: "event \<Rightarrow> bool" where
  "write_fails ev = (case ev of WriterDone (Some _) \<Rightarrow> True | _ \<Rightarrow> False)"

lemma handle_command_queue:
  "\<exists>x. inq (handle_command cmd io s) = inq s @ x"
  "flight (handle_command cmd io s) = flight s" "sent (handle_command cmd io s) = sent s"
  "input_queue (handle_command cmd io s) = input_queue s" "finished (handle_command cmd io s) = finished s"
  by (cases cmd; auto simp: enqueue_write_def send_input_cases reply_def begin_close_def
      deliver_signal_def set_lease_def sess_push_control_def Let_def
      split: option.splits sum.splits prod.splits take_outcome.splits bool.splits)+

lemma in_transit_finalise [simp]: "in_transit (finalise now s) = []" "finished (finalise now s)"
  by (simp_all add: in_transit_def finalise_def mark_closed_def sess_push_control_def Let_def)

lemma loop_top_queue:
  "finished (loop_top now s) \<or> (inq (loop_top now s) = inq s \<and> flight (loop_top now s) = flight s)"
  by (auto simp: loop_top_def append_exit_def set_state_exited_def sess_push_control_def Let_def
      split: option.splits)

lemma escalate_queue [simp]:
  "inq (escalate s) = inq s" "flight (escalate s) = flight s" "sent (escalate s) = sent s"
  "finished (escalate s) = finished s"
  by (auto simp: escalate_def deliver_signal_def split: option.splits)

lemma finalise_sent [simp]:
  "sent (finalise now s) = sent s" "signals (finalise now s) = signals s" "exiting (finalise now s) = exiting s"
  by (simp_all add: finalise_def mark_closed_def sess_push_control_def Let_def)

definition idle_done :: "session \<Rightarrow> bool" where
  "idle_done s \<longleftrightarrow> (finished s \<longrightarrow> inq s = [] \<and> flight s = None \<and> close_st s = None)"

lemma finalise_idle [simp]: "idle_done (finalise now s)"
  by (simp add: idle_done_def finalise_def mark_closed_def sess_push_control_def Let_def)

lemma loop_top_idle: "\<not> finished s \<Longrightarrow> idle_done (loop_top now s)"
  by (auto simp: loop_top_def append_exit_def set_state_exited_def sess_push_control_def Let_def
      idle_done_def finalise_def mark_closed_def split: option.splits)

lemma idle_I: "\<not> finished s \<Longrightarrow> idle_done s"
  by (simp add: idle_done_def)

lemma actor_step_idle:
  assumes "idle_done s"
  shows "idle_done (actor_step now ev s)"
proof (cases "finished s")
  case True
  then show ?thesis using assms
    by (cases ev) (auto simp: idle_done_def Let_def)
next
  case False
  then show ?thesis using assms
    by (cases ev) (auto simp: idle_I loop_top_idle handle_command_queue(5) reply_def try_send_def Let_def
        split: option.splits list.splits prod.splits)
qed

text \<open>A step either finishes the session or passes what is in transit on, in order.\<close>

lemma step_transit:
  assumes "idle_done s" "\<not> write_fails ev"
  shows "(finished (actor_step now ev s) \<and> sent (actor_step now ev s) = sent s) \<or>
    sent (actor_step now ev s) @ in_transit (actor_step now ev s) = sent s @ in_transit s @ step_input now s ev"
proof (cases ev)
  case (Inbox cmd io)
  let ?t = "handle_command cmd io s"
  obtain x where x: "inq ?t = inq s @ x" using handle_command_queue(1) by blast
  show ?thesis
    using loop_top_queue [of now ?t] handle_command_queue(2,3) [of cmd io s] x Inbox
    by (auto simp: in_transit_def step_input_def queued_by_def)
next
  case CloseTimer
  then show ?thesis using loop_top_queue [of now "escalate s"]
    by (auto simp: in_transit_def step_input_def)
next
  case EofNotice
  then show ?thesis using loop_top_queue [of now "s\<lparr>output_done := True\<rparr>"]
    by (auto simp: in_transit_def step_input_def)
next
  case (ChildExit x)
  then show ?thesis using loop_top_queue [of now "s\<lparr>pending_exit := Some x, exiting := True\<rparr>"]
    by (auto simp: in_transit_def step_input_def)
qed (use assms in \<open>auto simp: in_transit_def step_input_def queued_by_def write_fails_def reply_def try_send_def Let_def
      split: option.splits list.splits prod.splits\<close>)

text \<open>A finished session changes no more: only replies and the handles' bookkeeping go on.\<close>

lemma finished_step:
  assumes "finished s" "idle_done s"
  shows "finished (actor_step now ev s)" "sent (actor_step now ev s) = sent s"
    "signals (actor_step now ev s) = signals s" "sring (actor_step now ev s) = sring s"
    "idle_done (actor_step now ev s)"
  using assms actor_step_idle [OF assms(2)]
  by (cases ev; auto simp: idle_done_def Let_def)+

lemma run_session_Cons [simp]: "run_session ((now, ev) # evs) s = run_session evs (actor_step now ev s)"
  by (simp add: run_session_def)

lemma run_session_Nil [simp]: "run_session [] s = s"
  by (simp add: run_session_def)

lemma finished_run:
  "finished s \<Longrightarrow> idle_done s \<Longrightarrow>
     finished (run_session evs s) \<and> sent (run_session evs s) = sent s \<and>
     signals (run_session evs s) = signals s \<and> sring (run_session evs s) = sring s"
proof (induction evs arbitrary: s)
  case (Cons p evs)
  then show ?case using finished_step [of s "fst p" "snd p"] by (cases p) simp
qed simp

lemma run_input_fifo:
  assumes "idle_done s" "list_all (\<lambda>(now, ev). \<not> write_fails ev) evs"
  shows "\<exists>rest. sent s @ in_transit s @ run_input s evs = sent (run_session evs s) @ rest \<and>
    (\<not> finished (run_session evs s) \<longrightarrow> rest = in_transit (run_session evs s))"
  using assms
proof (induction evs arbitrary: s)
  case Nil
  then show ?case by (auto simp: run_session_def)
next
  case (Cons p evs)
  obtain now ev where p: "p = (now, ev)" by fastforce
  let ?s = "actor_step now ev s"
  have run: "run_session (p # evs) s = run_session evs ?s" by (simp add: p run_session_def)
  obtain rest where IH: "sent ?s @ in_transit ?s @ run_input ?s evs = sent (run_session evs ?s) @ rest"
     "\<not> finished (run_session evs ?s) \<longrightarrow> rest = in_transit (run_session evs ?s)"
    using Cons.IH [of ?s] actor_step_idle [of s now ev] Cons.prems by (auto simp: p)
  show ?case
  proof (cases "finished ?s \<and> sent ?s = sent s")
    case True
    then have "sent (run_session evs ?s) = sent s" "finished (run_session evs ?s)"
      using finished_run [of ?s evs] actor_step_idle Cons.prems(1) by auto
    then show ?thesis unfolding run by (intro exI conjI impI) auto
  next
    case False
    then have "sent ?s @ in_transit ?s = sent s @ in_transit s @ step_input now s ev"
      using step_transit [of s ev now] Cons.prems by (auto simp: p)
    then have "sent s @ in_transit s @ run_input s (p # evs) = sent (run_session evs ?s) @ rest"
      using IH(1) by (metis append_assoc p run_input.simps(2))
    then show ?thesis unfolding run using IH(2) by blast
  qed
qed


section \<open>Every command is answered once\<close>

fun resp_of :: "command \<Rightarrow> resp" where
  "resp_of (Write _ _ _ r) = r"
| "resp_of (Resize _ _ r) = r"
| "resp_of (ResizeAt _ _ _ r) = r"
| "resp_of (Signal _ r) = r"
| "resp_of (TakeLease _ _ _ _ r) = r"
| "resp_of (ReleaseConnection _ r) = r"
| "resp_of (Close _ _ r) = r"

definition issued :: "(nat \<times> event) list \<Rightarrow> resp list" where
  "issued evs = List.map_filter (\<lambda>(now, ev). case ev of Inbox cmd io \<Rightarrow> Some (resp_of cmd) | _ \<Rightarrow> None) evs"

definition answered :: "session \<Rightarrow> resp multiset" where
  "answered s = mset (map fst (replies s))"

definition awaiting :: "session \<Rightarrow> resp multiset" where
  "awaiting s = mset (pending_writes s) + (case close_st s of Some c \<Rightarrow> mset (responders c) | None \<Rightarrow> {#})"

lemmas session_defs = reply_def deliver_signal_def set_lease_def sess_push_control_def
  set_state_exited_def mark_closed_def

lemma map_filter_append [simp]: "List.map_filter f (xs @ ys) = List.map_filter f xs @ List.map_filter f ys"
  by (simp add: List.map_filter_def)

lemma gone_reply_resp [simp]: "fst (gone_reply cmd) = resp_of cmd"
  by (cases cmd) auto

lemma handle_command_answers:
  "answered (handle_command cmd io s) + awaiting (handle_command cmd io s)
     = answered s + awaiting s + {#resp_of cmd#}"
  by (cases cmd)
    (auto simp: answered_def awaiting_def pending_writes_def enqueue_write_def send_input_cases begin_close_def
      session_defs Let_def List.map_filter_simps
      split: option.splits sum.splits prod.splits take_outcome.splits bool.splits)

lemma finalise_answers: "answered (finalise now s) + awaiting (finalise now s) = answered s + awaiting s"
  by (auto simp: answered_def awaiting_def pending_writes_def finalise_def session_defs Let_def comp_def
      split: option.splits)

lemma append_exit_answers:
  "answered (append_exit now s) = answered s" "awaiting (append_exit now s) = awaiting s"
  by (simp_all add: answered_def awaiting_def pending_writes_def append_exit_def session_defs Let_def)

lemma loop_top_answers: "answered (loop_top now s) + awaiting (loop_top now s) = answered s + awaiting s"
  by (auto simp: loop_top_def Let_def finalise_answers append_exit_answers split: option.splits)

lemma step_answers:
  "answered (actor_step now ev s) + awaiting (actor_step now ev s)
     = answered s + awaiting s + mset (issued [(now, ev)])"
proof (cases ev)
  case (Inbox cmd io)
  then show ?thesis
    by (simp add: loop_top_answers handle_command_answers issued_def List.map_filter_simps)
      (simp add: answered_def awaiting_def pending_writes_def)
next
  case CloseTimer
  have "answered (escalate s) + awaiting (escalate s) = answered s + awaiting s"
    by (auto simp: answered_def awaiting_def pending_writes_def escalate_def session_defs split: option.splits)
  then show ?thesis using CloseTimer by (simp add: loop_top_answers issued_def List.map_filter_simps)
qed (auto simp: loop_top_answers finalise_answers issued_def List.map_filter_simps Let_def,
    auto simp: answered_def awaiting_def pending_writes_def try_send_def session_defs List.map_filter_simps
      split: option.splits list.splits prod.splits)


section \<open>The session's journal\<close>

text \<open>
  What the ring of a session holds (\<open>journal\<close>): the last writer announced is the lease's holder;
  exactly one exit entry once the child's output is drained and none before, with no output after
  it; and once the session is finished, one closed entry, which is the last.
\<close>

definition last_writer :: "(nat \<times> nat \<times> control_event) list \<Rightarrow> string option" where
  "last_writer cs = fold (\<lambda>(s, i, e) w. case e of WriterChanged p \<Rightarrow> p | _ \<Rightarrow> w) cs None"

definition exits :: "(nat \<times> nat \<times> control_event) list \<Rightarrow> (nat \<times> nat \<times> control_event) list" where
  "exits = filter (\<lambda>(s, i, e). case e of ExitEvent _ _ \<Rightarrow> True | _ \<Rightarrow> False)"

definition closes :: "(nat \<times> nat \<times> control_event) list \<Rightarrow> (nat \<times> nat \<times> control_event) list" where
  "closes = filter (\<lambda>(s, i, e). case e of ClosedEvent _ \<Rightarrow> True | _ \<Rightarrow> False)"

definition journal :: "session \<Rightarrow> replay_log \<Rightarrow> bool" where
  "journal s L \<longleftrightarrow>
     holds (sring s) L \<and>
     last_writer (ctls L) = map_option principal (lease (smeta s)) \<and>
     (m_state (smeta s) = Exited \<longleftrightarrow> exit_appended s) \<and>
     (exit_appended s \<longrightarrow> exiting s \<and> output_done s) \<and>
     (output_done s \<longrightarrow> pump_done s) \<and>
     map fst (exits (ctls L)) = (if exit_appended s then [length (log L)] else []) \<and>
     (if finished s
      then \<exists>cs r. ctls L = cs @ [(length (log L), Suc (length cs), ClosedEvent r)] \<and> closes cs = []
      else closes (ctls L) = [])"

lemma writer_snoc [simp]:
  "last_writer (cs @ [(s, i, e)]) = (case e of WriterChanged p \<Rightarrow> p | _ \<Rightarrow> last_writer cs)"
  by (cases e) (simp_all add: last_writer_def)

lemma exits_snoc [simp]:
  "exits (cs @ [(s, i, e)]) = exits cs @ (case e of ExitEvent _ _ \<Rightarrow> [(s, i, e)] | _ \<Rightarrow> [])"
  by (cases e) (simp_all add: exits_def)

lemma closes_snoc [simp]:
  "closes (cs @ [(s, i, e)]) = closes cs @ (case e of ClosedEvent _ \<Rightarrow> [(s, i, e)] | _ \<Rightarrow> [])"
  by (cases e) (simp_all add: closes_def)

lemma log_push_control_simps [simp]:
  "log (log_push_control L ev) = log L"
  "ctls (log_push_control L ev) = ctls L @ [(length (log L), Suc (length (ctls L)), ev)]"
  by (simp_all add: log_push_control_def)

lemma log_push_simps [simp]: "log (log_push L d) = log L @ d" "ctls (log_push L d) = ctls L"
  by (simp_all add: log_push_def)

lemma take_owned_unchanged: "take_owned l p c ph ns = (l', out) \<Longrightarrow> (\<forall>d. out \<noteq> Acquired d True) \<Longrightarrow> l' = l"
  by (auto simp: take_owned_def Let_def split: option.splits if_splits)

lemma take_owned_changed:
  "take_owned l p c ph ns = (l', Acquired d True) \<Longrightarrow> map_option principal l' = Some p"
  by (auto simp: take_owned_def Let_def split: option.splits if_splits)

lemma journal_take:
  assumes "journal s L" "\<not> finished s"
  shows "\<exists>L. journal (handle_command (TakeLease p c ph ns r) io s) L"
proof -
  obtain l out where t: "take_owned (lease (smeta s)) p c ph ns = (l, out)" by fastforce
  show ?thesis
  proof (cases "\<exists>d. out = Acquired d True")
    case True
    then show ?thesis using assms t take_owned_changed [of "lease (smeta s)" p c ph ns l]
      ring_store.stores_control [of "sring s" L "WriterChanged (Some p)"]
      by (intro exI [of _ "log_push_control L (WriterChanged (Some p))"])
        (auto simp: journal_def session_defs)
  next
    case False
    then have "l = lease (smeta s)" using take_owned_unchanged [OF t] by auto
    then show ?thesis using assms t False
      by (intro exI [of _ L]) (auto simp: journal_def session_defs split: take_outcome.splits bool.splits)
  qed
qed

lemma journal_release:
  assumes "journal s L" "\<not> finished s"
  shows "\<exists>L. journal (handle_command (ReleaseConnection c r) io s) L"
proof (cases "snd (release_connection (lease (smeta s)) c)")
  case None
  then show ?thesis using assms
    by (intro exI [of _ L]) (auto simp: journal_def session_defs release_connection_def Let_def split: option.splits if_splits)
next
  case (Some h)
  then show ?thesis using assms ring_store.stores_control [of "sring s" L "WriterChanged None"]
    by (intro exI [of _ "log_push_control L (WriterChanged None)"])
      (auto simp: journal_def session_defs release_connection_def Let_def split: option.splits if_splits)
qed

lemma journal_handle:
  assumes "journal s L" "\<not> finished s"
  shows "\<exists>L. journal (handle_command cmd io s) L"
proof (cases cmd)
  case (TakeLease p c ph ns r)
  then show ?thesis using journal_take [OF assms] by simp
next
  case (ReleaseConnection c r)
  then show ?thesis using journal_release [OF assms] by simp
qed (use assms in \<open>auto simp: journal_def session_defs enqueue_write_def send_input_cases begin_close_def
     refuse_axis_def Let_def intro!: exI [of _ L] split: option.splits sum.splits prod.splits\<close>)


lemma journal_append_exit:
  assumes "journal s L" "\<not> finished s"
  shows "\<exists>L. journal (append_exit now s) L"
proof (cases "exiting s \<and> output_done s \<and> \<not> exit_appended s")
  case True
  let ?x = "case pending_exit s of Some x \<Rightarrow> x | None \<Rightarrow> \<lparr>exit_code = None, exit_signal = None\<rparr>"
  let ?ev = "ExitEvent (exit_code ?x) (exit_signal ?x)"
  have e: "append_exit now s = set_state_exited now
      (sess_push_control ?ev (s\<lparr>exit_appended := True, pending_exit := None\<rparr>))"
    using True by (simp add: append_exit_def Let_def)
  show ?thesis unfolding e
    using assms True ring_store.stores_control [of "sring s" L ?ev]
    by (intro exI [of _ "log_push_control L ?ev"]) (auto simp: journal_def session_defs)
next
  case False
  then have "append_exit now s = s" by (auto simp: append_exit_def)
  then show ?thesis using assms by auto
qed

lemma journal_finalise:
  assumes "journal s L" "\<not> finished s"
  shows "\<exists>L. journal (finalise now s) L"
proof -
  let ?ev = "ClosedEvent (case close_st s of Some c \<Rightarrow> c_reason c | None \<Rightarrow> Closed)"
  show ?thesis
    using assms ring_store.stores_control [of "sring s" L ?ev]
    by (intro exI [of _ "log_push_control L ?ev"]) (auto simp: journal_def finalise_def session_defs Let_def)
qed

lemma append_exit_finished [simp]: "finished (append_exit now s) = finished s"
  by (simp add: append_exit_def session_defs Let_def)

lemma journal_loop_top:
  assumes "journal s L" "\<not> finished s"
  shows "\<exists>L. journal (loop_top now s) L"
proof -
  obtain L' where L': "journal (append_exit now s) L'" using journal_append_exit [OF assms] by blast
  then show ?thesis using journal_finalise [OF L', of now] assms(2)
    by (auto simp: loop_top_def Let_def split: option.splits)
qed

lemma journal_step:
  assumes "journal s L" "idle_done s"
  shows "\<exists>L. journal (actor_step now ev s) L"
proof (cases "finished s")
  case True
  then show ?thesis using assms
    by (cases ev) (auto simp: journal_def idle_done_def reserve_input_stream_def seed_input_stream_def Let_def)
next
  case False
  note top = journal_loop_top [where now = now]
  show ?thesis
  proof (cases ev)
    case (Inbox cmd io)
    then show ?thesis using journal_handle [OF assms(1) False, of cmd io] top False handle_command_queue(5)
      by auto
  next
    case EofNotice
    have "journal (s\<lparr>output_done := True\<rparr>) L" if "pump_done s"
      using assms(1) that False by (simp add: journal_def)
    then show ?thesis using top [of "s\<lparr>output_done := True\<rparr>" L] assms(1) False EofNotice by auto
  next
    case (ChildExit x)
    have "journal (s\<lparr>pending_exit := Some x, exiting := True\<rparr>) L" using assms(1) by (auto simp: journal_def)
    then show ?thesis
      using top [of "s\<lparr>pending_exit := Some x, exiting := True\<rparr>" L] assms(1) False ChildExit by auto
  next
    case CloseTimer
    have "journal (escalate s) L" using assms(1)
      by (auto simp: journal_def escalate_def session_defs split: option.splits)
    then show ?thesis using top [of "escalate s" L] assms(1) False CloseTimer by auto
  next
    case (PumpRead d a)
    show ?thesis
    proof (cases "pump_done s \<or> d = []")
      case True
      then show ?thesis using assms(1) PumpRead by auto
    next
      case no: False
      have "journal (actor_step now ev s) (log_push L d)"
        using assms(1) False PumpRead no ring_store.stores_push [of "sring s" L d]
        by (auto simp: journal_def try_send_def Let_def)
      then show ?thesis by blast
    qed
  next
    case InboxClosed
    then show ?thesis using journal_finalise [OF assms(1) False, of now] False by auto
  qed (use assms(1) False in \<open>auto simp: journal_def session_defs reserve_input_stream_def seed_input_stream_def
       Let_def intro!: exI [of _ L] split: option.splits list.splits prod.splits\<close>)
qed


section \<open>The close escalation\<close>

text \<open>The signals still to come when \<open>next_sig\<close> is armed, and the whole ladder of a first signal.\<close>

fun rungs :: "signal option \<Rightarrow> signal list" where
  "rungs None = []"
| "rungs (Some SigKill) = [SigKill]"
| "rungs (Some sg) = [sg, SigKill]"

definition ladder :: "signal \<Rightarrow> signal list" where
  "ladder first = (case first of SigKill \<Rightarrow> [SigKill] | SigTerm \<Rightarrow> [SigTerm, SigKill]
     | _ \<Rightarrow> [first, SigTerm, SigKill])"

definition climbing :: "session \<Rightarrow> signal list \<Rightarrow> nat \<Rightarrow> bool" where
  "climbing s all n \<longleftrightarrow>
     (if finished s then \<exists>rest. signals s @ rest = all
      else closing (smeta s) \<and> (\<exists>c. close_st s = Some c \<and> \<not> forced c \<and> signals s @ rungs (next_sig c) = all \<and>
             length (rungs (next_sig c)) < n))"

definition is_timer :: "event \<Rightarrow> bool" where
  "is_timer ev = (case ev of CloseTimer \<Rightarrow> True | _ \<Rightarrow> False)"

lemma climbing_loop_top:
  assumes "climbing s all n" "\<not> finished s"
  shows "climbing (loop_top now s) all n"
  using assms
  by (auto simp: climbing_def loop_top_def append_exit_def finalise_def session_defs Let_def split: option.splits)

lemma rungs_tl: "rungs (Some sg) = sg # rungs (case sg of SigKill \<Rightarrow> None | _ \<Rightarrow> Some SigKill)"
  by (cases sg) auto

lemma forced_finishes:
  "close_st s = Some c \<Longrightarrow> forced c \<Longrightarrow> \<not> finished s \<Longrightarrow> finished (loop_top now s) \<and> signals (loop_top now s) = signals s"
  by (auto simp: loop_top_def append_exit_def finalise_def session_defs Let_def split: option.splits)

lemma climbing_escalate:
  assumes "climbing s all (Suc n)" "\<not> finished s"
  shows "climbing (loop_top now (escalate s)) all n"
proof -
  obtain c where c: "close_st s = Some c" "\<not> forced c" "signals s @ rungs (next_sig c) = all"
    "length (rungs (next_sig c)) < Suc n" "closing (smeta s)"
    using assms by (auto simp: climbing_def)
  show ?thesis
  proof (cases "next_sig c")
    case None
    let ?s = "s\<lparr>close_st := Some (c\<lparr>next_sig := None, forced := True\<rparr>)\<rparr>"
    have "escalate s = ?s" using c None by (simp add: escalate_def)
    then show ?thesis
      using forced_finishes [of ?s "c\<lparr>next_sig := None, forced := True\<rparr>" now] c None assms(2)
      by (auto simp: climbing_def)
  next
    case (Some sg)
    have "climbing (escalate s) all n" using c Some assms(2)
      by (auto simp: climbing_def escalate_def deliver_signal_def rungs_tl)
    then show ?thesis using climbing_loop_top assms(2) by simp
  qed
qed

lemma climbing_handle:
  assumes "climbing s all n" "\<not> finished s"
  shows "climbing (handle_command cmd io s) all n"
proof -
  have "\<not> is_running s" using assms by (simp add: climbing_def is_running_def)
  then show ?thesis using assms
    by (cases cmd) (auto simp: climbing_def enqueue_write_def send_input_cases begin_close_def refuse_axis_def
        session_defs Let_def split: option.splits sum.splits prod.splits take_outcome.splits bool.splits)
qed

lemma climbing_step:
  assumes "climbing s all (n + (if is_timer ev then 1 else 0))" "idle_done s"
  shows "climbing (actor_step now ev s) all n"
proof (cases "finished s")
  case True
  then show ?thesis using assms finished_step [OF True assms(2)] by (simp add: climbing_def)
next
  case False
  show ?thesis
  proof (cases ev)
    case (Inbox cmd io)
    then show ?thesis using assms False climbing_handle [OF _ False, of all n cmd io]
      climbing_loop_top handle_command_queue(5) by (simp add: is_timer_def)
  next
    case CloseTimer
    then show ?thesis using assms False climbing_escalate [OF _ False, of all n now]
      by (auto simp: is_timer_def climbing_def)
  next
    case EofNotice
    have "climbing (s\<lparr>output_done := True\<rparr>) all n" using assms EofNotice by (simp add: climbing_def is_timer_def)
    then show ?thesis using climbing_loop_top assms False EofNotice by (simp add: is_timer_def)
  next
    case (ChildExit x)
    have "climbing (s\<lparr>pending_exit := Some x, exiting := True\<rparr>) all n"
      using assms ChildExit by (simp add: climbing_def is_timer_def)
    then show ?thesis using climbing_loop_top assms False ChildExit by (simp add: is_timer_def)
  qed (use assms False in \<open>auto simp: climbing_def is_timer_def session_defs try_send_def finalise_def
       reserve_input_stream_def seed_input_stream_def Let_def split: option.splits list.splits prod.splits\<close>)
qed

definition timers :: "(nat \<times> event) list \<Rightarrow> nat" where
  "timers evs = length (filter (\<lambda>(now, ev). is_timer ev) evs)"

lemma climbing_run:
  "climbing s all (n + timers evs) \<Longrightarrow> idle_done s \<Longrightarrow> climbing (run_session evs s) all n"
proof (induction evs arbitrary: s)
  case (Cons p evs)
  obtain now ev where p: "p = (now, ev)" by fastforce
  have "climbing (actor_step now ev s) all (n + timers evs)"
    using Cons.prems by (intro climbing_step) (simp_all add: p timers_def split: if_splits)
  then show ?case using Cons actor_step_idle by (simp add: p)
qed (simp add: timers_def)


lemma run_answers:
  "answered (run_session evs s) + awaiting (run_session evs s) = answered s + awaiting s + mset (issued evs)"
proof (induction evs arbitrary: s)
  case (Cons p evs)
  obtain now ev where p: "p = (now, ev)" by fastforce
  have "issued (p # evs) = issued [p] @ issued evs"
    using map_filter_append [of _ "[p]" evs] by (simp add: issued_def)
  then show ?case using Cons [of "actor_step now ev s"] step_answers [of now ev s] by (simp add: p)
qed (simp add: issued_def List.map_filter_simps)

lemma undisturbed_end: "undisturbed st s evs \<Longrightarrow> \<exists>a. axis (run_session evs s) st = Some a"
  by (induction st s evs rule: undisturbed.induct) auto

lemma begin_close_climbs:
  assumes "is_running s" "close_st s = None" "\<not> finished s"
  shows "climbing (begin_close reason sg r s) (signals s @ ladder (case sg of Some x \<Rightarrow> x | None \<Rightarrow> SigHup)) 3"
proof -
  let ?f = "case sg of Some x \<Rightarrow> x | None \<Rightarrow> SigHup"
  show ?thesis using assms
    by (cases ?f) (auto simp: climbing_def begin_close_def is_running_def ladder_def deliver_signal_def Let_def)
qed

lemma climbing_mono: "climbing s all n \<Longrightarrow> n \<le> m \<Longrightarrow> climbing s all m"
  by (auto simp: climbing_def)

lemma climbing_prefix: "climbing s (xs @ ys) n \<Longrightarrow> \<exists>rest. signals s @ rest = xs @ ys"
  by (auto simp: climbing_def split: if_splits)

lemma handle_signals:
  "\<not> is_running s \<Longrightarrow> exiting s \<Longrightarrow> signals (handle_command cmd io s) = signals s"
  "exiting (handle_command cmd io s) = exiting s"
  by (cases cmd; auto simp: enqueue_write_def send_input_cases begin_close_def session_defs Let_def
        split: option.splits sum.splits prod.splits take_outcome.splits bool.splits)+

lemma step_signals_grow: "\<exists>x. signals (actor_step now ev s) = signals s @ x"
proof (cases ev)
  case (Inbox cmd io)
  have "\<exists>x. signals (handle_command cmd io s) = signals s @ x"
    by (cases cmd) (auto simp: enqueue_write_def send_input_cases begin_close_def session_defs Let_def
        split: option.splits sum.splits prod.splits take_outcome.splits bool.splits)
  then show ?thesis using Inbox by auto
next
  case CloseTimer
  then show ?thesis by (auto simp: escalate_def deliver_signal_def split: option.splits)
qed (auto simp: session_defs try_send_def Let_def split: option.splits list.splits prod.splits)

lemma signals_grow: "\<exists>x. signals (run_session evs s) = signals s @ x"
proof (induction evs arbitrary: s)
  case (Cons p evs)
  then show ?case using step_signals_grow [of "fst p" "snd p" s] by (cases p) (metis append_assoc fst_conv
        run_session_Cons snd_conv)
qed simp

section \<open>Reachable sessions\<close>

definition session_ok :: "session \<Rightarrow> bool" where
  "session_ok s \<longleftrightarrow> btm_wf (applied_input (smeta s)) \<and> idle_done s \<and> (\<exists>L. journal s L)"

lemma session_ok_new: "session_ok (session_new now b q)"
  using holds_new_ring [of b]
  by (auto simp: session_ok_def session_new_def idle_done_def btm_wf_def journal_def log_new_def
      last_writer_def exits_def closes_def intro!: exI [of _ log_new])

lemma session_ok_step: "session_ok s \<Longrightarrow> session_ok (actor_step now ev s)"
  unfolding session_ok_def using actor_step_axes(1) actor_step_idle journal_step by blast

interpretation session_machine: machine "\<lambda>(now, ev). actor_step now ev" session_ok
  by unfold_locales (auto simp: session_ok_step)

lemma run_session_ok: "session_ok (run_session evs (session_new now b q))"
  unfolding run_session_def by (rule session_machine.run_inv [OF session_ok_new])

lemmas session_eval = session_new_def run_session_def begin_close_def loop_top_def append_exit_def
  finalise_def escalate_def session_defs enqueue_write_def admit_write_def trim_write_def send_input_cases
  queue_room_def is_held_by_def take_owned_def seed_input_stream_def prune_drop MAX_INPUT_AXES_def
  FIRST_INPUT_STREAM_def pending_writes_def Let_def

abbreviation demo_evs :: "(nat \<times> event) list" where
  "demo_evs \<equiv> [(2, Inbox (Write 5 [10, 11] (Some (1, 2)) 8) (Inr ())),
               (3, Inbox (Write 5 [11, 12] (Some (1, 3)) 9) (Inr ()))]"

abbreviation demo_pre :: "(nat \<times> event) list" where
  "demo_pre \<equiv> [(1, Inbox (TakeLease ''device:a'' 5 5 False 7) (Inr ()))]"

lemmas stream_eval = axis_def seeds_def numbered_def stream_slice_def new_chunk_def queued_by_def refused_def

definition parse_bare :: "string \<Rightarrow> signal option" where
  "parse_bare bare = map_of (map (\<lambda>sg. (drop 3 (signal_str sg), sg)) all_signals) bare"

lemma signal_parse_bare:
  "signal_parse name = parse_bare (case strip_prefix ''SIG'' (to_ascii_uppercase (trim name)) of
     Some r \<Rightarrow> r | None \<Rightarrow> to_ascii_uppercase (trim name))"
  by (simp add: signal_parse_def parse_bare_def all_signals_def Let_def)

lemma parse_bare_iff: "parse_bare x = Some sg \<longleftrightarrow> x = drop 3 (signal_str sg)"
proof -
  have "distinct (map fst (map (\<lambda>sg. (drop 3 (signal_str sg), sg)) all_signals))"
    by (simp add: all_signals_def)
  then have "parse_bare x = Some sg \<longleftrightarrow> (x, sg) \<in> set (map (\<lambda>sg. (drop 3 (signal_str sg), sg)) all_signals)"
    unfolding parse_bare_def by (simp only: map_of_eq_Some_iff)
  moreover have "sg \<in> set all_signals" by (cases sg) (simp_all add: all_signals_def)
  ultimately show ?thesis by auto
qed


section \<open>Properties\<close>



text \<open>
  Input reaches the child in the order it was accepted: as long as no write to the source fails,
  the bytes written to it are a prefix of everything queued (client chunks and the emulator's
  answers), and while the session lives the remainder is exactly what is still in transit.
\<close>

theorem session_input_fifo:
  assumes "list_all (\<lambda>(now, ev). \<not> write_fails ev) evs"
  shows "let s = run_session evs (session_new now b q) in
     \<exists>rest. run_input (session_new now b q) evs = sent s @ rest \<and> (\<not> finished s \<longrightarrow> rest = in_transit s)"
  using run_input_fifo [OF _ assms, of "session_new now b q"] session_ok_new
  by (simp add: Let_def session_ok_def) (simp add: session_new_def in_transit_def)

theorem session_input_fifo_witness:
  "sent (run_session (demo_pre @ demo_evs @ [(4, WriterRecv), (5, WriterDone None)]) (session_new 0 100 4)) = [10, 11] \<and>
   (\<exists>rest. run_input (session_new 0 100 4) (demo_pre @ demo_evs @ [(4, WriterRecv), (5, WriterDone None)])
      = [10, 11] @ rest)"
  using session_input_fifo [of "demo_pre @ demo_evs @ [(4, WriterRecv), (5, WriterDone None)]" 0 100 4]
  by (simp add: write_fails_def session_eval Let_def)

text \<open>
  C34. Every command is answered exactly once: at any moment the response channels of the commands
  received so far are those answered plus those awaiting an answer (a queued write, a joined
  close), and once the session is finished all of them have been answered.
\<close>

theorem session_answers_once:
  "let s = run_session evs (session_new now b q) in
     answered s + awaiting s = mset (issued evs) \<and>
     (finished s \<longrightarrow> answered s = mset (issued evs))"
proof -
  let ?s = "run_session evs (session_new now b q)"
  have "answered ?s + awaiting ?s = answered (session_new now b q) + awaiting (session_new now b q) + mset (issued evs)"
    by (rule run_answers)
  moreover have "answered (session_new now b q) = {#}" "awaiting (session_new now b q) = {#}"
    by (simp_all add: answered_def awaiting_def pending_writes_def session_new_def List.map_filter_simps)
  moreover have "finished ?s \<longrightarrow> awaiting ?s = {#}"
    using run_session_ok [of evs now b q]
    by (auto simp: session_ok_def idle_done_def awaiting_def pending_writes_def List.map_filter_simps)
  ultimately show ?thesis by (auto simp: Let_def)
qed

theorem session_answers_once_witness:
  "let s = run_session (demo_pre @ demo_evs @ [(4, InboxClosed)]) (session_new 0 100 4) in
     finished s \<and> answered s = {#7, 8, 9#}"
proof -
  have "finished (run_session (demo_pre @ demo_evs @ [(4, InboxClosed)]) (session_new 0 100 4))"
    by (simp add: session_eval)
  then show ?thesis
    using session_answers_once [of "demo_pre @ demo_evs @ [(4, InboxClosed)]" 0 100 4]
    by (simp add: Let_def issued_def List.map_filter_simps)
qed



text \<open>
  C11. A close always ends. From the moment a running session accepts a close, whatever else
  happens, the signals it sends from then on are a prefix of the documented ladder of the first
  signal (that signal, \<open>SIGTERM\<close>, \<open>SIGKILL\<close>, without repeats), and once the escalation timer has
  fired three times the session is finished, even if the child never exits.
\<close>

theorem session_close_ends:
  assumes "s = run_session evs0 (session_new now b q)" and "is_running s" and "close_st s = None" and "\<not> finished s"
    and "t = run_session evs (actor_step now1 (Inbox (Close reason sg r) io) s)"
  shows "(\<exists>n. signals t = signals s @ take n (ladder (case sg of Some x \<Rightarrow> x | None \<Rightarrow> SigHup))) \<and>
         (3 \<le> timers evs \<longrightarrow> finished t)"
proof -
  let ?l = "ladder (case sg of Some x \<Rightarrow> x | None \<Rightarrow> SigHup)"
  have ok: "session_ok s" using run_session_ok assms(1) by blast
  let ?s1 = "actor_step now1 (Inbox (Close reason sg r) io) s"
  have "climbing (handle_command (Close reason sg r) io s) (signals s @ ?l) 3"
    using assms(2-4) begin_close_climbs by simp
  then have c1: "climbing ?s1 (signals s @ ?l) 3"
    using climbing_loop_top assms(4) handle_command_queue(5) [of "Close reason sg r" io s] by simp
  have idle: "idle_done ?s1" using ok actor_step_idle by (simp add: session_ok_def del: actor_step.simps)
  have "climbing ?s1 (signals s @ ?l) (3 - timers evs + timers evs)" using c1 climbing_mono by fastforce
  then have c: "climbing t (signals s @ ?l) (3 - timers evs)"
    unfolding assms(5) using idle by (rule climbing_run)
  then have "3 \<le> timers evs \<longrightarrow> finished t" by (auto simp: climbing_def split: if_splits)
  moreover have "\<exists>n. signals t = signals s @ take n ?l"
  proof -
    obtain x where x: "signals t = signals s @ x"
      using signals_grow [of "(now1, Inbox (Close reason sg r) io) # evs" s] assms(5) by auto
    then obtain rest where "x @ rest = ?l" using climbing_prefix [OF c] by auto
    then show ?thesis using x by (metis append_eq_conv_conj)
  qed
  ultimately show ?thesis by blast
qed

theorem session_close_ends_witness:
  "let t = run_session [(2, CloseTimer), (3, CloseTimer), (4, CloseTimer)]
             (actor_step 1 (Inbox (Close Closed None 3) (Inr ())) (session_new 0 100 4)) in
     finished t \<and> (\<exists>n. signals t = take n [SigHup, SigTerm, SigKill])"
proof -
  have "is_running (session_new 0 100 4)" "close_st (session_new 0 100 4) = None" "\<not> finished (session_new 0 100 4)"
    "signals (session_new 0 100 4) = []"
    by (simp_all add: is_running_def session_new_def)
  then show ?thesis
    using session_close_ends [of "session_new 0 100 4" "[]" 0 100 4 _
        "[(2, CloseTimer), (3, CloseTimer), (4, CloseTimer)]" 1 Closed None 3 "Inr ()"]
    by (simp add: timers_def is_timer_def ladder_def Let_def)
qed

text \<open>
  A reaped child is not signalled on request: once the child has exited, no step but the
  firing of an escalation timer armed by an earlier close sends a signal, so neither a signal
  command nor a new close can reach a process group whose leader is gone.
\<close>

theorem session_no_signal_after_exit:
  assumes "exiting s" and "\<not> is_timer ev"
  shows "signals (actor_step now ev s) = signals s \<and> exiting (actor_step now ev s)"
  using assms
  by (cases ev; (cases "finished s")?)
    (auto simp: is_timer_def handle_signals session_defs try_send_def Let_def is_running_def
      split: option.splits list.splits prod.splits)

theorem session_no_signal_after_exit_witness:
  "signals (actor_step 5 (Inbox (Signal SigInt 4) (Inr ())) ((session_new 0 100 4)\<lparr>exiting := True\<rparr>)) = []"
  using session_no_signal_after_exit [of "(session_new 0 100 4)\<lparr>exiting := True\<rparr>" "Inbox (Signal SigInt 4) (Inr ())" 5]
  by (simp add: is_timer_def session_new_def)

text \<open>
  The reaper and the resume deadline agree. For a session that is not being closed and whose
  clock has not run backwards, the reaper takes it exactly when it is unattached and its resume
  deadline has passed, with the reason its state calls for; attached, its deadline is a full TTL
  ahead, so a live session's resume credential never lapses before the session can be reaped.
\<close>

theorem session_ttl_agrees:
  assumes "\<not> w_closing w" and "w_ttl_base w \<le> now"
  shows "(reap_reason w now ttl \<noteq> None \<longleftrightarrow> w_attached w = 0 \<and> deadline w now ttl \<le> now) \<and>
         (reap_reason w now ttl \<in> {None, Some (if w_state w = Exited then Exit else TtlExpired)}) \<and>
         (w_attached w > 0 \<longrightarrow> deadline w now ttl = now + ttl)"
  using assms by (cases "w_state w") (auto simp: reap_reason_def deadline_def)

theorem session_ttl_agrees_witness:
  "reap_reason \<lparr>w_attached = 0, w_closing = False, w_state = Running, w_ttl_base = 10\<rparr> 70 60 = Some TtlExpired \<and>
   deadline \<lparr>w_attached = 0, w_closing = False, w_state = Running, w_ttl_base = 10\<rparr> 70 60 \<le> 70"
  using session_ttl_agrees [of "\<lparr>w_attached = 0, w_closing = False, w_state = Running, w_ttl_base = 10\<rparr>" 70 60]
  by (simp add: reap_reason_def)

text \<open>
  Signal names: a caller's name parses to a signal exactly when, trimmed and upper-cased, it is
  that signal's canonical name with or without the \<open>SIG\<close> prefix, and every canonical name parses
  back to its signal.
\<close>

theorem signal_parse_exact:
  "(signal_parse name = Some sg \<longleftrightarrow>
      to_ascii_uppercase (trim name) \<in> {signal_str sg, drop 3 (signal_str sg)}) \<and>
   signal_parse (signal_str sg) = Some sg"
proof -
  have sig: "signal_str sg = ''SIG'' @ drop 3 (signal_str sg)" for sg by (cases sg) simp_all
  have bare: "drop 3 (signal_str sg) \<noteq> ''SIG'' @ r" for sg r by (cases sg) simp_all
  have *: "signal_parse n = Some sg \<longleftrightarrow> to_ascii_uppercase (trim n) \<in> {signal_str sg, drop 3 (signal_str sg)}" for n
  proof (cases "strip_prefix ''SIG'' (to_ascii_uppercase (trim n))")
    case None
    then have "to_ascii_uppercase (trim n) \<noteq> signal_str sg"
      unfolding strip_prefix_None by (subst sig) blast
    then show ?thesis by (simp add: signal_parse_bare None parse_bare_iff)
  next
    case (Some y)
    then have u: "to_ascii_uppercase (trim n) = ''SIG'' @ y" by (simp only: strip_prefix_Some)
    have "to_ascii_uppercase (trim n) = signal_str sg \<longleftrightarrow> y = drop 3 (signal_str sg)"
      unfolding u by (subst sig) (simp only: same_append_eq)
    moreover have "to_ascii_uppercase (trim n) \<noteq> drop 3 (signal_str sg)" unfolding u using bare by metis
    ultimately show ?thesis by (simp add: signal_parse_bare Some parse_bare_iff)
  qed
  have "to_ascii_uppercase (trim (signal_str sg)) = signal_str sg" 
    by (cases sg; simp add: to_ascii_uppercase_def trim_def ascii_ws_def)
  then show ?thesis using * by simp
qed

text \<open>
  A signal does reach the group of a reaped child on one path: an escalation armed before the
  child exited still fires while its output drains.
\<close>

theorem escalation_signals_after_exit:
  "let s = run_session [(1, Inbox (Close Closed None 7) (Inr ())),
                        (2, ChildExit \<lparr>exit_code = Some 0, exit_signal = None\<rparr>)] (session_new 0 100 4)
   in exiting s \<and> signals s = [SigHup] \<and> signals (actor_step 3 CloseTimer s) = [SigHup, SigTerm]"
  by (simp add: session_eval)

text \<open>
  An accepted write on a stream whose axis was pruned brings the axis back without pruning, so the
  map exceeds its bound.
\<close>

theorem accepted_write_exceeds_axes:
  "let s = run_session ((1, Inbox (TakeLease ''device:a'' 5 5 False 1) (Inr ())) #
                        map (\<lambda>i. (1, SeedStream i None)) [2..<34]) (session_new 0 100 4)
   in length (applied_input (smeta s)) = MAX_INPUT_AXES \<and>
      length (applied_input (smeta (actor_step 2 (Inbox (Write 5 [9] (Some (1, 1)) 8) (Inr ())) s)))
        = MAX_INPUT_AXES + 1"
  by (simp add: session_eval upt_rec)

end
