(* ===== verification/Resume_Registry.thy ===== *)
theory Resume_Registry
  imports Session_Actor
begin

text \<open>
  The host's store of resume credentials (\<open>qsh-core/src/broker/resume.rs\<close>): per session the hash
  of the current token, the peer it is bound to, an expiry and the input axis of its lineage.
  The hash function \<open>H\<close> (blake3) is a parameter, and so is the token each mint draws from the
  system's random source. The comparisons are constant-time in the source; here they are equality.
\<close>

section \<open>Data and operations\<close>

type_synonym session_id = string

definition RESUME_TOKEN_LEN :: nat where
  "RESUME_TOKEN_LEN = 32"

definition PEER_FINGERPRINT_LEN :: nat where
  "PEER_FINGERPRINT_LEN = 32"

definition resume_token_from_slice :: "bytes \<Rightarrow> bytes option" where
  "resume_token_from_slice b = (if length b = RESUME_TOKEN_LEN then Some b else None)"

datatype resume_denied = ResumeDenied

record credential =
  hash :: bytes
  peer :: bytes
  expires_at :: nat
  input_stream :: nat

type_synonym registry = "session_id \<rightharpoonup> credential"

definition issue :: "(bytes \<Rightarrow> bytes) \<Rightarrow> nat \<Rightarrow> bytes \<Rightarrow> session_id \<Rightarrow> bytes \<Rightarrow> nat \<Rightarrow> registry \<Rightarrow> registry" where
  "issue H now tok i p ttl R =
     R(i \<mapsto> \<lparr>hash = H tok, peer = p, expires_at = now + ttl, input_stream = FIRST_INPUT_STREAM\<rparr>)"

text \<open>The four facts \<open>verify\<close> folds into one choice; a missing entry compares against zeros.\<close>

definition redeemable :: "(bytes \<Rightarrow> bytes) \<Rightarrow> nat \<Rightarrow> credential option \<Rightarrow> bytes \<Rightarrow> bytes \<Rightarrow> bool" where
  "redeemable H now e presented p =
     (let present = (e \<noteq> None);
          stored_hash = (case e of Some c \<Rightarrow> hash c | None \<Rightarrow> replicate 32 0);
          stored_peer = (case e of Some c \<Rightarrow> peer c | None \<Rightarrow> replicate PEER_FINGERPRINT_LEN 0);
          fresh = (case e of Some c \<Rightarrow> expires_at c > now | None \<Rightarrow> False)
      in present \<and> H presented = stored_hash \<and> stored_peer = p \<and> fresh)"

definition verify :: "(bytes \<Rightarrow> bytes) \<Rightarrow> nat \<Rightarrow> session_id \<Rightarrow> bytes \<Rightarrow> bytes \<Rightarrow> registry \<Rightarrow> resume_denied + nat" where
  "verify H now i presented p R =
     (if redeemable H now (R i) presented p
      then Inr (case R i of Some c \<Rightarrow> input_stream c | None \<Rightarrow> FIRST_INPUT_STREAM)
      else Inl ResumeDenied)"

definition rotate ::
  "(bytes \<Rightarrow> bytes) \<Rightarrow> nat \<Rightarrow> bytes \<Rightarrow> session_id \<Rightarrow> bytes \<Rightarrow> bytes \<Rightarrow> nat \<Rightarrow> nat \<Rightarrow> registry
     \<Rightarrow> registry \<times> (resume_denied + bytes)" where
  "rotate H now tok i presented p ttl stream R =
     (if redeemable H now (R i) presented p
      then (R(i \<mapsto> \<lparr>hash = H tok, peer = p, expires_at = now + ttl, input_stream = stream\<rparr>), Inr tok)
      else (R, Inl ResumeDenied))"

definition forget :: "session_id \<Rightarrow> registry \<Rightarrow> registry" where
  "forget i R = R(i := None)"

definition purge_expired :: "nat \<Rightarrow> registry \<Rightarrow> registry" where
  "purge_expired now R =
     (\<lambda>i. case R i of Some c \<Rightarrow> (if expires_at c > now then Some c else None) | None \<Rightarrow> None)"

definition sync_expiry :: "nat \<Rightarrow> (session_id \<rightharpoonup> nat) \<Rightarrow> registry \<Rightarrow> registry" where
  "sync_expiry now deadlines R =
     (\<lambda>i. case R i of
            None \<Rightarrow> None
          | Some c \<Rightarrow>
              (case deadlines i of
                 Some d \<Rightarrow> Some (c\<lparr>expires_at := d\<rparr>)
               | None \<Rightarrow> (if expires_at c > now then Some c else None)))"

section \<open>Lemmas\<close>

lemma redeemable_iff:
  "redeemable H now e presented p \<longleftrightarrow>
     (\<exists>c. e = Some c \<and> hash c = H presented \<and> peer c = p \<and> now < expires_at c)"
  by (cases e) (auto simp: redeemable_def Let_def)

text \<open>Attempts to redeem one session's credential, one after another as the lock serialises them.\<close>

record attempt =
  a_now :: nat
  a_peer :: bytes
  a_fresh :: bytes
  a_ttl :: nat
  a_stream :: nat

fun redeem_all :: "(bytes \<Rightarrow> bytes) \<Rightarrow> session_id \<Rightarrow> bytes \<Rightarrow> attempt list \<Rightarrow> registry \<Rightarrow> registry \<times> (resume_denied + bytes) list" where
  "redeem_all H i t [] R = (R, [])"
| "redeem_all H i t (a # as) R =
     (let (R', x) = rotate H (a_now a) (a_fresh a) i t (a_peer a) (a_ttl a) (a_stream a) R;
          (R'', xs) = redeem_all H i t as R'
      in (R'', x # xs))"

lemma spent_token:
  assumes "\<forall>c. R i = Some c \<longrightarrow> hash c \<noteq> H t" "\<forall>a \<in> set as. H (a_fresh a) \<noteq> H t"
  shows "redeem_all H i t as R = (R, replicate (length as) (Inl ResumeDenied))"
  using assms by (induction as) (auto simp: rotate_def redeemable_iff)

lemma redeem_wins_once:
  assumes "\<forall>a \<in> set as. H (a_fresh a) \<noteq> H t"
  shows "length (filter (\<lambda>x. \<not> isl x) (snd (redeem_all H i t as R))) \<le> 1"
  using assms
proof (induction as arbitrary: R)
  case (Cons a as)
  show ?case
  proof (cases "redeemable H (a_now a) (R i) t (a_peer a)")
    case True
    let ?R = "R(i \<mapsto> \<lparr>hash = H (a_fresh a), peer = a_peer a, expires_at = a_now a + a_ttl a, input_stream = a_stream a\<rparr>)"
    have "redeem_all H i t as ?R = (?R, replicate (length as) (Inl ResumeDenied))"
      using Cons.prems by (intro spent_token) auto
    then show ?thesis using True by (simp add: rotate_def)
  next
    case False
    then show ?thesis using Cons by (simp add: rotate_def case_prod_unfold Let_def)
  qed
qed simp

section \<open>Properties\<close>

text \<open>
  C9. A token redeems once. Whatever peers present the same token for a session, in whatever order
  and at whatever times, at most one of the redemptions succeeds, provided no freshly minted token
  has the hash of the presented one; and a redemption succeeds exactly when \<open>verify\<close> accepts.
\<close>

theorem resume_token_single_use:
  assumes "\<forall>a \<in> set as. H (a_fresh a) \<noteq> H t"
  shows "length (filter (\<lambda>x. \<not> isl x) (snd (redeem_all H i t as R))) \<le> 1 \<and>
    (isl (snd (rotate H now tok i t p ttl st R)) \<longleftrightarrow> isl (verify H now i t p R))"
  using redeem_wins_once [OF assms] by (simp add: rotate_def verify_def)

theorem resume_token_single_use_witness:
  "length (filter (\<lambda>x. \<not> isl x) (snd (redeem_all (\<lambda>b. b) ''s'' [1]
     [\<lparr>a_now = 5, a_peer = [7], a_fresh = [2], a_ttl = 9, a_stream = 2\<rparr>,
      \<lparr>a_now = 6, a_peer = [7], a_fresh = [3], a_ttl = 9, a_stream = 3\<rparr>]
     (issue (\<lambda>b. b) 0 [1] ''s'' [7] 60 Map.empty)))) \<le> 1 \<and>
   snd (rotate (\<lambda>b. b) 5 [2] ''s'' [1] [7] 9 2 (issue (\<lambda>b. b) 0 [1] ''s'' [7] 60 Map.empty)) = Inr [2]"
  using resume_token_single_use [of "[\<lparr>a_now = 5, a_peer = [7], a_fresh = [2], a_ttl = 9, a_stream = 2\<rparr>,
      \<lparr>a_now = 6, a_peer = [7], a_fresh = [3], a_ttl = 9, a_stream = 3\<rparr>]" "\<lambda>b. b" "[1]" "''s''"
      "issue (\<lambda>b. b) 0 [1] ''s'' [7] 60 Map.empty"]
  by (simp add: issue_def rotate_def redeemable_def)

text \<open>
  What a credential is worth. \<open>verify\<close> accepts exactly a token whose hash is stored for that
  session, from the peer it is bound to, before its expiry, and hands back the lineage's axis;
  the token a rotation mints is then good for that peer for its time to live and names the new
  axis; rotation touches no other session; and a forgotten session accepts nothing.
\<close>

theorem resume_verify_exact:
  "(verify H now i t p R = Inr st \<longleftrightarrow>
      (\<exists>c. R i = Some c \<and> hash c = H t \<and> peer c = p \<and> now < expires_at c \<and> input_stream c = st)) \<and>
   (rotate H now tok i t p ttl st' R = (R', Inr tok') \<longrightarrow>
      tok' = tok \<and> (\<forall>now'. verify H now' i tok p R' = (if now' < now + ttl then Inr st' else Inl ResumeDenied)) \<and>
      (\<forall>j. j \<noteq> i \<longrightarrow> R' j = R j)) \<and>
   verify H now i t p (forget i R) = Inl ResumeDenied"
proof -
  have 1: "verify H now i t p R = Inr st \<longleftrightarrow>
      (\<exists>c. R i = Some c \<and> hash c = H t \<and> peer c = p \<and> now < expires_at c \<and> input_stream c = st)"
    by (auto simp: verify_def redeemable_iff)
  have 2: "rotate H now tok i t p ttl st' R = (R', Inr tok') \<longrightarrow>
      tok' = tok \<and> (\<forall>now'. verify H now' i tok p R' = (if now' < now + ttl then Inr st' else Inl ResumeDenied)) \<and>
      (\<forall>j. j \<noteq> i \<longrightarrow> R' j = R j)"
    by (auto simp: rotate_def verify_def redeemable_iff split: if_splits)
  show ?thesis using 1 2 by (simp add: forget_def verify_def redeemable_def)
qed

theorem resume_verify_exact_witness:
  "verify (\<lambda>b. b) 20 ''s'' [2] [7]
     (fst (rotate (\<lambda>b. b) 5 [2] ''s'' [1] [7] 30 4 (issue (\<lambda>b. b) 0 [1] ''s'' [7] 60 Map.empty))) = Inr 4"
proof -
  have "rotate (\<lambda>b. b) 5 [2] ''s'' [1] [7] 30 4 (issue (\<lambda>b. b) 0 [1] ''s'' [7] 60 Map.empty)
    = ([''s'' \<mapsto> \<lparr>hash = [2], peer = [7], expires_at = 35, input_stream = 4\<rparr>], Inr [2])"
    by (simp add: rotate_def issue_def redeemable_def)
  then show ?thesis
    using resume_verify_exact [of "\<lambda>b. b" 5 "''s''" "[1]" "[7]" "issue (\<lambda>b. b) 0 [1] ''s'' [7] 60 Map.empty" 0 "[2]" 30 4]
    by simp
qed

text \<open>
  The reaper's re-anchoring: a credential of a session that is still registered is good
  exactly until the session's own deadline, whatever expiry it was issued with; one whose session
  is gone keeps its own expiry and is dropped once that has passed; and re-anchoring never makes
  a token, a peer or an axis valid that was not stored.
\<close>

theorem resume_sync_expiry_exact:
  "verify H t i tok p (sync_expiry now deadlines R) =
     (case R i of
        None \<Rightarrow> Inl ResumeDenied
      | Some c \<Rightarrow>
          if hash c = H tok \<and> peer c = p \<and>
             (case deadlines i of Some d \<Rightarrow> t < d | None \<Rightarrow> t < expires_at c \<and> now < expires_at c)
          then Inr (input_stream c) else Inl ResumeDenied)"
  by (auto simp: verify_def redeemable_iff sync_expiry_def split: option.splits if_splits)

end
