(* ===== verification/Audit_Window.thy ===== *)
theory Audit_Window
  imports Qsh_Prelude
begin

text \<open>
  The aggregation of rejection audit lines shared by the admission gate and the quotas
  (\<open>WindowState\<close> of \<open>qsh-core/src/admission.rs\<close>): the first rejection of a window is reported at
  once, later ones of the same window are counted, and the count becomes a summary line when the
  window closes. The counter is a saturating \<open>u32\<close>. Instants and durations are in nanoseconds.
\<close>

section \<open>One window\<close>

definition SECOND :: nat where
  "SECOND = 1000000000"

definition AUDIT_AGGREGATION_WINDOW :: nat where
  "AUDIT_AGGREGATION_WINDOW = 10 * SECOND"

definition U32_MAX :: nat where
  "U32_MAX = 2 ^ 32 - 1"

record window_state =
  start :: "nat option"
  suppressed :: nat

definition window_default :: window_state where
  "window_default = \<lparr>start = None, suppressed = 0\<rparr>"

definition window_is_fresh :: "nat \<Rightarrow> window_state \<Rightarrow> bool" where
  "window_is_fresh now w =
     (case start w of None \<Rightarrow> True | Some t \<Rightarrow> now - t \<ge> AUDIT_AGGREGATION_WINDOW)"

text \<open>
  A rejection in a window: the new window, the count of a summary line for the window it closes,
  and whether the rejection gets a line of its own.
\<close>

definition note_rejection :: "nat \<Rightarrow> window_state \<Rightarrow> window_state \<times> nat option \<times> bool" where
  "note_rejection now w =
     (if \<not> window_is_fresh now w
      then (w\<lparr>suppressed := min (suppressed w + 1) U32_MAX\<rparr>, None, False)
      else (\<lparr>start = Some now, suppressed = 0\<rparr>,
            if suppressed w > 0 then Some (suppressed w) else None, True))"

definition close_window :: "nat \<Rightarrow> window_state \<Rightarrow> window_state \<times> nat option" where
  "close_window now w =
     (case start w of
        None \<Rightarrow> (w, None)
      | Some t \<Rightarrow>
          (if now - t < AUDIT_AGGREGATION_WINDOW then (w, None)
           else (\<lparr>start = None, suppressed = 0\<rparr>,
                 if suppressed w > 0 then Some (suppressed w) else None)))"

definition count_of :: "nat option \<Rightarrow> nat" where
  "count_of c = (case c of Some n \<Rightarrow> n | None \<Rightarrow> 0)"

lemma note_rejection_accounts:
  assumes "note_rejection now w = (w', c, line)" "suppressed w < U32_MAX"
  shows "suppressed w' + count_of c + (if line then 1 else 0) = suppressed w + 1"
  using assms by (auto simp: note_rejection_def count_of_def split: if_splits)

lemma close_window_accounts:
  "close_window now w = (w', c) \<Longrightarrow> suppressed w' + count_of c = suppressed w"
  by (auto simp: close_window_def count_of_def split: option.splits if_splits)

section \<open>The interface: an audited rejecter\<close>

text \<open>
  A component that audits its rejections through windows: each rejection raises what its lines
  and its pending counts stand for by exactly one, and a flush moves pending counts into lines.
  Then no rejection is ever lost from the audit and none is counted twice.
\<close>

datatype 'r audit_event = Reject 'r | Flush nat

fun audit_step :: "('r \<Rightarrow> 's \<Rightarrow> 's \<times> 'a list) \<Rightarrow> (nat \<Rightarrow> 's \<Rightarrow> 's \<times> 'a list) \<Rightarrow> 'r audit_event \<Rightarrow> 's \<Rightarrow> 's \<times> 'a list"
where
  "audit_step rej fl (Reject r) s = rej r s"
| "audit_step rej fl (Flush now) s = fl now s"

fun audit_run :: "('r \<Rightarrow> 's \<Rightarrow> 's \<times> 'a list) \<Rightarrow> (nat \<Rightarrow> 's \<Rightarrow> 's \<times> 'a list) \<Rightarrow> 'r audit_event list \<Rightarrow> 's \<Rightarrow> 's \<times> 'a list"
where
  "audit_run rej fl [] s = (s, [])"
| "audit_run rej fl (e # es) s =
     (let (s1, as) = audit_step rej fl e s; (s2, bs) = audit_run rej fl es s1 in (s2, as @ bs))"

fun is_reject :: "'r audit_event \<Rightarrow> bool" where
  "is_reject (Reject _) = True"
| "is_reject (Flush _) = False"

locale audited =
  fixes reject :: "'r \<Rightarrow> 's \<Rightarrow> 's \<times> 'a list"
    and flush :: "nat \<Rightarrow> 's \<Rightarrow> 's \<times> 'a list"
    and pending :: "'s \<Rightarrow> nat"
    and weight :: "'a \<Rightarrow> nat"
    and valid :: "'s \<Rightarrow> bool"
  assumes reject_accounts: "valid s \<Longrightarrow> pending s < U32_MAX \<Longrightarrow> reject r s = (s', as) \<Longrightarrow>
      pending s' + sum_list (map weight as) = pending s + 1"
    and flush_accounts: "valid s \<Longrightarrow> flush now s = (s', as) \<Longrightarrow>
      pending s' + sum_list (map weight as) = pending s"
    and reject_valid: "valid s \<Longrightarrow> valid (fst (reject r s))"
    and flush_valid: "valid s \<Longrightarrow> valid (fst (flush now s))"
begin

lemma run_accounts:
  assumes "valid s" "audit_run reject flush es s = (s', as)"
    "pending s + length (filter is_reject es) \<le> U32_MAX"
  shows "pending s' + sum_list (map weight as) = pending s + length (filter is_reject es) \<and> valid s'"
  using assms
proof (induction es arbitrary: s as)
  case (Cons e es)
  obtain s1 as1 where st: "audit_step reject flush e s = (s1, as1)" by fastforce
  obtain as2 where r: "audit_run reject flush es s1 = (s', as2)" and as: "as = as1 @ as2"
    using Cons.prems(2) st by (auto split: prod.splits)
  have one: "pending s1 + sum_list (map weight as1) = pending s + (if is_reject e then 1 else 0) \<and> valid s1"
  proof (cases e)
    case (Reject r)
    then show ?thesis
      using reject_accounts [of s r s1 as1] reject_valid [of s r] Cons.prems st by simp
  next
    case (Flush now)
    then show ?thesis
      using flush_accounts [of s now s1 as1] flush_valid [of s now] Cons.prems st by simp
  qed
  then have "pending s1 + length (filter is_reject es) \<le> U32_MAX" using Cons.prems(3) by (auto split: if_splits)
  then show ?case using Cons.IH [OF _ r] one as by (auto split: if_splits)
qed simp

end

end
