(* ===== verification/Quota_Limits.thy ===== *)
theory Quota_Limits
  imports Audit_Window "HOL-Library.AList"
begin

text \<open>
  Resource quotas (\<open>qsh-core/src/quota.rs\<close> and its submodules \<open>quota/*.rs\<close>): reservations of exec
  children, tunnel streams, remote forwards, connections, pairing connections and file transfers,
  each a permit that releases its count when it is dropped, and the per-principal audit windows
  of the rejections. \<open>permits\<close> lists the permits that have been handed out and not dropped yet.
\<close>

section \<open>Counting maps\<close>

text \<open>A \<open>HashMap<_, usize>\<close> without zero entries: \<open>entry(k).or_insert(0) += 1\<close> and the permits' drop.\<close>

definition bump :: "'k \<Rightarrow> ('k \<times> nat) list \<Rightarrow> ('k \<times> nat) list" where
  "bump k m = AList.update k ((case map_of m k of Some n \<Rightarrow> n | None \<Rightarrow> 0) + 1) m"

definition unbump :: "'k \<Rightarrow> ('k \<times> nat) list \<Rightarrow> ('k \<times> nat) list" where
  "unbump k m =
     (case map_of m k of
        Some n \<Rightarrow> (if n - 1 = 0 then AList.delete k m else AList.update k (n - 1) m)
      | None \<Rightarrow> m)"

definition in_use :: "'k \<Rightarrow> ('k \<times> nat) list \<Rightarrow> nat" where
  "in_use k m = (case map_of m k of Some n \<Rightarrow> n | None \<Rightarrow> 0)"

definition in_use_total :: "('k \<times> nat) list \<Rightarrow> nat" where
  "in_use_total m = sum_list (map snd m)"

text \<open>\<open>tracks m ks\<close>: the map counts exactly the live reservations, whose keys are \<open>ks\<close>.\<close>

definition tracks :: "('k \<times> nat) list \<Rightarrow> 'k list \<Rightarrow> bool" where
  "tracks m ks \<longleftrightarrow> distinct (map fst m) \<and>
     (\<forall>k. map_of m k = (if count_list ks k = 0 then None else Some (count_list ks k)))"

lemma tracks_in_use: "tracks m ks \<Longrightarrow> in_use k m = count_list ks k"
  by (simp add: tracks_def in_use_def)

lemma tracks_Nil [simp]: "tracks [] []"
  by (simp add: tracks_def)

lemma tracks_bump: "tracks m ks \<Longrightarrow> tracks (bump k m) (k # ks)"
  by (auto simp: tracks_def bump_def AList.distinct_update AList.update_conv')

lemma count_list_remove1: "count_list (remove1 k ks) j = count_list ks j - (if j = k then 1 else 0)"
proof (induction ks)
  case (Cons x xs)
  then show ?case using count_notin [of k xs] by (cases "k \<in> set xs") (auto simp: count_list_0_iff)
qed simp

lemma tracks_unbump: "tracks m ks \<Longrightarrow> k \<in> set ks \<Longrightarrow> tracks (unbump k m) (remove1 k ks)"
  by (auto simp: tracks_def unbump_def AList.distinct_update AList.distinct_delete AList.update_conv'
      AList.delete_conv' count_list_remove1 count_list_0_iff)

lemma tracks_total:
  assumes "tracks m ks"
  shows "in_use_total m = length ks"
proof -
  have d: "distinct (map fst m)" using assms by (simp add: tracks_def)
  have keys: "fst ` set m = set ks"
  proof -
    have "k \<in> fst ` set m \<longleftrightarrow> map_of m k \<noteq> None" for k by (simp add: map_of_eq_None_iff)
    then show ?thesis using assms by (auto simp: tracks_def count_list_0_iff split: if_splits)
  qed
  have "in_use_total m = (\<Sum>p \<in> set m. snd p)"
    unfolding in_use_total_def using d by (simp add: sum_list_distinct_conv_sum_set distinct_map)
  also have "\<dots> = (\<Sum>p \<in> set m. count_list ks (fst p))"
  proof (rule sum.cong)
    fix p assume "p \<in> set m"
    then have "map_of m (fst p) = Some (snd p)" using d by simp
    then show "snd p = count_list ks (fst p)" using assms by (auto simp: tracks_def split: if_splits)
  qed simp
  also have "\<dots> = (\<Sum>k \<in> fst ` set m. count_list ks k)"
    using d by (simp add: sum.reindex distinct_map)
  also have "\<dots> = length ks" using keys by (simp add: sum_count_set)
  finally show ?thesis .
qed

section \<open>Kinds and limits\<close>

datatype quota_kind =
    Sessions | SessionsPerPrincipal | ExecPerPrincipal | ExecHost
  | TunnelStreamsPerPrincipal | TunnelStreamsPerForward | RemoteForwardsPerPrincipal
  | ConnectionsPerPrincipal | Connections | PairingConnections
  | FilesPerPrincipal | FilesHost

definition all_quota_kinds :: "quota_kind list" where
  "all_quota_kinds =
     [Sessions, SessionsPerPrincipal, ExecPerPrincipal, ExecHost, TunnelStreamsPerPrincipal,
      TunnelStreamsPerForward, RemoteForwardsPerPrincipal, ConnectionsPerPrincipal, Connections,
      PairingConnections, FilesPerPrincipal, FilesHost]"

fun category :: "quota_kind \<Rightarrow> string" where
  "category Sessions = ''quota_sessions_host''"
| "category SessionsPerPrincipal = ''quota_sessions_principal''"
| "category ExecPerPrincipal = ''quota_exec_principal''"
| "category ExecHost = ''quota_exec_host''"
| "category TunnelStreamsPerPrincipal = ''quota_tunnels_principal''"
| "category TunnelStreamsPerForward = ''quota_tunnels_forward''"
| "category RemoteForwardsPerPrincipal = ''quota_remote_forwards_principal''"
| "category ConnectionsPerPrincipal = ''quota_connections_principal''"
| "category Connections = ''quota_connections_host''"
| "category PairingConnections = ''quota_connections_pairing''"
| "category FilesPerPrincipal = ''quota_files_principal''"
| "category FilesHost = ''quota_files_host''"

fun quota_action :: "quota_kind \<Rightarrow> string" where
  "quota_action Sessions = ''session.open''"
| "quota_action SessionsPerPrincipal = ''session.open''"
| "quota_action ExecPerPrincipal = ''exec.run''"
| "quota_action ExecHost = ''exec.run''"
| "quota_action TunnelStreamsPerPrincipal = ''forward.local''"
| "quota_action TunnelStreamsPerForward = ''forward.local''"
| "quota_action RemoteForwardsPerPrincipal = ''forward.remote''"
| "quota_action ConnectionsPerPrincipal = ''connect''"
| "quota_action Connections = ''connect''"
| "quota_action PairingConnections = ''connect''"
| "quota_action FilesPerPrincipal = ''file.transfer''"
| "quota_action FilesHost = ''file.transfer''"

fun wire_message :: "quota_kind \<Rightarrow> string" where
  "wire_message Sessions = ''session quota exceeded''"
| "wire_message SessionsPerPrincipal = ''session quota exceeded''"
| "wire_message ExecPerPrincipal = ''exec quota exceeded''"
| "wire_message ExecHost = ''exec quota exceeded''"
| "wire_message TunnelStreamsPerPrincipal = ''tunnel quota exceeded''"
| "wire_message TunnelStreamsPerForward = ''tunnel quota exceeded''"
| "wire_message RemoteForwardsPerPrincipal = ''remote forward quota exceeded''"
| "wire_message ConnectionsPerPrincipal = ''connection quota exceeded''"
| "wire_message Connections = ''connection quota exceeded''"
| "wire_message PairingConnections = ''connection quota exceeded''"
| "wire_message FilesPerPrincipal = ''file transfer quota exceeded''"
| "wire_message FilesHost = ''file transfer quota exceeded''"

definition MAX_CONCURRENT_PAIRING_CONNECTIONS :: nat where
  "MAX_CONCURRENT_PAIRING_CONNECTIONS = 8"

definition MAX_AUDIT_WINDOW_PRINCIPALS :: nat where
  "MAX_AUDIT_WINDOW_PRINCIPALS = 64"

record quota_limits =
  max_sessions :: nat
  max_sessions_per_principal :: nat
  max_exec_per_principal :: nat
  max_exec :: nat
  max_tunnel_streams_per_principal :: nat
  max_tunnel_streams_per_forward :: nat
  max_remote_forwards_per_principal :: nat
  max_connections_per_principal :: nat
  max_connections :: nat
  max_file_transfers_per_principal :: nat
  max_file_transfers :: nat

section \<open>State\<close>

record quota_state =
  exec_in_use :: "(string \<times> nat) list"
  tunnel_streams_per_principal :: "(string \<times> nat) list"
  tunnel_streams_per_forward :: "((string \<times> string) \<times> nat) list"
  remote_forwards_per_principal :: "(string \<times> nat) list"
  connections_per_principal :: "(string \<times> nat) list"
  pairing_connections_in_use :: nat
  files_in_use :: "(string \<times> nat) list"

record category_windows =
  per_principal :: "(string \<times> window_state) list"
  overflow :: window_state

record connection_counters =
  connection_reserved :: nat
  connection_refused :: nat
  pairing_reserved :: nat
  pairing_refused :: nat

datatype permit =
    ExecPermit string
  | TunnelStreamPermit string string
  | RemoteForwardPermit string
  | ConnectionPermit string
  | PairingConnectionPermit
  | FilePermit string

record quotas =
  limits :: quota_limits
  qstate :: quota_state
  windows :: "quota_kind \<Rightarrow> category_windows"
  counters :: connection_counters
  rejections :: "quota_kind \<Rightarrow> nat"
  permits :: "permit list"

definition quotas_new :: "quota_limits \<Rightarrow> quotas" where
  "quotas_new lim =
     \<lparr>limits = lim,
      qstate = \<lparr>exec_in_use = [], tunnel_streams_per_principal = [], tunnel_streams_per_forward = [],
        remote_forwards_per_principal = [], connections_per_principal = [],
        pairing_connections_in_use = 0, files_in_use = []\<rparr>,
      windows = (\<lambda>_. \<lparr>per_principal = [], overflow = window_default\<rparr>),
      counters = \<lparr>connection_reserved = 0, connection_refused = 0, pairing_reserved = 0, pairing_refused = 0\<rparr>,
      rejections = (\<lambda>_. 0), permits = []\<rparr>"

section \<open>Reservations\<close>

text \<open>Handing out a permit: the new state and counters, with the permit outstanding.\<close>

definition grant :: "permit \<Rightarrow> quota_state \<Rightarrow> quotas \<Rightarrow> quotas \<times> (quota_kind + permit)" where
  "grant p st q = (q\<lparr>qstate := st, permits := p # permits q\<rparr>, Inr p)"

definition reserve_exec :: "string \<Rightarrow> quotas \<Rightarrow> quotas \<times> (quota_kind + permit)" where
  "reserve_exec p q =
     (let st = qstate q
      in if in_use_total (exec_in_use st) \<ge> max_exec (limits q) then (q, Inl ExecHost)
         else if in_use p (exec_in_use st) \<ge> max_exec_per_principal (limits q) then (q, Inl ExecPerPrincipal)
         else grant (ExecPermit p) (st\<lparr>exec_in_use := bump p (exec_in_use st)\<rparr>) q)"

definition reserve_tunnel_stream :: "string \<Rightarrow> string \<Rightarrow> quotas \<Rightarrow> quotas \<times> (quota_kind + permit)" where
  "reserve_tunnel_stream p res q =
     (let st = qstate q
      in if in_use p (tunnel_streams_per_principal st) \<ge> max_tunnel_streams_per_principal (limits q)
         then (q, Inl TunnelStreamsPerPrincipal)
         else if in_use (p, res) (tunnel_streams_per_forward st) \<ge> max_tunnel_streams_per_forward (limits q)
         then (q, Inl TunnelStreamsPerForward)
         else grant (TunnelStreamPermit p res)
                (st\<lparr>tunnel_streams_per_principal := bump p (tunnel_streams_per_principal st),
                    tunnel_streams_per_forward := bump (p, res) (tunnel_streams_per_forward st)\<rparr>) q)"

definition reserve_remote_forward :: "string \<Rightarrow> quotas \<Rightarrow> quotas \<times> (quota_kind + permit)" where
  "reserve_remote_forward p q =
     (let st = qstate q
      in if in_use p (remote_forwards_per_principal st) \<ge> max_remote_forwards_per_principal (limits q)
         then (q, Inl RemoteForwardsPerPrincipal)
         else grant (RemoteForwardPermit p)
                (st\<lparr>remote_forwards_per_principal := bump p (remote_forwards_per_principal st)\<rparr>) q)"

definition refuse_connection :: "quotas \<Rightarrow> quotas" where
  "refuse_connection q =
     q\<lparr>counters := (counters q)\<lparr>connection_refused := connection_refused (counters q) + 1\<rparr>\<rparr>"

definition reserve_connection :: "string \<Rightarrow> quotas \<Rightarrow> quotas \<times> (quota_kind + permit)" where
  "reserve_connection p q =
     (let st = qstate q
      in if in_use_total (connections_per_principal st) \<ge> max_connections (limits q)
         then (refuse_connection q, Inl Connections)
         else if in_use p (connections_per_principal st) \<ge> max_connections_per_principal (limits q)
         then (refuse_connection q, Inl ConnectionsPerPrincipal)
         else grant (ConnectionPermit p)
                (st\<lparr>connections_per_principal := bump p (connections_per_principal st)\<rparr>)
                (q\<lparr>counters := (counters q)\<lparr>connection_reserved := connection_reserved (counters q) + 1\<rparr>\<rparr>))"

definition reserve_pairing_connection :: "quotas \<Rightarrow> quotas \<times> (quota_kind + permit)" where
  "reserve_pairing_connection q =
     (let st = qstate q
      in if pairing_connections_in_use st \<ge> MAX_CONCURRENT_PAIRING_CONNECTIONS
         then (q\<lparr>counters := (counters q)\<lparr>pairing_refused := pairing_refused (counters q) + 1\<rparr>\<rparr>,
               Inl PairingConnections)
         else grant PairingConnectionPermit
                (st\<lparr>pairing_connections_in_use := pairing_connections_in_use st + 1\<rparr>)
                (q\<lparr>counters := (counters q)\<lparr>pairing_reserved := pairing_reserved (counters q) + 1\<rparr>\<rparr>))"

definition reserve_file_transfer :: "string \<Rightarrow> quotas \<Rightarrow> quotas \<times> (quota_kind + permit)" where
  "reserve_file_transfer p q =
     (let st = qstate q
      in if in_use_total (files_in_use st) \<ge> max_file_transfers (limits q) then (q, Inl FilesHost)
         else if in_use p (files_in_use st) \<ge> max_file_transfers_per_principal (limits q)
         then (q, Inl FilesPerPrincipal)
         else grant (FilePermit p) (st\<lparr>files_in_use := bump p (files_in_use st)\<rparr>) q)"

text \<open>The \<open>Drop\<close> of each permit.\<close>

definition release_exec :: "string \<Rightarrow> quota_state \<Rightarrow> quota_state" where
  "release_exec p st = st\<lparr>exec_in_use := unbump p (exec_in_use st)\<rparr>"

definition release_tunnel_stream :: "string \<Rightarrow> string \<Rightarrow> quota_state \<Rightarrow> quota_state" where
  "release_tunnel_stream p res st =
     st\<lparr>tunnel_streams_per_principal := unbump p (tunnel_streams_per_principal st),
        tunnel_streams_per_forward := unbump (p, res) (tunnel_streams_per_forward st)\<rparr>"

definition release_remote_forward :: "string \<Rightarrow> quota_state \<Rightarrow> quota_state" where
  "release_remote_forward p st =
     st\<lparr>remote_forwards_per_principal := unbump p (remote_forwards_per_principal st)\<rparr>"

definition release_connection_slot :: "string \<Rightarrow> quota_state \<Rightarrow> quota_state" where
  "release_connection_slot p st =
     st\<lparr>connections_per_principal := unbump p (connections_per_principal st)\<rparr>"

definition release_pairing :: "quota_state \<Rightarrow> quota_state" where
  "release_pairing st = st\<lparr>pairing_connections_in_use := pairing_connections_in_use st - 1\<rparr>"

definition release_file :: "string \<Rightarrow> quota_state \<Rightarrow> quota_state" where
  "release_file p st = st\<lparr>files_in_use := unbump p (files_in_use st)\<rparr>"

fun release :: "permit \<Rightarrow> quota_state \<Rightarrow> quota_state" where
  "release (ExecPermit p) st = release_exec p st"
| "release (TunnelStreamPermit p res) st = release_tunnel_stream p res st"
| "release (RemoteForwardPermit p) st = release_remote_forward p st"
| "release (ConnectionPermit p) st = release_connection_slot p st"
| "release PairingConnectionPermit st = release_pairing st"
| "release (FilePermit p) st = release_file p st"

definition drop_permit :: "permit \<Rightarrow> quotas \<Rightarrow> quotas" where
  "drop_permit p q = q\<lparr>qstate := release p (qstate q), permits := remove1 p (permits q)\<rparr>"

section \<open>Rejection audit\<close>

datatype quota_record =
    QuotaRejected quota_kind string string "nat option" string
  | QuotaRejectedSummary quota_kind string nat

text \<open>Which window of the category a rejection lands in, and whether it is the overflow one.\<close>

definition window_of :: "string \<Rightarrow> category_windows \<Rightarrow> window_state \<times> bool" where
  "window_of p cat =
     (if p = ''-'' then (overflow cat, True)
      else case map_of (per_principal cat) p of
             Some w \<Rightarrow> (w, False)
           | None \<Rightarrow>
               (if length (per_principal cat) \<ge> MAX_AUDIT_WINDOW_PRINCIPALS then (overflow cat, True)
                else (window_default, False)))"

definition put_window :: "string \<Rightarrow> bool \<Rightarrow> window_state \<Rightarrow> category_windows \<Rightarrow> category_windows" where
  "put_window p is_overflow w cat =
     (if is_overflow then cat\<lparr>overflow := w\<rparr>
      else cat\<lparr>per_principal := AList.update p w (per_principal cat)\<rparr>)"

definition record_rejection ::
  "quota_kind \<Rightarrow> string \<Rightarrow> string \<Rightarrow> nat \<Rightarrow> nat option \<Rightarrow> string \<Rightarrow> quotas \<Rightarrow> quotas \<times> quota_record list" where
  "record_rejection kind p peer_addr now request_id auth_path q =
     (let q1 = q\<lparr>rejections := (rejections q)(kind := rejections q kind + 1)\<rparr>;
          (w, is_overflow) = window_of p (windows q kind);
          (w', prior, line) = note_rejection now w;
          q2 = q1\<lparr>windows := (windows q)(kind := put_window p is_overflow w' (windows q kind))\<rparr>;
          summary = (case prior of
                       Some n \<Rightarrow> [QuotaRejectedSummary kind (if is_overflow then ''-'' else p) n]
                     | None \<Rightarrow> [])
      in (q2, if line then summary @ [QuotaRejected kind p peer_addr request_id auth_path] else []))"

definition retain_window :: "nat \<Rightarrow> window_state \<Rightarrow> bool" where
  "retain_window now w =
     (case start w of None \<Rightarrow> False | Some t \<Rightarrow> now - t < AUDIT_AGGREGATION_WINDOW)"

definition flush_category :: "nat \<Rightarrow> quota_kind \<Rightarrow> category_windows \<Rightarrow> category_windows \<times> quota_record list" where
  "flush_category now kind cat =
     (let closed = filter (\<lambda>(p, w). \<not> retain_window now w \<and> start w \<noteq> None) (per_principal cat);
          (ov, ov_suppressed) = close_window now (overflow cat)
      in (\<lparr>per_principal = filter (\<lambda>(p, w). retain_window now w) (per_principal cat), overflow = ov\<rparr>,
          map (\<lambda>(p, w). QuotaRejectedSummary kind p (suppressed w)) (filter (\<lambda>(p, w). suppressed w > 0) closed)
          @ (case ov_suppressed of Some n \<Rightarrow> [QuotaRejectedSummary kind ''-'' n] | None \<Rightarrow> [])))"

definition flush_expired :: "nat \<Rightarrow> quotas \<Rightarrow> quotas \<times> quota_record list" where
  "flush_expired now q =
     (q\<lparr>windows := (\<lambda>k. fst (flush_category now k (windows q k)))\<rparr>,
      concat (map (\<lambda>k. snd (flush_category now k (windows q k))) all_quota_kinds))"

end
