(* ===== verification/Session_Broker.thy ===== *)
theory Session_Broker
  imports Resume_Registry Quota_Limits "HOL-Library.Multiset" "HOL-Library.List_Lexorder" "HOL-Library.Char_ord"
begin

text \<open>
  The session broker (\<open>qsh-core/src/broker/mod.rs\<close>): the registry of sessions, the reservation of
  session slots against the quota, opening, closing, draining and reaping, and the resume
  credentials beside them. A step is one critical section of the source (what runs under the
  registry lock), one step of a session's actor, or one call on the credential store; the parts of
  an asynchronous operation that run without the lock are separate steps, so a run interleaves
  concurrent openers, closers and the reaper in any order. Outstanding \<open>SessionSlot\<close> values are
  the list \<open>slots\<close>: each is released exactly once, by its redemption or by its drop.

  What the source factory answers and the identifier a new session draws are arguments.
\<close>

section \<open>Data\<close>

datatype broker_error =
    NotFound
  | InvalidArgument string
  | ConflictError
  | NotWriterError
  | NotRunningError
  | BackpressureError
  | Unsupported string
  | Spawn string
  | IoError string
  | GoneError
  | Draining
  | QuotaExceeded quota_kind

definition CLOSED_RETENTION :: nat where
  "CLOSED_RETENTION = 60"

definition REAPER_TICK :: nat where
  "REAPER_TICK = 30"

record broker_config =
  replay_bytes :: nat
  resume_ttl :: nat
  close_grace :: nat
  session_limits :: quota_limits

record in_flight_state =
  total :: nat
  by_opener :: "(string \<times> nat) list"

record session_handle =
  h_opener :: string
  h_created_at :: string
  h_session :: session

record session_info =
  i_session_id :: session_id
  i_state :: session_state
  i_writer :: "string option"
  i_created_at :: string
  i_last_sequence :: nat
  i_opener :: string

record live_counts =
  live :: nat
  detached :: nat

text \<open>What one reaper pass decided under the lock and has not carried out yet.\<close>

record reap_plan =
  plan_expired :: "session_id list"
  plan_deadlines :: "session_id \<rightharpoonup> nat"
  plan_doomed :: "(session_id \<times> close_reason) list"

record broker =
  sessions :: "(session_id \<times> session_handle) list"
  draining :: bool
  config :: broker_config
  resume :: registry
  in_flight :: in_flight_state
  slots :: "string list"
  plans :: "reap_plan list"

definition broker_new :: "broker_config \<Rightarrow> broker" where
  "broker_new cfg =
     \<lparr>sessions = [], draining = False, config = cfg, resume = Map.empty,
      in_flight = \<lparr>total = 0, by_opener = []\<rparr>, slots = [], plans = []\<rparr>"

section \<open>Reading the registry\<close>

definition is_live :: "session_handle \<Rightarrow> bool" where
  "is_live h \<longleftrightarrow> closed_at (smeta (h_session h)) = None"

definition live_handles :: "broker \<Rightarrow> (session_id \<times> session_handle) list" where
  "live_handles b = filter (\<lambda>(i, h). is_live h) (sessions b)"

definition session_count :: "broker \<Rightarrow> nat" where
  "session_count b = length (live_handles b)"

definition broker_get :: "session_id \<Rightarrow> broker \<Rightarrow> broker_error + session_handle" where
  "broker_get i b =
     (case map_of (sessions b) i of
        Some h \<Rightarrow> (if is_live h then Inr h else Inl NotFound)
      | None \<Rightarrow> Inl NotFound)"

definition get_for_read :: "session_id \<Rightarrow> broker \<Rightarrow> broker_error + session_handle" where
  "get_for_read i b = (case map_of (sessions b) i of Some h \<Rightarrow> Inr h | None \<Rightarrow> Inl NotFound)"

definition handle_info :: "session_id \<Rightarrow> session_handle \<Rightarrow> session_info" where
  "handle_info i h =
     (let s = h_session h
      in \<lparr>i_session_id = i, i_state = m_state (smeta s), i_writer = map_option principal (lease (smeta s)),
          i_created_at = h_created_at h, i_last_sequence = end_off (sring s), i_opener = h_opener h\<rparr>)"

definition broker_list :: "broker \<Rightarrow> session_info list" where
  "broker_list b = sort_key i_session_id (map (\<lambda>(i, h). handle_info i h) (live_handles b))"

definition broker_live_counts :: "broker \<Rightarrow> live_counts" where
  "broker_live_counts b =
     \<lparr>live = length (live_handles b),
      detached = length (filter (\<lambda>(i, h). attached (smeta (h_session h)) = 0) (live_handles b))\<rparr>"

section \<open>Slots\<close>

definition count_opener :: "string \<Rightarrow> broker \<Rightarrow> nat" where
  "count_opener o' b = length (filter (\<lambda>(i, h). h_opener h = o') (live_handles b))"

definition reserve_slot :: "string \<Rightarrow> broker \<Rightarrow> broker \<times> (quota_kind + unit)" where
  "reserve_slot opener b =
     (let fl = in_flight b;
          tot = total fl + length (live_handles b);
          for_opener = in_use opener (by_opener fl) + count_opener opener b
      in if tot \<ge> max_sessions (session_limits (config b)) then (b, Inl Sessions)
         else if for_opener \<ge> max_sessions_per_principal (session_limits (config b))
         then (b, Inl SessionsPerPrincipal)
         else (b\<lparr>in_flight := \<lparr>total = total fl + 1, by_opener = bump opener (by_opener fl)\<rparr>,
                 slots := opener # slots b\<rparr>, Inr ()))"

definition release_slot :: "string \<Rightarrow> broker \<Rightarrow> broker" where
  "release_slot opener b =
     (let fl = in_flight b
      in b\<lparr>in_flight := \<lparr>total = total fl - 1, by_opener = unbump opener (by_opener fl)\<rparr>,
           slots := remove1 opener (slots b)\<rparr>)"

definition spawn_error :: "bool \<Rightarrow> string \<Rightarrow> broker_error" where
  "spawn_error unsupported msg = (if unsupported then Unsupported msg else Spawn msg)"

section \<open>Opening\<close>

text \<open>
  \<open>open_as_screen\<close> is two critical sections: the reservation, and the tail that redeems it.
  Between them the factory runs; \<open>spawn\<close> is what it and \<open>SessionActor::create\<close> answer.
\<close>

definition reg_insert :: "session_id \<Rightarrow> session_handle \<Rightarrow> (session_id \<times> session_handle) list \<Rightarrow>
    (session_id \<times> session_handle) list" where
  "reg_insert i h r = (i, h) # filter (\<lambda>(j, _). j \<noteq> i) r"

definition open_with_opener_reserved ::
  "nat \<Rightarrow> session_id \<Rightarrow> string \<Rightarrow> string \<Rightarrow> (bool \<times> string) option \<Rightarrow> broker \<Rightarrow> broker \<times> (broker_error + session_id)" where
  "open_with_opener_reserved now i created opener spawn b =
     (if draining b then (release_slot opener b, Inl Draining)
      else case spawn of
             Some (unsupported, msg) \<Rightarrow> (release_slot opener b, Inl (spawn_error unsupported msg))
           | None \<Rightarrow>
               (let h = \<lparr>h_opener = opener, h_created_at = created,
                         h_session = session_new now (replay_bytes (config b)) 64\<rparr>
                in (release_slot opener (b\<lparr>sessions := reg_insert i h (sessions b)\<rparr>), Inr i)))"

section \<open>Closing, draining and reaping\<close>

definition on_session :: "session_id \<Rightarrow> (session \<Rightarrow> session) \<Rightarrow> broker \<Rightarrow> broker" where
  "on_session i f b =
     b\<lparr>sessions := map (\<lambda>(j, h). if j = i then (j, h\<lparr>h_session := f (h_session h)\<rparr>) else (j, h)) (sessions b)\<rparr>"

text \<open>\<open>close\<close>: the lookup and the command to the actor; its tail, once answered, forgets the credential.\<close>

definition broker_close :: "nat \<Rightarrow> session_id \<Rightarrow> close_reason \<Rightarrow> signal option \<Rightarrow> resp \<Rightarrow> broker \<Rightarrow> broker \<times> (broker_error + unit)" where
  "broker_close now i reason sg r b =
     (case broker_get i b of
        Inl e \<Rightarrow> (b, Inl e)
      | Inr _ \<Rightarrow> (on_session i (actor_step now (Inbox (Close reason sg r) (Inr ()))) b, Inr ()))"

definition close_tail :: "session_id \<Rightarrow> broker \<Rightarrow> broker" where
  "close_tail i b = b\<lparr>resume := forget i (resume b)\<rparr>"

text \<open>
  \<open>close_all\<close>: draining is set and the snapshot taken in one critical section; then every session
  of the snapshot is sent a close, in any order with other steps (\<open>BSession\<close>), with its tail.
\<close>

definition close_all :: "broker \<Rightarrow> broker \<times> session_id list" where
  "close_all b = (b\<lparr>draining := True\<rparr>, map fst (live_handles b))"

definition broker_release_connection :: "nat \<Rightarrow> connection_id \<Rightarrow> resp \<Rightarrow> broker \<Rightarrow> broker" where
  "broker_release_connection now c r b =
     fold (\<lambda>i. on_session i (actor_step now (Inbox (ReleaseConnection c r) (Inr ())))) (map fst (live_handles b)) b"

definition reap_deadlines :: "nat \<Rightarrow> broker \<Rightarrow> session_id \<rightharpoonup> nat" where
  "reap_deadlines now b =
     map_of (map (\<lambda>(i, h). (i, deadline (ttl_window_of (smeta (h_session h))) now (resume_ttl (config b)))) (sessions b))"

definition doomed :: "nat \<Rightarrow> broker \<Rightarrow> (session_id \<times> close_reason) list" where
  "doomed now b =
     List.map_filter (\<lambda>(i, h). map_option (Pair i)
       (reap_reason (ttl_window_of (smeta (h_session h))) now (resume_ttl (config b)))) (sessions b)"

definition is_expired :: "nat \<Rightarrow> session_handle \<Rightarrow> bool" where
  "is_expired now h =
     (case closed_at (smeta (h_session h)) of Some at \<Rightarrow> now - at \<ge> CLOSED_RETENTION | None \<Rightarrow> False)"

text \<open>
  \<open>reap_once\<close> in its two parts: what it decides under the registry lock, and what it does with the
  decision after releasing the lock. The closes it then starts are \<open>BSession\<close> steps with their tails.
\<close>

definition reap_decide :: "nat \<Rightarrow> broker \<Rightarrow> reap_plan" where
  "reap_decide now b =
     \<lparr>plan_expired = map fst (filter (\<lambda>(i, h). is_expired now h) (sessions b)),
      plan_deadlines = reap_deadlines now b,
      plan_doomed = doomed now b\<rparr>"

definition reap_apply :: "nat \<Rightarrow> reap_plan \<Rightarrow> broker \<Rightarrow> broker" where
  "reap_apply now p b =
     b\<lparr>sessions := filter (\<lambda>(i, h). i \<notin> set (plan_expired p)) (sessions b),
       resume := sync_expiry now (plan_deadlines p) (resume b)\<rparr>"

definition reap_once :: "nat \<Rightarrow> broker \<Rightarrow> broker \<times> (session_id \<times> close_reason) list" where
  "reap_once now b = (let p = reap_decide now b in (reap_apply now p b, plan_doomed p))"

section \<open>The session backend\<close>

text \<open>
  \<open>SessionBackend for Broker\<close>: each call looks the session up and then acts on its handle. A command
  is sent to the actor, whose answer arrives on the response channel and is mapped by
  \<open>map_write_error\<close>; the other calls answer at once.
\<close>

fun map_write_error :: "write_error \<Rightarrow> broker_error" where
  "map_write_error NotWriter = NotWriterError"
| "map_write_error NotRunning = NotRunningError"
| "map_write_error Backpressure = BackpressureError"
| "map_write_error (InputGap at applied) =
     InvalidArgument (''input starts at '' @ nat_string at @ '' but only '' @ nat_string applied
       @ '' bytes were applied'')"
| "map_write_error (Io e) = IoError e"
| "map_write_error Gone = GoneError"

definition backend_command :: "nat \<Rightarrow> session_id \<Rightarrow> command \<Rightarrow> string + unit \<Rightarrow> broker \<Rightarrow> broker \<times> (broker_error + unit)" where
  "backend_command now i cmd io b =
     (case broker_get i b of
        Inl e \<Rightarrow> (b, Inl e)
      | Inr _ \<Rightarrow> (on_session i (actor_step now (Inbox cmd io)) b, Inr ()))"

definition backend_write :: "nat \<Rightarrow> session_id \<Rightarrow> connection_id \<Rightarrow> bytes \<Rightarrow> resp \<Rightarrow> broker \<Rightarrow> broker \<times> (broker_error + unit)" where
  "backend_write now i c data r = backend_command now i (Write c data None r) (Inr ())"

definition backend_write_at ::
  "nat \<Rightarrow> session_id \<Rightarrow> connection_id \<Rightarrow> nat \<Rightarrow> bytes \<Rightarrow> nat \<Rightarrow> resp \<Rightarrow> broker \<Rightarrow> broker \<times> (broker_error + unit)" where
  "backend_write_at now i c stream data seq r = backend_command now i (Write c data (Some (stream, seq)) r) (Inr ())"

definition backend_resize ::
  "nat \<Rightarrow> session_id \<Rightarrow> nat \<Rightarrow> nat \<Rightarrow> string + unit \<Rightarrow> resp \<Rightarrow> broker \<Rightarrow> broker \<times> (broker_error + unit)" where
  "backend_resize now i cols rows io r = backend_command now i (Resize cols rows r) io"

definition backend_resize_at ::
  "nat \<Rightarrow> session_id \<Rightarrow> connection_id \<Rightarrow> nat \<Rightarrow> nat \<Rightarrow> string + unit \<Rightarrow> resp \<Rightarrow> broker \<Rightarrow> broker \<times> (broker_error + unit)" where
  "backend_resize_at now i c cols rows io r = backend_command now i (ResizeAt c cols rows r) io"

definition backend_take_lease_owned ::
  "nat \<Rightarrow> session_id \<Rightarrow> string \<Rightarrow> connection_id \<Rightarrow> connection_id \<Rightarrow> bool \<Rightarrow> resp \<Rightarrow> broker \<Rightarrow> broker \<times> (broker_error + unit)" where
  "backend_take_lease_owned now i p c phys no_steal r =
     backend_command now i (TakeLease p c phys no_steal r) (Inr ())"

definition backend_take_lease ::
  "nat \<Rightarrow> session_id \<Rightarrow> string \<Rightarrow> connection_id \<Rightarrow> bool \<Rightarrow> resp \<Rightarrow> broker \<Rightarrow> broker \<times> (broker_error + unit)" where
  "backend_take_lease now i p c no_steal r = backend_command now i (TakeLease p c c no_steal r) (Inr ())"

definition backend_get :: "session_id \<Rightarrow> broker \<Rightarrow> broker_error + session_info" where
  "backend_get i b = map_sum id (handle_info i) (broker_get i b)"

definition backend_lease_conflict :: "session_id \<Rightarrow> string \<Rightarrow> broker \<Rightarrow> bool" where
  "backend_lease_conflict i p b =
     (case broker_get i b of Inr h \<Rightarrow> lease_conflict (lease (smeta (h_session h))) p | Inl _ \<Rightarrow> False)"

definition backend_attach :: "nat \<Rightarrow> session_id \<Rightarrow> broker \<Rightarrow> broker \<times> (broker_error + unit)" where
  "backend_attach now i b =
     (case broker_get i b of
        Inl e \<Rightarrow> (b, Inl e)
      | Inr _ \<Rightarrow> (on_session i (actor_step now AttachGuard) b, Inr ()))"

definition backend_reserve_input_stream :: "nat \<Rightarrow> session_id \<Rightarrow> broker \<Rightarrow> broker \<times> (broker_error + nat)" where
  "backend_reserve_input_stream now i b =
     (case broker_get i b of
        Inl e \<Rightarrow> (b, Inl e)
      | Inr h \<Rightarrow> (on_session i (actor_step now ReserveStream) b, Inr (snd (reserve_input_stream (smeta (h_session h))))))"

definition backend_seed_input_stream ::
  "nat \<Rightarrow> session_id \<Rightarrow> nat \<Rightarrow> nat option \<Rightarrow> broker \<Rightarrow> broker \<times> (broker_error + nat)" where
  "backend_seed_input_stream now i stream forked b =
     (case broker_get i b of
        Inl e \<Rightarrow> (b, Inl e)
      | Inr h \<Rightarrow> (on_session i (actor_step now (SeedStream stream forked)) b,
                  Inr (snd (seed_input_stream (smeta (h_session h)) stream forked))))"

text \<open>
  \<open>SessionHandle::pull\<close>: read, and while the answer is empty and the deadline has not passed wait for
  the next append or the deadline. The argument lists what each iteration sees: the ring and the
  clock at every wake-up, and the ring at the deadline.
\<close>

fun pull_loop :: "cursor \<Rightarrow> nat \<Rightarrow> nat \<Rightarrow> nat \<Rightarrow> (replay_ring \<times> nat) list \<Rightarrow> replay_ring \<Rightarrow> read_error + read_out" where
  "pull_loop c max_bytes wait until [] r_end = ring_read r_end c max_bytes"
| "pull_loop c max_bytes wait until ((r, now) # rs) r_end =
     (case ring_read r c max_bytes of
        Inl e \<Rightarrow> Inl e
      | Inr res \<Rightarrow>
          (if events res \<noteq> [] \<or> wait = 0 then Inr res
           else if now \<ge> until then Inr res
           else pull_loop c max_bytes wait until rs r_end))"

text \<open>\<open>None\<close> is the arithmetic panic a read of a malformed ring would raise.\<close>

fun map_read_error :: "read_error \<Rightarrow> broker_error option" where
  "map_read_error (CursorBeyondEnd offset end') =
     Some (InvalidArgument (''cursor offset '' @ nat_string offset @ '' is beyond the end of the stream (''
       @ nat_string end' @ '')''))"
| "map_read_error SubtractOverflow = None"

definition backend_pull ::
  "session_id \<Rightarrow> cursor \<Rightarrow> nat \<Rightarrow> nat \<Rightarrow> nat \<Rightarrow> (replay_ring \<times> nat) list \<Rightarrow> replay_ring \<Rightarrow> broker
     \<Rightarrow> (broker_error + read_out) option" where
  "backend_pull i c max_bytes wait now seen r_end b =
     (case get_for_read i b of
        Inl e \<Rightarrow> Some (Inl e)
      | Inr h \<Rightarrow>
          (case pull_loop c max_bytes wait (now + wait) ((sring (h_session h), now) # seen) r_end of
             Inl e \<Rightarrow> map_option Inl (map_read_error e)
           | Inr res \<Rightarrow> Some (Inr res)))"

definition issue_resume :: "(bytes \<Rightarrow> bytes) \<Rightarrow> nat \<Rightarrow> bytes \<Rightarrow> session_id \<Rightarrow> bytes \<Rightarrow> broker \<Rightarrow> broker" where
  "issue_resume H now tok i p b = b\<lparr>resume := issue H now tok i p (resume_ttl (config b)) (resume b)\<rparr>"

definition verify_resume :: "(bytes \<Rightarrow> bytes) \<Rightarrow> nat \<Rightarrow> session_id \<Rightarrow> bytes \<Rightarrow> bytes \<Rightarrow> broker \<Rightarrow> resume_denied + nat" where
  "verify_resume H now i presented p b = verify H now i presented p (resume b)"

definition rotate_resume ::
  "(bytes \<Rightarrow> bytes) \<Rightarrow> nat \<Rightarrow> bytes \<Rightarrow> session_id \<Rightarrow> bytes \<Rightarrow> bytes \<Rightarrow> nat \<Rightarrow> broker \<Rightarrow> broker \<times> (resume_denied + bytes)" where
  "rotate_resume H now tok i presented p st b =
     (let (R, x) = rotate H now tok i presented p (resume_ttl (config b)) st (resume b)
      in (b\<lparr>resume := R\<rparr>, x))"

section \<open>Steps\<close>

datatype broker_event =
    BReserve string
  | BDropSlot string
  | BOpen session_id string string "(bool \<times> string) option"
  | BSession session_id event
  | BCommand session_id command "string + unit"
  | BClose session_id close_reason "signal option" resp
  | BCloseTail session_id
  | BCloseAll
  | BReleaseConnection connection_id resp
  | BReapDecide
  | BReapApply
  | BIssue bytes session_id bytes
  | BRotate bytes session_id bytes bytes nat

text \<open>\<open>H\<close> hashes tokens. A slot is dropped or redeemed only while it is outstanding.\<close>

fun broker_step :: "(bytes \<Rightarrow> bytes) \<Rightarrow> nat \<Rightarrow> broker_event \<Rightarrow> broker \<Rightarrow> broker" where
  "broker_step H now (BReserve opener) b = fst (reserve_slot opener b)"
| "broker_step H now (BDropSlot opener) b =
     (if opener \<in> set (slots b) then release_slot opener b else b)"
| "broker_step H now (BOpen i created opener spawn) b =
     (if opener \<in> set (slots b) then fst (open_with_opener_reserved now i created opener spawn b) else b)"
| "broker_step H now (BSession i ev) b = on_session i (actor_step now ev) b"
| "broker_step H now (BCommand i cmd io) b = fst (backend_command now i cmd io b)"
| "broker_step H now (BClose i reason sg r) b = fst (broker_close now i reason sg r b)"
| "broker_step H now (BCloseTail i) b = close_tail i b"
| "broker_step H now BCloseAll b = fst (close_all b)"
| "broker_step H now (BReleaseConnection c r) b = broker_release_connection now c r b"
| "broker_step H now BReapDecide b = b\<lparr>plans := plans b @ [reap_decide now b]\<rparr>"
| "broker_step H now BReapApply b =
     (case plans b of [] \<Rightarrow> b | p # ps \<Rightarrow> (reap_apply now p b)\<lparr>plans := ps\<rparr>)"
| "broker_step H now (BIssue tok i p) b = issue_resume H now tok i p b"
| "broker_step H now (BRotate tok i presented p st) b = fst (rotate_resume H now tok i presented p st b)"

definition run_broker :: "(bytes \<Rightarrow> bytes) \<Rightarrow> (nat \<times> broker_event) list \<Rightarrow> broker \<Rightarrow> broker" where
  "run_broker H evs b = fold (\<lambda>(now, ev). broker_step H now ev) evs b"

end
