(* ===== verification/Broker_Guarantees.thy ===== *)
theory Broker_Guarantees
  imports Session_Broker Session_Guarantees Replay_Delivery
begin

text \<open>
  What the session broker guarantees (\<open>qsh-core/src/broker/mod.rs\<close>): the session quota under any
  interleaving, the composition of session actors, the drain, the reaper and the credentials, and
  total reads.
\<close>

section \<open>Handles through steps\<close>

lemma closed_loop_top: "closed_at (smeta s) \<noteq> None \<Longrightarrow> closed_at (smeta (loop_top now s)) \<noteq> None"
  by (auto simp: loop_top_def append_exit_def finalise_def mark_closed_def sess_push_control_def
      set_state_exited_def Let_def split: option.splits)

lemma closed_handle_command: "closed_at (smeta (handle_command cmd io s)) = closed_at (smeta s)"
  by (cases cmd) (auto simp: enqueue_write_def send_input_def try_send_def refuse_axis_def reply_def
      deliver_signal_def set_lease_def sess_push_control_def begin_close_def Let_def
      split: sum.splits option.splits prod.splits take_outcome.splits bool.splits)

lemma closed_stays: "closed_at (smeta s) \<noteq> None \<Longrightarrow> closed_at (smeta (actor_step now ev s)) \<noteq> None"
proof (cases ev)
  case (Inbox cmd io)
  then show "closed_at (smeta s) \<noteq> None \<Longrightarrow> ?thesis"
    using closed_loop_top [of "handle_command cmd io s" now] by (simp add: closed_handle_command)
next
  case EofNotice
  then show "closed_at (smeta s) \<noteq> None \<Longrightarrow> ?thesis"
    using closed_loop_top [of "s\<lparr>output_done := True\<rparr>" now] by simp
next
  case (ChildExit x)
  then show "closed_at (smeta s) \<noteq> None \<Longrightarrow> ?thesis"
    using closed_loop_top [of "s\<lparr>pending_exit := Some x, exiting := True\<rparr>" now] by simp
next
  case CloseTimer
  then show "closed_at (smeta s) \<noteq> None \<Longrightarrow> ?thesis"
    using closed_loop_top [of "escalate s" now] by simp
qed (auto simp: finalise_def mark_closed_def sess_push_control_def try_send_def reply_def attach_guard_def
    drop_guard_def reserve_input_stream_def seed_input_stream_def Let_def
    split: option.splits prod.splits list.splits)

lemma on_session_simps [simp]:
  "draining (on_session i f b) = draining b" "config (on_session i f b) = config b"
  "resume (on_session i f b) = resume b" "in_flight (on_session i f b) = in_flight b"
  "slots (on_session i f b) = slots b" "plans (on_session i f b) = plans b"
  by (simp_all add: on_session_def)

lemma on_session_keys [simp]: "map fst (sessions (on_session i f b)) = map fst (sessions b)"
  by (auto simp: on_session_def)

text \<open>The sessions a step keeps: none is revived, none is renamed, none changes its opener.\<close>

definition descends :: "broker \<Rightarrow> broker \<Rightarrow> bool" where
  "descends b b' \<longleftrightarrow>
     (\<forall>P. length (filter (\<lambda>(i, h). is_live h \<and> P i (h_opener h)) (sessions b'))
        \<le> length (filter (\<lambda>(i, h). is_live h \<and> P i (h_opener h)) (sessions b)))"

lemma descends_refl [simp]: "descends b b"
  by (simp add: descends_def)

lemma descends_trans: "descends a b \<Longrightarrow> descends b c \<Longrightarrow> descends a c"
  unfolding descends_def by (meson le_trans)

lemma descends_sessions: "sessions b' = sessions b \<Longrightarrow> descends b b'"
  by (simp add: descends_def)

lemma length_filter_mono: "(\<And>x. Q x \<Longrightarrow> P x) \<Longrightarrow> length (filter Q xs) \<le> length (filter P xs)"
  by (induction xs) (auto intro: le_SucI)

lemma descends_on_session:
  assumes "\<And>s. closed_at (smeta s) \<noteq> None \<Longrightarrow> closed_at (smeta (f s)) \<noteq> None"
  shows "descends b (on_session i f b)"
proof -
  have "length (filter ((\<lambda>(j, h). is_live h \<and> P j (h_opener h)) \<circ>
      (\<lambda>(j, h). if j = i then (j, h\<lparr>h_session := f (h_session h)\<rparr>) else (j, h))) (sessions b))
    \<le> length (filter (\<lambda>(j, h). is_live h \<and> P j (h_opener h)) (sessions b))" for P
    using assms by (intro length_filter_mono) (fastforce simp: is_live_def split: if_splits prod.splits)
  then show ?thesis by (simp add: descends_def on_session_def filter_map)
qed

lemma descends_step: "descends b (on_session i (actor_step now ev) b)"
  by (rule descends_on_session) (rule closed_stays)

lemma descends_filter: "sessions b' = filter P (sessions b) \<Longrightarrow> descends b b'"
  unfolding descends_def by (auto intro: length_filter_mono)

lemma descends_fold:
  "(\<And>x b. descends b (f x b)) \<Longrightarrow> descends b (fold f xs b)"
  by (induction xs arbitrary: b) (auto intro: descends_trans)

lemma descends_live:
  assumes "descends b b'"
  shows "length (live_handles b') \<le> length (live_handles b)" "count_opener p b' \<le> count_opener p b"
    "fst ` set (live_handles b') \<subseteq> fst ` set (live_handles b)"
proof -
  show "length (live_handles b') \<le> length (live_handles b)"
    using assms unfolding descends_def live_handles_def by (auto dest: spec [of _ "\<lambda>_ _. True"])
  show "count_opener p b' \<le> count_opener p b"
    using assms unfolding descends_def live_handles_def count_opener_def
    by (auto dest: spec [of _ "\<lambda>_ q. q = p"] simp: case_prod_unfold conj_commute)
  show "fst ` set (live_handles b') \<subseteq> fst ` set (live_handles b)"
  proof
    fix i assume i: "i \<in> fst ` set (live_handles b')"
    then have "filter (\<lambda>(j, h). is_live h \<and> j = i) (sessions b') \<noteq> []"
      by (auto simp: live_handles_def filter_empty_conv)
    moreover have "length (filter (\<lambda>(j, h). is_live h \<and> j = i) (sessions b'))
        \<le> length (filter (\<lambda>(j, h). is_live h \<and> j = i) (sessions b))"
      using assms unfolding descends_def by (auto dest: spec [of _ "\<lambda>j _. j = i"])
    ultimately have "filter (\<lambda>(j, h). is_live h \<and> j = i) (sessions b) \<noteq> []" by auto
    then show "i \<in> fst ` set (live_handles b)"
      by (auto simp: live_handles_def filter_empty_conv intro!: rev_image_eqI)
  qed
qed

text \<open>Every step but a redeemed open only thins the registry out and leaves the slots and limits alone.\<close>

fun is_open :: "broker_event \<Rightarrow> bool" where
  "is_open (BOpen _ _ _ _) = True" | "is_open _ = False"

lemma step_descends: "\<not> is_open ev \<or> draining b \<Longrightarrow> descends b (broker_step H now ev b)"
proof (cases ev)
  case (BReleaseConnection c r)
  then show ?thesis
    by (auto simp: broker_release_connection_def intro: descends_fold descends_step)
qed (auto simp: reserve_slot_def release_slot_def backend_command_def broker_close_def close_tail_def
    close_all_def issue_resume_def rotate_resume_def open_with_opener_reserved_def reap_apply_def Let_def
    intro: descends_sessions descends_step descends_filter split: sum.splits prod.splits list.splits)

section \<open>The invariant\<close>

definition slots_ok :: "broker \<Rightarrow> bool" where
  "slots_ok b \<longleftrightarrow> tracks (by_opener (in_flight b)) (slots b) \<and> total (in_flight b) = length (slots b)"

definition cap_ok :: "broker \<Rightarrow> bool" where
  "cap_ok b \<longleftrightarrow>
     length (live_handles b) + length (slots b) \<le> max_sessions (session_limits (config b)) \<and>
     (\<forall>p. count_opener p b + count_list (slots b) p \<le> max_sessions_per_principal (session_limits (config b)))"

text \<open>Each registered session is what its actor made of the events it was given.\<close>

definition is_run :: "broker_config \<Rightarrow> session \<Rightarrow> bool" where
  "is_run cfg s \<longleftrightarrow> (\<exists>t evs. s = run_session evs (session_new t (replay_bytes cfg) 64))"

definition runs_ok :: "broker \<Rightarrow> bool" where
  "runs_ok b \<longleftrightarrow> distinct (map fst (sessions b)) \<and> (\<forall>h \<in> snd ` set (sessions b). is_run (config b) (h_session h))"

definition broker_ok :: "broker_config \<Rightarrow> broker \<Rightarrow> bool" where
  "broker_ok cfg b \<longleftrightarrow> config b = cfg \<and> slots_ok b \<and> cap_ok b \<and> runs_ok b"

lemma fold_keeps: "(\<And>x b. F (f x b) = F b) \<Longrightarrow> F (fold f xs b) = F b"
  by (induction xs arbitrary: b) auto

lemma release_connection_simps [simp]:
  "config (broker_release_connection now c r b) = config b"
  "slots (broker_release_connection now c r b) = slots b"
  "in_flight (broker_release_connection now c r b) = in_flight b"
  "draining (broker_release_connection now c r b) = draining b"
  "resume (broker_release_connection now c r b) = resume b"
  "map fst (sessions (broker_release_connection now c r b)) = map fst (sessions b)"
  unfolding broker_release_connection_def
  by (rule fold_keeps; simp)+

lemma step_config [simp]: "config (broker_step H now ev b) = config b"
  by (cases ev) (auto simp: reserve_slot_def release_slot_def backend_command_def broker_close_def close_tail_def
      close_all_def issue_resume_def rotate_resume_def open_with_opener_reserved_def reap_apply_def Let_def
      split: sum.splits prod.splits list.splits option.splits)

fun on_slots :: "broker_event \<Rightarrow> bool" where
  "on_slots (BReserve _) = True" | "on_slots (BDropSlot _) = True" | "on_slots (BOpen _ _ _ _) = True"
| "on_slots _ = False"

lemma step_slots: "\<not> on_slots ev \<Longrightarrow> slots (broker_step H now ev b) = slots b \<and> in_flight (broker_step H now ev b) = in_flight b"
  by (cases ev) (auto simp: backend_command_def broker_close_def close_tail_def
      close_all_def issue_resume_def rotate_resume_def reap_apply_def Let_def
      split: sum.splits prod.splits list.splits option.splits)

lemma cap_mono:
  assumes "cap_ok b" "config b' = config b"
    "length (live_handles b') + length (slots b') \<le> length (live_handles b) + length (slots b)"
    "\<And>p. count_opener p b' + count_list (slots b') p \<le> count_opener p b + count_list (slots b) p"
  shows "cap_ok b'"
  using assms unfolding cap_ok_def by (metis le_trans)

lemma cap_descends:
  assumes "cap_ok b" "descends b b'" "slots b' = slots b" "config b' = config b"
  shows "cap_ok b'"
  using descends_live(1,2) [OF assms(2)] assms(3) by (intro cap_mono [OF assms(1,4)]) simp_all

lemma slots_release:
  assumes "slots_ok b" "p \<in> set (slots b)"
  shows "slots_ok (release_slot p b)"
  using assms by (auto simp: slots_ok_def release_slot_def Let_def tracks_unbump length_remove1)

lemma release_slot_simps [simp]:
  "sessions (release_slot p b) = sessions b" "config (release_slot p b) = config b"
  "slots (release_slot p b) = remove1 p (slots b)" "resume (release_slot p b) = resume b"
  "draining (release_slot p b) = draining b"
  by (simp_all add: release_slot_def Let_def)

lemma live_release [simp]: "live_handles (release_slot p b) = live_handles b" "count_opener q (release_slot p b) = count_opener q b"
  by (simp_all add: live_handles_def count_opener_def)

lemma cap_release:
  assumes "cap_ok b"
  shows "cap_ok (release_slot p b)"
  by (rule cap_mono [OF assms]) (simp_all add: length_remove1 count_list_remove1)

lemma cap_reserve:
  assumes "slots_ok b" "cap_ok b"
  shows "cap_ok (fst (reserve_slot p b)) \<and> slots_ok (fst (reserve_slot p b))"
  using assms by (auto simp: reserve_slot_def Let_def cap_ok_def slots_ok_def tracks_in_use tracks_bump
      live_handles_def count_opener_def)

lemma live_insert:
  "length (live_handles (b\<lparr>sessions := reg_insert i h (sessions b)\<rparr>)) \<le> Suc (length (live_handles b))"
  "count_opener q (b\<lparr>sessions := reg_insert i h (sessions b)\<rparr>)
     \<le> count_opener q b + (if q = h_opener h then 1 else 0)"
proof -
  have d: "descends b (b\<lparr>sessions := filter (\<lambda>(j, _). j \<noteq> i) (sessions b)\<rparr>)" by (rule descends_filter) simp
  show "length (live_handles (b\<lparr>sessions := reg_insert i h (sessions b)\<rparr>)) \<le> Suc (length (live_handles b))"
    using descends_live(1) [OF d] by (auto simp: live_handles_def reg_insert_def)
  show "count_opener q (b\<lparr>sessions := reg_insert i h (sessions b)\<rparr>)
     \<le> count_opener q b + (if q = h_opener h then 1 else 0)"
    using descends_live(2) [OF d, of q] by (auto simp: count_opener_def live_handles_def reg_insert_def)
qed

lemma cap_open:
  assumes "cap_ok b" "p \<in> set (slots b)" "h_opener h = p"
  shows "cap_ok (release_slot p (b\<lparr>sessions := reg_insert i h (sessions b)\<rparr>))"
proof -
  let ?b = "b\<lparr>sessions := reg_insert i h (sessions b)\<rparr>"
  have "length (slots b) = Suc (length (remove1 p (slots b)))"
    using assms(2) length_pos_if_in_set [OF assms(2)] by (simp add: length_remove1)
  moreover have "count_list (slots b) q = count_list (remove1 p (slots b)) q + (if q = p then 1 else 0)" for q
    using assms(2) count_list_0_iff [of "slots b" p] by (simp add: count_list_remove1)
  moreover note live_insert [where b = b and i = i and h = h]
  ultimately have len: "length (live_handles ?b) + length (remove1 p (slots b)) \<le> length (live_handles b) + length (slots b)"
    and cnt: "\<And>q. count_list (slots b) q = count_list (remove1 p (slots b)) q + (if q = p then 1 else 0)"
    and ops: "\<And>q. count_opener q ?b \<le> count_opener q b + (if q = p then 1 else 0)"
    using assms(3) by simp_all
  have "count_opener q ?b + count_list (remove1 p (slots b)) q \<le> count_opener q b + count_list (slots b) q" for q
    using cnt [of q] ops [of q] by linarith
  then show ?thesis using len by (intro cap_mono [OF assms(1)]) simp_all
qed

lemma open_sessions:
  "sessions (fst (open_with_opener_reserved now i created p spawn b)) =
     (if draining b \<or> spawn \<noteq> None then sessions b
      else reg_insert i \<lparr>h_opener = p, h_created_at = created, h_session = session_new now (replay_bytes (config b)) 64\<rparr>
             (sessions b))"
  by (auto simp: open_with_opener_reserved_def Let_def split: option.split)

lemma open_ok:
  assumes "cap_ok b" "slots_ok b" "p \<in> set (slots b)"
  shows "cap_ok (fst (open_with_opener_reserved now i created p spawn b)) \<and>
    slots_ok (fst (open_with_opener_reserved now i created p spawn b))"
proof (cases "draining b \<or> spawn \<noteq> None")
  case True
  then have "fst (open_with_opener_reserved now i created p spawn b) = release_slot p b"
    by (auto simp: open_with_opener_reserved_def)
  then show ?thesis using cap_release [OF assms(1)] slots_release [OF assms(2,3)] by simp
next
  case False
  let ?h = "\<lparr>h_opener = p, h_created_at = created, h_session = session_new now (replay_bytes (config b)) 64\<rparr>"
  have "slots_ok (b\<lparr>sessions := reg_insert i ?h (sessions b)\<rparr>)" using assms(2) by (simp add: slots_ok_def)
  then show ?thesis
    using False cap_open [OF assms(1,3), of ?h i] slots_release [of "b\<lparr>sessions := reg_insert i ?h (sessions b)\<rparr>" p] assms(3)
    by (simp add: open_with_opener_reserved_def Let_def split: option.split)
qed

lemma step_slots_cap:
  assumes "slots_ok b" "cap_ok b"
  shows "slots_ok (broker_step H now ev b) \<and> cap_ok (broker_step H now ev b)"
proof (cases "on_slots ev")
  case True
  then show ?thesis
    using assms cap_reserve [OF assms] open_ok [OF assms(2,1)] slots_release [OF assms(1)] cap_release [OF assms(2)]
    by (cases ev) simp_all
next
  case False
  then have "\<not> is_open ev" by (cases ev) auto
  then have "descends b (broker_step H now ev b)" by (simp add: step_descends)
  from cap_descends [OF assms(2) this] step_slots [OF False, where H = H and now = now and b = b] assms(1)
  show ?thesis by (simp add: slots_ok_def)
qed

lemma run_snoc: "run_session (evs @ [(now, ev)]) s = actor_step now ev (run_session evs s)"
  by (simp add: run_session_def)

lemma is_run_step: "is_run cfg s \<Longrightarrow> is_run cfg (actor_step now ev s)"
  unfolding is_run_def by (metis run_snoc)

lemma is_run_new: "is_run cfg (session_new t (replay_bytes cfg) 64)"
  unfolding is_run_def by (metis run_session_Nil)

lemma runs_on_session: "runs_ok b \<Longrightarrow> runs_ok (on_session i (actor_step now ev) b)"
  unfolding runs_ok_def on_session_keys
  by (auto simp: on_session_def is_run_step)

lemma runs_fold: "runs_ok b \<Longrightarrow> runs_ok (fold (\<lambda>i. on_session i (actor_step now ev)) is b)"
  by (induction "is" arbitrary: b) (auto intro: runs_on_session)

lemma runs_cong: "sessions b' = sessions b \<Longrightarrow> config b' = config b \<Longrightarrow> runs_ok b' = runs_ok b"
  by (simp add: runs_ok_def)

lemma runs_filter: "runs_ok b \<Longrightarrow> sessions b' = filter P (sessions b) \<Longrightarrow> config b' = config b \<Longrightarrow> runs_ok b'"
  by (auto simp: runs_ok_def distinct_map_filter)

lemma runs_insert:
  "runs_ok b \<Longrightarrow> is_run (config b) (h_session h) \<Longrightarrow> sessions b' = reg_insert i h (sessions b) \<Longrightarrow> config b' = config b \<Longrightarrow> runs_ok b'"
  by (auto simp: runs_ok_def reg_insert_def distinct_map_filter)

lemma step_runs: "runs_ok b \<Longrightarrow> runs_ok (broker_step H now ev b)"
proof (cases ev)
  case (BOpen i created p spawn)
  show "runs_ok b \<Longrightarrow> ?thesis"
  proof (cases "draining b \<or> spawn \<noteq> None \<or> p \<notin> set (slots b)")
    case True
    then show "runs_ok b \<Longrightarrow> ?thesis"
      using runs_cong [of "broker_step H now ev b" b] BOpen step_config [of H now ev b] by (auto simp: open_sessions)
  next
    case False
    then show "runs_ok b \<Longrightarrow> ?thesis"
      using runs_insert [of b "\<lparr>h_opener = p, h_created_at = created,
        h_session = session_new now (replay_bytes (config b)) 64\<rparr>" "broker_step H now ev b" i] BOpen step_config [of H now ev b]
      by (auto simp: open_sessions is_run_new)
  qed
next
  case (BReleaseConnection c r)
  then show "runs_ok b \<Longrightarrow> ?thesis" by (simp add: broker_release_connection_def runs_fold)
next
  case BReapApply
  then show "runs_ok b \<Longrightarrow> ?thesis"
    by (auto simp: reap_apply_def intro: runs_filter split: list.split)
qed (auto simp: reserve_slot_def release_slot_def backend_command_def broker_close_def close_tail_def
    close_all_def issue_resume_def rotate_resume_def Let_def runs_on_session
    intro: runs_on_session iffD2 [OF runs_cong] split: sum.splits prod.splits)

lemma broker_ok_step: "broker_ok cfg b \<Longrightarrow> broker_ok cfg (broker_step H now ev b)"
  unfolding broker_ok_def using step_slots_cap step_runs by simp

interpretation broker_machine: machine "\<lambda>(now, ev). broker_step H now ev" "broker_ok cfg" for H cfg
  by unfold_locales (auto simp: broker_ok_step)

lemma broker_ok_new: "broker_ok cfg (broker_new cfg)"
  by (simp add: broker_ok_def broker_new_def slots_ok_def cap_ok_def runs_ok_def live_handles_def count_opener_def)

lemma broker_run_ok: "broker_ok cfg (run_broker H evs (broker_new cfg))"
  unfolding run_broker_def by (rule broker_machine.run_inv [OF broker_ok_new])

lemma broker_session_run:
  assumes "broker_ok cfg b" "map_of (sessions b) i = Some h"
  shows "is_run cfg (h_session h)"
  using assms map_of_SomeD [OF assms(2)] by (force simp: broker_ok_def runs_ok_def)

text \<open>
  C7. The session quota holds in every run, with any number of concurrent openers, failing spawns,
  closes and reaps interleaved: the live sessions together with the reservations in flight never
  exceed the host-wide cap, nor any opener's share its own cap, and the in-flight counters count
  exactly the reservations that have been neither redeemed nor dropped.
\<close>

theorem broker_session_cap:
  "let b = run_broker H evs (broker_new cfg) in
     session_count b + total (in_flight b) \<le> max_sessions (session_limits cfg) \<and>
     count_opener p b + in_use p (by_opener (in_flight b)) \<le> max_sessions_per_principal (session_limits cfg) \<and>
     total (in_flight b) = length (slots b) \<and> in_use p (by_opener (in_flight b)) = count_list (slots b) p"
  using broker_run_ok [of cfg H evs]
  by (auto simp: broker_ok_def cap_ok_def slots_ok_def Let_def session_count_def tracks_in_use)


section \<open>Draining\<close>

lemma draining_step: "draining b \<Longrightarrow> draining (broker_step H now ev b)"
  by (cases ev) (auto simp: reserve_slot_def backend_command_def broker_close_def close_tail_def
      close_all_def issue_resume_def rotate_resume_def open_with_opener_reserved_def reap_apply_def Let_def
      split: sum.splits prod.splits list.splits)

lemma drained_run:
  assumes "draining b"
  shows "draining (run_broker H evs b) \<and> descends b (run_broker H evs b)"
  using assms unfolding run_broker_def
proof (induction evs arbitrary: b)
  case (Cons x evs)
  obtain now ev where x: "x = (now, ev)" by fastforce
  have "draining (broker_step H now ev b)" "descends b (broker_step H now ev b)"
    using Cons.prems by (simp_all add: draining_step step_descends)
  then show ?case using Cons.IH [of "broker_step H now ev b"] descends_trans by (auto simp: x)
qed simp

text \<open>
  C28. A drain misses no session: from the moment \<open>close_all\<close> took its snapshot, whatever runs
  concurrently, every open is refused and gives its slot back, and every session that is live at
  any later time was in the snapshot.
\<close>

theorem broker_drain_complete:
  "let b1 = fst (close_all b); snapshot = snd (close_all b); b2 = run_broker H evs b1 in
     draining b2 \<and> set (map fst (live_handles b2)) \<subseteq> set snapshot \<and>
     open_with_opener_reserved now i created p spawn b2 = (release_slot p b2, Inl Draining)"
proof -
  have "draining (fst (close_all b))" by (simp add: close_all_def)
  from drained_run [OF this, of H evs] show ?thesis
    using descends_live(3) [of "fst (close_all b)" "run_broker H evs (fst (close_all b))"]
    by (auto simp: Let_def close_all_def open_with_opener_reserved_def live_handles_def)
qed

section \<open>Reaping and credentials\<close>

lemma map_of_filter_keys:
  "distinct (map fst xs) \<Longrightarrow> map_of (filter (\<lambda>(i, h). i \<notin> set (map fst (filter (\<lambda>(i, h). P h) xs))) xs) i
     = (case map_of xs i of Some h \<Rightarrow> (if P h then None else Some h) | None \<Rightarrow> None)"
proof -
  assume d: "distinct (map fst xs)"
  have "map_of (filter (\<lambda>(i, h). i \<notin> K) xs) i = (if i \<in> K then None else map_of xs i)" for K
    by (induction xs) auto
  moreover have "i \<in> set (map fst (filter (\<lambda>(i, h). P h) xs)) \<longleftrightarrow> (\<exists>h. map_of xs i = Some h \<and> P h)"
    using d by force
  ultimately show ?thesis by (auto split: option.split)
qed

lemma in_map_filter: "y \<in> set (List.map_filter f xs) \<longleftrightarrow> (\<exists>x \<in> set xs. f x = Some y)"
  by (induction xs) (auto simp: List.map_filter_simps split: option.splits)

lemma map_of_map_vals: "map_of (map (\<lambda>(i, h). (i, f h)) xs) i = map_option f (map_of xs i)"
  by (induction xs) auto

lemma not_reaped_deadline:
  assumes "reap_reason w now ttl = None" "\<not> w_closing w" "0 < ttl"
  shows "now < deadline w now ttl"
  using assms by (auto simp: reap_reason_def deadline_def split: if_splits)

text \<open>
  C29. A reaper pass after any run: a session leaves the registry exactly when it has been closed for
  the retention time; it is closed by this pass exactly when it is unattached, not closing, and past
  the resume TTL; its credential is re-anchored to its own deadline. So, for a positive TTL, a
  session that is neither closing nor reaped can still be resumed with its credential by its peer.
\<close>

theorem broker_reap_exact:
  assumes "map_of (sessions (run_broker H evs (broker_new cfg))) i = Some h"
  shows "let b = run_broker H evs (broker_new cfg); b' = fst (reap_once now b); w = ttl_window_of (smeta (h_session h)) in
     map_of (sessions b') i = (if is_expired now h then None else Some h) \<and>
     ((i, r) \<in> set (snd (reap_once now b)) \<longleftrightarrow> reap_reason w now (resume_ttl cfg) = Some r) \<and>
     (case resume b i of
        None \<Rightarrow> resume b' i = None
      | Some c \<Rightarrow> resume b' i = Some (c\<lparr>expires_at := deadline w now (resume_ttl cfg)\<rparr>)
          \<and> (resume_ttl cfg > 0 \<and> \<not> closing (smeta (h_session h)) \<and> reap_reason w now (resume_ttl cfg) = None
             \<and> hash c = H' tok \<longrightarrow> verify_resume H' now i tok (peer c) b' = Inr (input_stream c)))"
proof -
  define b where "b = run_broker H evs (broker_new cfg)"
  have cfg: "config b = cfg" and d: "distinct (map fst (sessions b))"
    using broker_run_ok [of cfg H evs] by (simp_all add: broker_ok_def runs_ok_def b_def)
  have h: "map_of (sessions b) i = Some h" using assms by (simp add: b_def)
  let ?w = "ttl_window_of (smeta (h_session h))"
  have m: "(i, x) \<in> set (sessions b) \<longleftrightarrow> x = h" for x using map_of_eq_Some_iff [OF d] h by (metis option.inject)
  have doom: "(i, r) \<in> set (doomed now b) \<longleftrightarrow> reap_reason ?w now (resume_ttl cfg) = Some r"
  proof -
    have "(i, r) \<in> set (doomed now b) \<longleftrightarrow>
        (\<exists>x. (i, x) \<in> set (sessions b) \<and> reap_reason (ttl_window_of (smeta (h_session x))) now (resume_ttl cfg) = Some r)"
      by (force simp: doomed_def cfg in_map_filter)
    then show ?thesis by (simp add: m)
  qed
  have dl: "reap_deadlines now b i = Some (deadline ?w now (resume_ttl cfg))"
    by (simp add: reap_deadlines_def cfg map_of_map_vals h)
  have fresh: "resume_ttl cfg > 0 \<Longrightarrow> \<not> closing (smeta (h_session h)) \<Longrightarrow> reap_reason ?w now (resume_ttl cfg) = None
      \<Longrightarrow> now < deadline ?w now (resume_ttl cfg)"
    by (rule not_reaped_deadline) (simp_all add: ttl_window_of_def)
  show ?thesis
    unfolding b_def [symmetric] Let_def reap_once_def reap_apply_def reap_decide_def
    using fresh map_of_filter_keys [OF d, of "is_expired now" i]
    by (simp add: h doom dl sync_expiry_def verify_resume_def verify_def redeemable_iff split: option.split)
qed

definition demo_config :: broker_config where
  "demo_config = \<lparr>replay_bytes = 100, resume_ttl = 10, close_grace = 5, session_limits =
     \<lparr>max_sessions = 2, max_sessions_per_principal = 1,
      max_exec_per_principal = 1, max_exec = 1, max_tunnel_streams_per_principal = 1,
      max_tunnel_streams_per_forward = 1, max_remote_forwards_per_principal = 1,
      max_connections_per_principal = 1, max_connections = 1, max_file_transfers_per_principal = 1,
      max_file_transfers = 1\<rparr>\<rparr>"

definition demo_open :: "(nat \<times> broker_event) list" where
  "demo_open = [(0, BReserve ''a''), (1, BOpen ''s'' ''t'' ''a'' None)]"

definition demo_handle :: session_handle where
  "demo_handle = \<lparr>h_opener = ''a'', h_created_at = ''t'', h_session = session_new 1 100 64\<rparr>"

lemma demo_registered: "map_of (sessions (run_broker id demo_open (broker_new demo_config))) ''s'' = Some demo_handle"
  by (simp add: run_broker_def demo_open_def broker_new_def reserve_slot_def demo_config_def live_handles_def
      count_opener_def in_use_def open_with_opener_reserved_def reg_insert_def demo_handle_def)

theorem broker_reap_exact_witness:
  "map_of (sessions (fst (reap_once 20 (run_broker id demo_open (broker_new demo_config))))) ''s'' = Some demo_handle \<and>
   (''s'', TtlExpired) \<in> set (snd (reap_once 20 (run_broker id demo_open (broker_new demo_config))))"
  using broker_reap_exact [OF demo_registered, of 20 TtlExpired id "[]"]
  by (simp add: Let_def demo_handle_def session_new_def is_expired_def reap_reason_def ttl_window_of_def demo_config_def)

lemma forgotten_step:
  assumes "resume b i = None" "\<forall>tok p. ev \<noteq> BIssue tok i p"
  shows "resume (broker_step H now ev b) i = None"
  using assms
  by (cases ev) (auto simp: reserve_slot_def backend_command_def broker_close_def close_tail_def
      close_all_def issue_resume_def issue_def rotate_resume_def rotate_def forget_def open_with_opener_reserved_def
      reap_apply_def sync_expiry_def redeemable_iff Let_def
      split: sum.splits prod.splits list.splits option.splits)



section \<open>Reading through the broker\<close>

text \<open>
  A non-waiting pull after any run never panics: an unregistered session is \<open>NotFound\<close>, a cursor
  beyond the end is \<open>InvalidArgument\<close> naming both offsets, and anything else returns what the
  session's ring reads at that cursor, closed sessions within their retention included.
\<close>

theorem broker_pull_total:
  "let b = run_broker H evs (broker_new cfg); res = backend_pull i c m 0 now [] r b in
   (case map_of (sessions b) i of
      None \<Rightarrow> res = Some (Inl NotFound)
    | Some h \<Rightarrow>
        (if after c > end_off (sring (h_session h))
         then res = Some (Inl (InvalidArgument (''cursor offset '' @ nat_string (after c)
            @ '' is beyond the end of the stream ('' @ nat_string (end_off (sring (h_session h))) @ '')'')))
         else \<exists>read. res = Some (Inr read) \<and> ring_read (sring (h_session h)) c m = Inr read))"
proof -
  define b where "b = run_broker H evs (broker_new cfg)"
  have ok: "broker_ok cfg b" by (simp add: b_def broker_run_ok)
  have read: "\<exists>x. ring_read (sring (h_session h)) c m = Inr x"
    if h: "map_of (sessions b) i = Some h" and le: "\<not> after c > end_off (sring (h_session h))" for h
  proof -
    have "session_ok (h_session h)"
      using broker_session_run [OF ok h] run_session_ok by (auto simp: is_run_def)
    then obtain L where "holds (sring (h_session h)) L" by (auto simp: session_ok_def journal_def)
    from ring_read_holds [OF this, of c m] le show ?thesis by auto
  qed
  show ?thesis
    unfolding b_def [symmetric] Let_def backend_pull_def get_for_read_def
    using read by (auto simp: ring_read_def split: option.split)
qed

end
