(* ===== verification/Quota_Guarantees.thy ===== *)
theory Quota_Guarantees
  imports Quota_Limits
begin

text \<open>
  What the quotas guarantee (\<open>qsh-core/src/quota.rs\<close>): the counters count the outstanding permits and
  stay within the limits in every run, refusals are exact, and the audit of the rejections accounts
  for each of them within bounded state.
\<close>

section \<open>Permits and counters\<close>

definition proj :: "('p \<Rightarrow> 'k option) \<Rightarrow> 'p list \<Rightarrow> 'k list" where
  "proj f ps = List.map_filter f ps"

lemma proj_Cons [simp]: "proj f (p # ps) = (case f p of Some k \<Rightarrow> k # proj f ps | None \<Rightarrow> proj f ps)"
  by (simp add: proj_def List.map_filter_simps split: option.split)

lemma proj_Nil [simp]: "proj f [] = []"
  by (simp add: proj_def List.map_filter_simps)

lemma count_proj_remove1:
  "x \<in> set ps \<Longrightarrow> count_list (proj f (remove1 x ps)) j = count_list (proj f ps) j - (if f x = Some j then 1 else 0)"
proof (induction ps)
  case (Cons p ps)
  have pos: "x \<in> set ps \<Longrightarrow> f x = Some j \<Longrightarrow> count_list (proj f ps) j \<noteq> 0" for ps
    by (induction ps) (auto split: option.splits)
  show ?case using Cons pos [of ps] by (cases "p = x") (auto split: option.splits)
qed simp

lemma tracks_proj_remove1:
  assumes "tracks m (proj f ps)" "x \<in> set ps"
  shows "tracks (case f x of None \<Rightarrow> m | Some k \<Rightarrow> unbump k m) (proj f (remove1 x ps))"
proof (cases "f x")
  case None
  then show ?thesis
    using assms(1) count_proj_remove1 [OF assms(2), of f] by (simp add: tracks_def)
next
  case (Some k)
  have "k \<in> set (proj f ps)"
    using assms(2) Some by (induction ps) (auto split: option.splits)
  from tracks_unbump [OF assms(1) this] Some show ?thesis
    using count_proj_remove1 [OF assms(2), of f]
    by (auto simp: tracks_def count_list_remove1 split: if_splits)
qed

lemma proj_remove1_le: "length (proj f (remove1 x ps)) \<le> length (proj f ps)"
  by (induction ps) (auto split: option.splits)

fun exec_key :: "permit \<Rightarrow> string option" where
  "exec_key (ExecPermit p) = Some p" | "exec_key _ = None"

fun tunnel_key :: "permit \<Rightarrow> string option" where
  "tunnel_key (TunnelStreamPermit p r) = Some p" | "tunnel_key _ = None"

fun forward_key :: "permit \<Rightarrow> (string \<times> string) option" where
  "forward_key (TunnelStreamPermit p r) = Some (p, r)" | "forward_key _ = None"

fun rfwd_key :: "permit \<Rightarrow> string option" where
  "rfwd_key (RemoteForwardPermit p) = Some p" | "rfwd_key _ = None"

fun conn_key :: "permit \<Rightarrow> string option" where
  "conn_key (ConnectionPermit p) = Some p" | "conn_key _ = None"

fun pairing_key :: "permit \<Rightarrow> unit option" where
  "pairing_key PairingConnectionPermit = Some ()" | "pairing_key _ = None"

fun file_key :: "permit \<Rightarrow> string option" where
  "file_key (FilePermit p) = Some p" | "file_key _ = None"

text \<open>The maps count the outstanding permits: nothing leaks and nothing is released twice.\<close>

definition counted :: "quotas \<Rightarrow> bool" where
  "counted q \<longleftrightarrow> (let st = qstate q; ps = permits q in
     tracks (exec_in_use st) (proj exec_key ps) \<and>
     tracks (tunnel_streams_per_principal st) (proj tunnel_key ps) \<and>
     tracks (tunnel_streams_per_forward st) (proj forward_key ps) \<and>
     tracks (remote_forwards_per_principal st) (proj rfwd_key ps) \<and>
     tracks (connections_per_principal st) (proj conn_key ps) \<and>
     pairing_connections_in_use st = length (proj pairing_key ps) \<and>
     tracks (files_in_use st) (proj file_key ps))"

definition within :: "quotas \<Rightarrow> bool" where
  "within q \<longleftrightarrow> (let lim = limits q; ps = permits q in
     length (proj exec_key ps) \<le> max_exec lim \<and>
     (\<forall>p. count_list (proj exec_key ps) p \<le> max_exec_per_principal lim) \<and>
     (\<forall>p. count_list (proj tunnel_key ps) p \<le> max_tunnel_streams_per_principal lim) \<and>
     (\<forall>k. count_list (proj forward_key ps) k \<le> max_tunnel_streams_per_forward lim) \<and>
     (\<forall>p. count_list (proj rfwd_key ps) p \<le> max_remote_forwards_per_principal lim) \<and>
     length (proj conn_key ps) \<le> max_connections lim \<and>
     (\<forall>p. count_list (proj conn_key ps) p \<le> max_connections_per_principal lim) \<and>
     length (proj pairing_key ps) \<le> MAX_CONCURRENT_PAIRING_CONNECTIONS \<and>
     length (proj file_key ps) \<le> max_file_transfers lim \<and>
     (\<forall>p. count_list (proj file_key ps) p \<le> max_file_transfers_per_principal lim))"

datatype quota_op =
    ReserveExec string
  | ReserveTunnel string string
  | ReserveRemoteForward string
  | ReserveConnection string
  | ReservePairing
  | ReserveFile string
  | DropPermit permit
  | RecordRejection quota_kind string string nat "nat option" string
  | FlushExpired nat

fun quota_step :: "quota_op \<Rightarrow> quotas \<Rightarrow> quotas" where
  "quota_step (ReserveExec p) q = fst (reserve_exec p q)"
| "quota_step (ReserveTunnel p r) q = fst (reserve_tunnel_stream p r q)"
| "quota_step (ReserveRemoteForward p) q = fst (reserve_remote_forward p q)"
| "quota_step (ReserveConnection p) q = fst (reserve_connection p q)"
| "quota_step ReservePairing q = fst (reserve_pairing_connection q)"
| "quota_step (ReserveFile p) q = fst (reserve_file_transfer p q)"
| "quota_step (DropPermit p) q = (if p \<in> set (permits q) then drop_permit p q else q)"
| "quota_step (RecordRejection k p a now i ap) q = fst (record_rejection k p a now i ap q)"
| "quota_step (FlushExpired now) q = fst (flush_expired now q)"

lemmas reserve_defs = reserve_exec_def reserve_tunnel_stream_def reserve_remote_forward_def
  reserve_connection_def reserve_pairing_connection_def reserve_file_transfer_def grant_def refuse_connection_def

lemma audit_keeps_permits:
  "qstate (fst (record_rejection k p a now i ap q)) = qstate q"
  "permits (fst (record_rejection k p a now i ap q)) = permits q"
  "limits (fst (record_rejection k p a now i ap q)) = limits q"
  "qstate (fst (flush_expired now q)) = qstate q"
  "permits (fst (flush_expired now q)) = permits q"
  "limits (fst (flush_expired now q)) = limits q"
  by (simp_all add: record_rejection_def flush_expired_def Let_def case_prod_unfold)

lemma count_list_unit: "count_list (xs :: unit list) () = length xs"
  by (induction xs) auto

lemma drop_counted:
  assumes c: "counted q" and m: "p \<in> set (permits q)"
  shows "counted (drop_permit p q)"
proof -
  note t = tracks_proj_remove1 [OF _ m]
  have pair: "length (proj pairing_key (remove1 p (permits q)))
      = length (proj pairing_key (permits q)) - (if pairing_key p = Some () then 1 else 0)"
    using count_proj_remove1 [OF m, of pairing_key "()"]
    by (metis count_list_unit)
  from c have "tracks (exec_in_use (qstate q)) (proj exec_key (permits q))"
    "tracks (tunnel_streams_per_principal (qstate q)) (proj tunnel_key (permits q))"
    "tracks (tunnel_streams_per_forward (qstate q)) (proj forward_key (permits q))"
    "tracks (remote_forwards_per_principal (qstate q)) (proj rfwd_key (permits q))"
    "tracks (connections_per_principal (qstate q)) (proj conn_key (permits q))"
    "tracks (files_in_use (qstate q)) (proj file_key (permits q))"
    by (simp_all add: counted_def Let_def)
  from this [THEN t] pair c show ?thesis
    by (cases p) (simp_all add: counted_def Let_def drop_permit_def release_exec_def release_tunnel_stream_def
        release_remote_forward_def release_connection_slot_def release_pairing_def release_file_def)
qed

lemma count_proj_remove1_le: "count_list (proj f (remove1 x ps)) k \<le> count_list (proj f ps) k"
  by (cases "x \<in> set ps") (simp_all add: count_proj_remove1 remove1_idem)

lemma drop_within:
  assumes "within q"
  shows "within (drop_permit p q)"
proof -
  note le = proj_remove1_le [of _ p "permits q", THEN le_trans]
    and ce = count_proj_remove1_le [of _ p "permits q", THEN le_trans]
  show ?thesis
    using assms unfolding within_def Let_def drop_permit_def by (simp add: le ce)
qed

text \<open>A reservation answers from the counts of the outstanding permits.\<close>

lemma counted_in_use:
  assumes "counted q"
  shows "in_use p (exec_in_use (qstate q)) = count_list (proj exec_key (permits q)) p"
    "in_use_total (exec_in_use (qstate q)) = length (proj exec_key (permits q))"
    "in_use p (tunnel_streams_per_principal (qstate q)) = count_list (proj tunnel_key (permits q)) p"
    "in_use k (tunnel_streams_per_forward (qstate q)) = count_list (proj forward_key (permits q)) k"
    "in_use p (remote_forwards_per_principal (qstate q)) = count_list (proj rfwd_key (permits q)) p"
    "in_use p (connections_per_principal (qstate q)) = count_list (proj conn_key (permits q)) p"
    "in_use_total (connections_per_principal (qstate q)) = length (proj conn_key (permits q))"
    "pairing_connections_in_use (qstate q) = length (proj pairing_key (permits q))"
    "in_use p (files_in_use (qstate q)) = count_list (proj file_key (permits q)) p"
    "in_use_total (files_in_use (qstate q)) = length (proj file_key (permits q))"
  using assms by (simp_all add: counted_def Let_def tracks_in_use tracks_total)

lemma reserve_counted:
  assumes c: "counted q"
  shows "counted (fst (reserve_exec p q))" "counted (fst (reserve_tunnel_stream p r q))"
    "counted (fst (reserve_remote_forward p q))" "counted (fst (reserve_connection p q))"
    "counted (fst (reserve_pairing_connection q))" "counted (fst (reserve_file_transfer p q))"
  using c by (simp_all add: reserve_defs Let_def counted_def tracks_bump)

lemma reserve_within:
  assumes c: "counted q" and w: "within q"
  shows "within (fst (reserve_exec p q))" "within (fst (reserve_tunnel_stream p r q))"
    "within (fst (reserve_remote_forward p q))" "within (fst (reserve_connection p q))"
    "within (fst (reserve_pairing_connection q))" "within (fst (reserve_file_transfer p q))"
  using w by (simp_all add: reserve_defs Let_def counted_in_use [OF c] within_def)

lemma reserve_limits:
  "limits (fst (reserve_exec p q)) = limits q" "limits (fst (reserve_tunnel_stream p r q)) = limits q"
  "limits (fst (reserve_remote_forward p q)) = limits q" "limits (fst (reserve_connection p q)) = limits q"
  "limits (fst (reserve_pairing_connection q)) = limits q" "limits (fst (reserve_file_transfer p q)) = limits q"
  "limits (drop_permit d q) = limits q"
  by (simp_all add: reserve_defs drop_permit_def Let_def)

lemma audit_keeps_inv:
  "counted (fst (record_rejection k p a now i ap q)) = counted q"
  "within (fst (record_rejection k p a now i ap q)) = within q"
  "counted (fst (flush_expired now q)) = counted q"
  "within (fst (flush_expired now q)) = within q"
  by (simp_all add: counted_def within_def audit_keeps_permits)

definition quota_ok :: "quota_limits \<Rightarrow> quotas \<Rightarrow> bool" where
  "quota_ok lim q \<longleftrightarrow> counted q \<and> within q \<and> limits q = lim"

lemma quota_step_ok: "quota_ok lim q \<Longrightarrow> quota_ok lim (quota_step x q)"
  by (cases x) (simp_all add: quota_ok_def reserve_counted reserve_within reserve_limits drop_counted
      drop_within audit_keeps_inv audit_keeps_permits)

interpretation quota_machine: machine quota_step "quota_ok lim" for lim
  by unfold_locales (rule quota_step_ok)

lemma quota_new_ok: "quota_ok lim (quotas_new lim)"
  by (simp add: quota_ok_def counted_def within_def quotas_new_def)

definition quota_run :: "quota_limits \<Rightarrow> quota_op list \<Rightarrow> quotas" where
  "quota_run lim ops = fold quota_step ops (quotas_new lim)"

lemma quota_run_ok: "quota_ok lim (quota_run lim ops)"
  unfolding quota_run_def by (rule quota_machine.run_inv [OF quota_new_ok])

lemma tracks_Nil_iff [simp]: "tracks m [] \<longleftrightarrow> m = []"
  by (cases m) (auto simp: tracks_def fun_eq_iff split: if_splits)

text \<open>
  C5. For every sequence of reservations, permit drops, recorded rejections and flushes, the
  outstanding permits never exceed any host-wide or per-principal limit, the counters count exactly
  the outstanding permits, and once every permit is dropped the counters are back to their initial
  state: no reservation leaks and none is released twice.
\<close>

theorem quota_bounded:
  "counted (quota_run lim ops) \<and> within (quota_run lim ops) \<and> limits (quota_run lim ops) = lim \<and>
   (permits (quota_run lim ops) = [] \<longrightarrow> qstate (quota_run lim ops) = qstate (quotas_new lim))"
  using quota_run_ok [of lim ops]
  by (auto simp: quota_ok_def counted_def Let_def quotas_new_def intro: quota_state.equality)

definition unit_limits :: quota_limits where
  "unit_limits = \<lparr>max_sessions = 1, max_sessions_per_principal = 1,
    max_exec_per_principal = 1, max_exec = 1, max_tunnel_streams_per_principal = 1,
    max_tunnel_streams_per_forward = 1, max_remote_forwards_per_principal = 1,
    max_connections_per_principal = 1, max_connections = 1, max_file_transfers_per_principal = 1,
    max_file_transfers = 1\<rparr>"

theorem quota_bounded_witness:
  "qstate (quota_run unit_limits [ReserveExec ''a'', DropPermit (ExecPermit ''a'')]) = qstate (quotas_new unit_limits)"
proof -
  have "permits (quota_run unit_limits [ReserveExec ''a'', DropPermit (ExecPermit ''a'')]) = []"
    by (simp add: quota_run_def quotas_new_def reserve_exec_def grant_def drop_permit_def unit_limits_def
        in_use_def in_use_total_def)
  with quota_bounded [of unit_limits "[ReserveExec ''a'', DropPermit (ExecPermit ''a'')]"] show ?thesis by blast
qed

text \<open>
  The answer of one limit check, and what an answer may do to the state: a refusal leaves the
  counters and the permits alone, a grant adds its permit.
\<close>

definition limit_check :: "nat \<Rightarrow> nat \<Rightarrow> quota_kind \<Rightarrow> quota_kind + permit \<Rightarrow> quota_kind + permit" where
  "limit_check n m k r = (if n \<ge> m then Inl k else r)"

definition answer_effect :: "quotas \<Rightarrow> quotas \<times> (quota_kind + permit) \<Rightarrow> bool" where
  "answer_effect q out \<longleftrightarrow>
     (case snd out of
        Inl _ \<Rightarrow> qstate (fst out) = qstate q \<and> permits (fst out) = permits q
      | Inr x \<Rightarrow> permits (fst out) = x # permits q)"

lemma reserve_effect:
  "answer_effect q (reserve_exec p q)" "answer_effect q (reserve_tunnel_stream p r q)"
  "answer_effect q (reserve_remote_forward p q)" "answer_effect q (reserve_connection p q)"
  "answer_effect q (reserve_pairing_connection q)" "answer_effect q (reserve_file_transfer p q)"
  by (simp_all add: answer_effect_def reserve_defs Let_def)


section \<open>Audit of the rejections\<close>

definition pending_category :: "category_windows \<Rightarrow> nat" where
  "pending_category cat = sum_list (map (suppressed \<circ> snd) (per_principal cat)) + suppressed (overflow cat)"

definition pending_rejections :: "quotas \<Rightarrow> nat" where
  "pending_rejections q = sum_list (map (\<lambda>k. pending_category (windows q k)) all_quota_kinds)"

fun record_weight :: "quota_record \<Rightarrow> nat" where
  "record_weight (QuotaRejected _ _ _ _ _) = 1"
| "record_weight (QuotaRejectedSummary _ _ n) = n"

text \<open>Every principal has one window, an open one, and the windows of a category are bounded.\<close>

definition category_ok :: "category_windows \<Rightarrow> bool" where
  "category_ok cat \<longleftrightarrow> distinct (map fst (per_principal cat)) \<and>
     (\<forall>w \<in> snd ` set (per_principal cat). start w \<noteq> None) \<and>
     length (per_principal cat) \<le> MAX_AUDIT_WINDOW_PRINCIPALS"

definition windows_ok :: "quotas \<Rightarrow> bool" where
  "windows_ok q \<longleftrightarrow> (\<forall>k. category_ok (windows q k))"

lemma sum_update:
  "distinct (map fst m) \<Longrightarrow> sum_list (map (f \<circ> snd) (AList.update p w m)) + (case map_of m p of Some v \<Rightarrow> f v | None \<Rightarrow> 0)
     = sum_list (map (f \<circ> snd) m) + (f w :: nat)"
  by (induction m) (auto simp: map_of_eq_None_iff split: option.splits)

lemma length_update: "length (AList.update p w m) = (if p \<in> fst ` set m then length m else Suc (length m))"
  by (induction m) auto

lemma snd_update_subset: "snd ` set (AList.update p w m) \<subseteq> insert w (snd ` set m)"
  by (induction m) auto

lemma put_window_pending:
  assumes "category_ok cat" "window_of p cat = (w, ov)"
  shows "pending_category (put_window p ov w' cat) + suppressed w = pending_category cat + suppressed w'"
  using assms sum_update [of "per_principal cat" suppressed p w']
  by (auto simp: category_ok_def window_of_def put_window_def pending_category_def window_default_def
      split: if_splits option.splits)

lemma put_window_ok:
  assumes ok: "category_ok cat" and w: "window_of p cat = (w, ov)" and s: "start w' \<noteq> None"
  shows "category_ok (put_window p ov w' cat)"
proof (cases ov)
  case True
  then show ?thesis using ok by (simp add: category_ok_def put_window_def)
next
  case False
  have opened: "\<forall>v \<in> snd ` set (AList.update p w' (per_principal cat)). start v \<noteq> None"
    using ok s snd_update_subset [of p w' "per_principal cat"] by (fastforce simp: category_ok_def)
  have len: "length (AList.update p w' (per_principal cat)) \<le> MAX_AUDIT_WINDOW_PRINCIPALS"
    using w False ok
    by (auto simp: window_of_def category_ok_def length_update map_of_eq_None_iff
        split: if_splits option.splits dest!: map_of_SomeD intro: rev_image_eqI)
  show ?thesis
    using ok False opened len by (simp add: category_ok_def put_window_def AList.distinct_update)
qed

lemma pending_point:
  "pending_rejections (q\<lparr>windows := (windows q)(k := c)\<rparr>) + pending_category (windows q k)
     = pending_rejections q + pending_category c"
  by (cases k) (simp_all add: pending_rejections_def all_quota_kinds_def)

lemma pending_member: "pending_category (windows q k) \<le> pending_rejections q"
  by (cases k) (simp_all add: pending_rejections_def all_quota_kinds_def)

lemma window_le_pending:
  assumes "category_ok cat" "window_of p cat = (w, ov)"
  shows "suppressed w \<le> pending_category cat"
  using put_window_pending [OF assms, of window_default] by (simp add: window_default_def)

lemma note_rejection_start: "note_rejection now w = (w', c, line) \<Longrightarrow> start w' \<noteq> None"
  by (auto simp: note_rejection_def window_is_fresh_def split: if_splits option.splits)

definition reject_event :: "quota_kind \<times> string \<times> string \<times> nat \<times> nat option \<times> string \<Rightarrow> quotas \<Rightarrow> quotas \<times> quota_record list" where
  "reject_event = (\<lambda>(kind, p, addr, now, request, auth). record_rejection kind p addr now request auth)"

lemma record_rejection_windows_ok:
  assumes "windows_ok q"
  shows "windows_ok (fst (record_rejection k p a now i ap q))"
proof -
  obtain w ov where w: "window_of p (windows q k) = (w, ov)" by fastforce
  obtain w' c line where n: "note_rejection now w = (w', c, line)" by (metis prod_cases3)
  have "category_ok (windows q k)" using assms by (simp add: windows_ok_def)
  from put_window_ok [OF this w note_rejection_start [OF n]] assms show ?thesis
    by (simp add: windows_ok_def record_rejection_def w n)
qed

lemma record_rejection_accounts:
  assumes "windows_ok q" "pending_rejections q < U32_MAX"
    and r: "record_rejection k p a now i ap q = (q', as)"
  shows "pending_rejections q' + sum_list (map record_weight as) = pending_rejections q + 1"
proof -
  obtain w ov where w: "window_of p (windows q k) = (w, ov)" by fastforce
  obtain w' c line where n: "note_rejection now w = (w', c, line)" by (metis prod_cases3)
  have ok: "category_ok (windows q k)" using assms(1) by (simp add: windows_ok_def)
  have le: "suppressed w < U32_MAX"
    using window_le_pending [OF ok w] pending_member [of q k] assms(2) by linarith
  have q': "windows q' = (windows q)(k := put_window p ov w' (windows q k))"
    using r w n by (auto simp: record_rejection_def)
  then have "pending_rejections q' = pending_rejections (q\<lparr>windows := (windows q)(k := put_window p ov w' (windows q k))\<rparr>)"
    by (simp add: pending_rejections_def)
  then have p': "pending_rejections q' + suppressed w = pending_rejections q + suppressed w'"
    using pending_point [of q k "put_window p ov w' (windows q k)"] put_window_pending [OF ok w, of w'] by linarith
  have "sum_list (map record_weight as) = count_of c + (if line then 1 else 0)"
    using r w n by (auto simp: record_rejection_def count_of_def note_rejection_def split: option.splits if_splits)
  then show ?thesis
    using p' note_rejection_accounts [OF n le] by simp
qed

lemma sum_filter_split:
  "sum_list (map f (filter P xs)) + sum_list (map f (filter (\<lambda>x. \<not> P x) xs)) = (sum_list (map f xs) :: nat)"
  by (induction xs) auto

lemma sum_weight_closed:
  "sum_list (map record_weight (map (\<lambda>(p, w). QuotaRejectedSummary k p (suppressed w)) (filter (\<lambda>(p, w). suppressed w > 0) xs)))
     = sum_list (map (suppressed \<circ> snd) xs)"
  by (induction xs) auto

lemma flush_category_accounts:
  assumes "category_ok cat" "flush_category now k cat = (cat', as)"
  shows "pending_category cat' + sum_list (map record_weight as) = pending_category cat \<and> category_ok cat'"
proof -
  obtain ov c where ov: "close_window now (overflow cat) = (ov, c)" by fastforce
  let ?keep = "\<lambda>(p, w). retain_window now w"
  have closed: "filter (\<lambda>(p, w). \<not> retain_window now w \<and> start w \<noteq> None) (per_principal cat)
      = filter (\<lambda>x. \<not> ?keep x) (per_principal cat)"
    using assms(1) by (intro filter_cong) (auto simp: category_ok_def)
  have cat': "cat' = \<lparr>per_principal = filter ?keep (per_principal cat), overflow = ov\<rparr>"
    and as: "as = map (\<lambda>(p, w). QuotaRejectedSummary k p (suppressed w))
          (filter (\<lambda>(p, w). suppressed w > 0) (filter (\<lambda>x. \<not> ?keep x) (per_principal cat)))
        @ (case c of Some n \<Rightarrow> [QuotaRejectedSummary k ''-'' n] | None \<Rightarrow> [])"
    using assms(2) unfolding flush_category_def Let_def ov closed by simp_all
  have "sum_list (map record_weight as) = sum_list (map (suppressed \<circ> snd) (filter (\<lambda>x. \<not> ?keep x) (per_principal cat))) + count_of c"
    unfolding as by (simp only: map_append sum_list_append sum_weight_closed) (simp add: count_of_def split: option.split)
  moreover have "category_ok cat'"
    using assms(1) by (auto simp: category_ok_def cat' distinct_map_filter intro: le_trans [OF length_filter_le])
  ultimately show ?thesis
    using close_window_accounts [OF ov] sum_filter_split [of "suppressed \<circ> snd" ?keep "per_principal cat"]
    by (simp add: pending_category_def cat')
qed

lemma flush_expired_accounts:
  assumes "windows_ok q" "flush_expired now q = (q', as)"
  shows "pending_rejections q' + sum_list (map record_weight as) = pending_rejections q \<and> windows_ok q'"
proof -
  have one: "pending_category (fst (flush_category now k (windows q k)))
      + sum_list (map record_weight (snd (flush_category now k (windows q k)))) = pending_category (windows q k)
      \<and> category_ok (fst (flush_category now k (windows q k)))" for k
    using flush_category_accounts [of "windows q k" now k "fst (flush_category now k (windows q k))"
        "snd (flush_category now k (windows q k))"] assms(1) by (simp add: windows_ok_def)
  have "sum_list (map (\<lambda>k. pending_category (fst (flush_category now k (windows q k)))) ks)
      + sum_list (map record_weight (concat (map (\<lambda>k. snd (flush_category now k (windows q k))) ks)))
      = sum_list (map (\<lambda>k. pending_category (windows q k)) ks)" for ks
    by (induction ks) (use one in \<open>simp_all add: algebra_simps\<close>)
  then show ?thesis using assms(2) one
    by (auto simp: flush_expired_def pending_rejections_def windows_ok_def)
qed

interpretation quota_audit: audited reject_event flush_expired pending_rejections record_weight windows_ok
proof
  fix s s' :: quotas and r as
  assume s: "windows_ok s" "pending_rejections s < U32_MAX" "reject_event r s = (s', as)"
  then show "pending_rejections s' + sum_list (map record_weight as) = pending_rejections s + 1"
    using record_rejection_accounts by (auto simp: reject_event_def split: prod.splits)
next
  fix s s' :: quotas and now as
  assume "windows_ok s" "flush_expired now s = (s', as)"
  then show "pending_rejections s' + sum_list (map record_weight as) = pending_rejections s"
    using flush_expired_accounts by blast
next
  fix s :: quotas and r
  assume "windows_ok s"
  then show "windows_ok (fst (reject_event r s))"
    by (cases r) (simp add: reject_event_def record_rejection_windows_ok)
next
  fix s :: quotas and now
  assume "windows_ok s"
  then show "windows_ok (fst (flush_expired now s))"
    using flush_expired_accounts [of s now] by (metis prod.collapse)
qed

lemma windows_new_ok: "windows_ok (quotas_new lim)" "pending_rejections (quotas_new lim) = 0"
  by (simp_all add: windows_ok_def category_ok_def quotas_new_def pending_rejections_def
      pending_category_def window_default_def all_quota_kinds_def)

text \<open>
  C39. No quota rejection is lost from the audit log and none is counted twice: after any sequence
  of at most 2^32 - 1 rejections, interleaved with flushes at any times, the rejections stand
  exactly for the lines written (a first line counts one, a summary line its count) plus the
  counts still pending in open windows.
\<close>

theorem quota_audit_complete:
  assumes "audit_run reject_event flush_expired es (quotas_new lim) = (q, lines)"
    and "length (filter is_reject es) \<le> U32_MAX"
  shows "sum_list (map record_weight lines) + pending_rejections q = length (filter is_reject es)"
  using quota_audit.run_accounts [OF windows_new_ok(1) assms(1)] assms(2) windows_new_ok(2) [of lim] by simp

definition noisy_rejection :: "nat \<Rightarrow> (quota_kind \<times> string \<times> string \<times> nat \<times> nat option \<times> string) audit_event" where
  "noisy_rejection now = Reject (ExecHost, ''alice'', ''host'', now, None, ''pin'')"

theorem quota_audit_complete_witness:
  "\<exists>q lines. audit_run reject_event flush_expired [noisy_rejection 0, noisy_rejection 1, Flush (20 * SECOND)] (quotas_new unit_limits) = (q, lines) \<and>
     sum_list (map record_weight lines) + pending_rejections q = 2"
proof -
  let ?es = "[noisy_rejection 0, noisy_rejection 1, Flush (20 * SECOND)]"
  obtain q lines where r: "audit_run reject_event flush_expired ?es (quotas_new unit_limits) = (q, lines)" by fastforce
  have "length (filter is_reject ?es) = 2" by (simp add: noisy_rejection_def)
  then show ?thesis using quota_audit_complete [OF r] r by (auto simp: U32_MAX_def)
qed

section \<open>Bounds of the audit\<close>

lemma flush_category_lines:
  "category_ok cat \<Longrightarrow> length (snd (flush_category now k cat)) \<le> MAX_AUDIT_WINDOW_PRINCIPALS + 1"
  by (auto simp: flush_category_def category_ok_def case_prod_unfold Let_def split: option.split
      intro!: le_trans [OF length_filter_le] le_SucI)

lemma quota_step_windows_ok: "windows_ok q \<Longrightarrow> windows_ok (quota_step x q)"
proof (cases x)
  case (FlushExpired now)
  then show "windows_ok q \<Longrightarrow> ?thesis" using quota_audit.flush_valid by simp
next
  case (RecordRejection k p a now i ap)
  then show "windows_ok q \<Longrightarrow> ?thesis" by (simp add: record_rejection_windows_ok)
qed (simp_all add: reserve_defs drop_permit_def Let_def windows_ok_def)

interpretation quota_windows: machine quota_step windows_ok
  by unfold_locales (rule quota_step_windows_ok)

text \<open>
  Whatever peers do, each quota kind keeps at most 64 per-principal windows, and one flush
  writes at most 780 lines: twelve kinds, 64 principals and the overflow window each.
\<close>

theorem quota_audit_bounded:
  "length (per_principal (windows (quota_run lim ops) k)) \<le> 64 \<and>
   length (snd (flush_expired now (quota_run lim ops))) \<le> 780"
proof -
  have ok: "windows_ok (quota_run lim ops)"
    unfolding quota_run_def by (rule quota_windows.run_inv [OF windows_new_ok(1)])
  have "length (concat (map (\<lambda>k. snd (flush_category now k (windows (quota_run lim ops) k))) ks)) \<le> length ks * 65" for ks
    by (induction ks) (use flush_category_lines ok in \<open>auto simp: windows_ok_def MAX_AUDIT_WINDOW_PRINCIPALS_def
        intro!: add_mono\<close>)
  from this [of all_quota_kinds] ok show ?thesis
    by (simp add: flush_expired_def all_quota_kinds_def windows_ok_def category_ok_def MAX_AUDIT_WINDOW_PRINCIPALS_def)
qed

text \<open>
  A refused peer learns what kind of operation was refused and nothing more: two quota kinds
  give the same wire message exactly when they guard the same action, so the message never tells the
  host-wide limit from the per-principal one, while the audit category always tells them apart.
\<close>

theorem quota_wire_hides_axis:
  "(wire_message k = wire_message k' \<longleftrightarrow> quota_action k = quota_action k') \<and>
   (category k = category k' \<longleftrightarrow> k = k') \<and> k \<in> set all_quota_kinds"
  by (cases k; cases k'; simp add: all_quota_kinds_def)

end
