(* ===== verification/Admission_Gate.thy ===== *)
theory Admission_Gate
  imports Audit_Window
begin

text \<open>
  The admission gate of the accept loop (\<open>qsh-core/src/admission.rs\<close>): a pool of handshake permits,
  two count-min sketches that rate-limit address-unvalidated and address-validated sources, and the
  aggregated audit of the rejections. The hash of each row (\<open>RandomState\<close>) is a field of the row. A
  call of \<open>decide\<close> is one step. Instants are in nanoseconds since the gate's origin or later; the
  weight of the previous epoch, a product of doubles truncated to \<open>u32\<close> in the source, is computed
  exactly and truncated.
\<close>

unbundle bit_operations_syntax

section \<open>Constants and data\<close>

definition SKETCH_ROWS :: nat where
  "SKETCH_ROWS = 4"

definition SKETCH_COLS :: nat where
  "SKETCH_COLS = 1024"

definition EPOCH :: nat where
  "EPOCH = 2 * SECOND"

datatype reject_reason = RateLimited | AtCapacity | ValidatedRateLimited

definition all_reject_reasons :: "reject_reason list" where
  "all_reject_reasons = [RateLimited, AtCapacity, ValidatedRateLimited]"

fun reject_category :: "reject_reason \<Rightarrow> string" where
  "reject_category RateLimited = ''rate_limited''"
| "reject_category AtCapacity = ''at_capacity''"
| "reject_category ValidatedRateLimited = ''validated_rate_limited''"

text \<open>\<open>IpAddr\<close>, with the eight segments of an IPv6 address, and \<open>to_canonical\<close>.\<close>

datatype ip_addr =
    Ipv4 "32 word"
  | Ipv6 "16 word" "16 word" "16 word" "16 word" "16 word" "16 word" "16 word" "16 word"

fun to_canonical :: "ip_addr \<Rightarrow> ip_addr" where
  "to_canonical (Ipv4 a) = Ipv4 a"
| "to_canonical (Ipv6 a b c d e f g h) =
     (if a = 0 \<and> b = 0 \<and> c = 0 \<and> d = 0 \<and> e = 0 \<and> f = 0xFFFF
      then Ipv4 (push_bit 16 (ucast g) OR ucast h)
      else Ipv6 a b c d e f g h)"

type_synonym socket_addr = "ip_addr \<times> nat"

datatype handshake_record =
    HandshakeRejected socket_addr string
  | HandshakeRejectedSummary string nat

datatype decision =
    Retry
  | Ignore reject_reason "handshake_record list"
  | Refuse reject_reason "handshake_record list"
  | Admit

record decision_counters =
  n_retry :: nat
  n_ignore :: nat
  n_refuse :: nat
  n_admit :: nat

section \<open>The sketch\<close>

datatype source_key = KeyV4 "32 word" | KeyV6 "64 word"

definition source_key_from_addr :: "ip_addr \<Rightarrow> source_key" where
  "source_key_from_addr addr =
     (case to_canonical addr of
        Ipv4 a \<Rightarrow> KeyV4 a
      | Ipv6 a b c d e f g h \<Rightarrow>
          KeyV6 (push_bit 48 (ucast a) OR push_bit 32 (ucast b) OR push_bit 16 (ucast c) OR ucast d))"

record sketch_row =
  hasher :: "source_key \<Rightarrow> nat"
  gens :: "nat \<Rightarrow> nat \<Rightarrow> nat"

record sketch =
  rows :: "sketch_row list"
  epoch :: nat

definition row_new :: "(source_key \<Rightarrow> nat) \<Rightarrow> sketch_row" where
  "row_new hs = \<lparr>hasher = hs, gens = (\<lambda>_ _. 0)\<rparr>"

definition row_column :: "sketch_row \<Rightarrow> source_key \<Rightarrow> nat" where
  "row_column row k = hasher row k mod SKETCH_COLS"

definition sketch_new :: "(nat \<Rightarrow> source_key \<Rightarrow> nat) \<Rightarrow> sketch" where
  "sketch_new hs = \<lparr>rows = map (\<lambda>i. row_new (hs i)) [0 ..< SKETCH_ROWS], epoch = 0\<rparr>"

definition clear_row :: "nat \<Rightarrow> nat \<Rightarrow> sketch_row \<Rightarrow> sketch_row" where
  "clear_row gap target row =
     (if gap = 1 then row\<lparr>gens := (gens row)(target mod 2 := (\<lambda>_. 0))\<rparr>
      else row\<lparr>gens := (\<lambda>_ _. 0)\<rparr>)"

definition advance_to :: "nat \<Rightarrow> sketch \<Rightarrow> sketch" where
  "advance_to target sk =
     (if target \<le> epoch sk then sk
      else \<lparr>rows = map (clear_row (target - epoch sk) target) (rows sk), epoch = target\<rparr>)"

text \<open>The atomic increment wraps at 32 bits; the sums saturate there.\<close>

definition row_record :: "source_key \<Rightarrow> nat \<Rightarrow> sketch_row \<Rightarrow> sketch_row" where
  "row_record k cur row =
     row\<lparr>gens := (gens row)(cur := (gens row cur)(row_column row k :=
        (gens row cur (row_column row k) + 1) mod 2 ^ 32))\<rparr>"

definition weighted_previous :: "nat \<Rightarrow> nat \<Rightarrow> nat" where
  "weighted_previous previous offset = (previous * (EPOCH - offset)) div EPOCH"

definition row_estimate :: "source_key \<Rightarrow> nat \<Rightarrow> nat \<Rightarrow> sketch_row \<Rightarrow> nat" where
  "row_estimate k cur offset row =
     min (gens row cur (row_column row k) + weighted_previous (gens row (1 - cur) (row_column row k)) offset) U32_MAX"

definition record_and_estimate :: "source_key \<Rightarrow> nat \<Rightarrow> nat \<Rightarrow> sketch \<Rightarrow> sketch \<times> nat" where
  "record_and_estimate k epoch_index offset sk =
     (let sk1 = advance_to epoch_index sk;
          cur = epoch_index mod 2;
          sk2 = sk1\<lparr>rows := map (row_record k cur) (rows sk1)\<rparr>
      in (sk2, fold (\<lambda>row est. min est (row_estimate k cur offset row)) (rows sk2) U32_MAX))"

section \<open>The gate\<close>

record gate =
  origin :: nat
  handshake_permits :: nat
  rate_per_source :: nat
  unvalidated_sketch :: sketch
  validated_sketch :: sketch
  validated_rate_per_source :: nat
  gate_windows :: "reject_reason \<Rightarrow> window_state"
  decision_counts :: decision_counters

definition gate_new ::
  "nat \<Rightarrow> nat \<Rightarrow> nat \<Rightarrow> nat \<Rightarrow> (nat \<Rightarrow> source_key \<Rightarrow> nat) \<Rightarrow> (nat \<Rightarrow> source_key \<Rightarrow> nat) \<Rightarrow> gate" where
  "gate_new now permits rate validated_rate hs hs' =
     \<lparr>origin = now, handshake_permits = permits, rate_per_source = rate,
      unvalidated_sketch = sketch_new hs, validated_sketch = sketch_new hs',
      validated_rate_per_source = validated_rate, gate_windows = (\<lambda>_. window_default),
      decision_counts = \<lparr>n_retry = 0, n_ignore = 0, n_refuse = 0, n_admit = 0\<rparr>\<rparr>"

definition burst_limit :: "nat \<Rightarrow> nat" where
  "burst_limit rate = min (rate * (EPOCH div SECOND)) U32_MAX"

definition rate_exceeded :: "sketch \<Rightarrow> nat \<Rightarrow> socket_addr \<Rightarrow> nat \<Rightarrow> nat \<Rightarrow> sketch \<times> bool" where
  "rate_exceeded sk rate peer org now =
     (let elapsed = now - org;
          (sk', estimate) =
            record_and_estimate (source_key_from_addr (fst peer)) (elapsed div EPOCH) (elapsed mod EPOCH) sk
      in (sk', estimate > burst_limit rate))"

definition gate_record_rejection :: "reject_reason \<Rightarrow> socket_addr \<Rightarrow> nat \<Rightarrow> gate \<Rightarrow> gate \<times> handshake_record list" where
  "gate_record_rejection reason peer now g =
     (let (w', prior, line) = note_rejection now (gate_windows g reason);
          summary = (case prior of Some n \<Rightarrow> [HandshakeRejectedSummary (reject_category reason) n] | None \<Rightarrow> [])
      in (g\<lparr>gate_windows := (gate_windows g)(reason := w')\<rparr>,
          if line then summary @ [HandshakeRejected peer (reject_category reason)] else []))"

definition gate_flush_expired :: "nat \<Rightarrow> gate \<Rightarrow> gate \<times> handshake_record list" where
  "gate_flush_expired now g =
     (g\<lparr>gate_windows := (\<lambda>r. fst (close_window now (gate_windows g r)))\<rparr>,
      concat (map (\<lambda>r. case snd (close_window now (gate_windows g r)) of
                         Some n \<Rightarrow> [HandshakeRejectedSummary (reject_category r) n] | None \<Rightarrow> [])
                all_reject_reasons))"

definition count_retry :: "gate \<Rightarrow> gate" where
  "count_retry g = g\<lparr>decision_counts := (decision_counts g)\<lparr>n_retry := n_retry (decision_counts g) + 1\<rparr>\<rparr>"

definition count_ignore :: "gate \<Rightarrow> gate" where
  "count_ignore g = g\<lparr>decision_counts := (decision_counts g)\<lparr>n_ignore := n_ignore (decision_counts g) + 1\<rparr>\<rparr>"

definition count_refuse :: "gate \<Rightarrow> gate" where
  "count_refuse g = g\<lparr>decision_counts := (decision_counts g)\<lparr>n_refuse := n_refuse (decision_counts g) + 1\<rparr>\<rparr>"

definition count_admit :: "gate \<Rightarrow> gate" where
  "count_admit g = g\<lparr>decision_counts := (decision_counts g)\<lparr>n_admit := n_admit (decision_counts g) + 1\<rparr>\<rparr>"

definition decide :: "socket_addr \<Rightarrow> bool \<Rightarrow> nat \<Rightarrow> gate \<Rightarrow> gate \<times> decision" where
  "decide peer validated now g =
     (if \<not> validated then
        let (sk, exceeded) = rate_exceeded (unvalidated_sketch g) (rate_per_source g) peer (origin g) now;
            g1 = g\<lparr>unvalidated_sketch := sk\<rparr>
        in if exceeded then
             let (g2, records) = gate_record_rejection RateLimited peer now g1
             in (count_ignore g2, Ignore RateLimited records)
           else (count_retry g1, Retry)
      else
        let (sk, exceeded) = rate_exceeded (validated_sketch g) (validated_rate_per_source g) peer (origin g) now;
            g1 = g\<lparr>validated_sketch := sk\<rparr>
        in if exceeded then
             let (g2, records) = gate_record_rejection ValidatedRateLimited peer now g1
             in (count_refuse g2, Refuse ValidatedRateLimited records)
           else if handshake_permits g1 > 0
           then (count_admit (g1\<lparr>handshake_permits := handshake_permits g1 - 1\<rparr>), Admit)
           else
             let (g2, records) = gate_record_rejection AtCapacity peer now g1
             in (count_refuse g2, Refuse AtCapacity records))"

text \<open>The drop of the permit an \<open>Admit\<close> carried.\<close>

definition drop_handshake_permit :: "gate \<Rightarrow> gate" where
  "drop_handshake_permit g = g\<lparr>handshake_permits := handshake_permits g + 1\<rparr>"

end
