(* ===== verification/Admission_Guarantees.thy ===== *)
theory Admission_Guarantees
  imports Admission_Gate
begin

text \<open>
  What the admission gate guarantees (\<open>qsh-core/src/admission.rs\<close>): the rate limit against the
  history of attempts, the isolation of validated sources from unvalidated floods, the conservation
  of handshake permits, the completeness of the rejection audit, and the bucketing of sources.
\<close>

section \<open>The sketch against the history it saw\<close>

text \<open>A history lists the key and the epoch of every recorded attempt, newest first.\<close>

type_synonym history = "(source_key \<times> nat) list"

definition key_count :: "history \<Rightarrow> nat \<Rightarrow> source_key \<Rightarrow> nat" where
  "key_count h e k = length (filter (\<lambda>(k', e'). e' = e \<and> k' = k) h)"

definition col_count :: "sketch_row \<Rightarrow> history \<Rightarrow> nat \<Rightarrow> nat \<Rightarrow> nat" where
  "col_count row h e c = length (filter (\<lambda>(k, e'). e' = e \<and> row_column row k = c) h)"

text \<open>The sliding-window count the sketch approximates, computed from the whole history.\<close>

definition window_count :: "history \<Rightarrow> nat \<Rightarrow> nat \<Rightarrow> source_key \<Rightarrow> nat" where
  "window_count h e offset k =
     key_count h e k + weighted_previous (if e = 0 then 0 else key_count h (e - 1) k) offset"

definition uncollided :: "sketch_row \<Rightarrow> history \<Rightarrow> nat \<Rightarrow> source_key \<Rightarrow> bool" where
  "uncollided row h e k \<longleftrightarrow>
     (\<forall>(k', e') \<in> set h. (e' = e \<or> Suc e' = e) \<and> row_column row k' = row_column row k \<longrightarrow> k' = k)"

definition sketch_ok :: "history \<Rightarrow> sketch \<Rightarrow> bool" where
  "sketch_ok h sk \<longleftrightarrow>
     (\<forall>x \<in> set h. snd x \<le> epoch sk) \<and>
     (\<forall>row \<in> set (rows sk). \<forall>c.
        gens row (epoch sk mod 2) c = col_count row h (epoch sk) c \<and>
        gens row (1 - epoch sk mod 2) c = (if epoch sk = 0 then 0 else col_count row h (epoch sk - 1) c))"

lemma col_count_late: "\<forall>x \<in> set h. snd x < e \<Longrightarrow> col_count row h e c = 0"
  by (auto simp: col_count_def filter_empty_conv)

lemma row_column_simps [simp]:
  "row_column (row\<lparr>gens := g\<rparr>) = row_column row" "row_column (clear_row gap t row) = row_column row"
  "row_column (row_record k' cur row) = row_column row"
  by (simp_all add: row_column_def clear_row_def row_record_def fun_eq_iff)

lemma col_count_simps [simp]:
  "col_count (row\<lparr>gens := g\<rparr>) h = col_count row h" "col_count (clear_row gap t row) h = col_count row h" "col_count (row_record k' cur row) h = col_count row h"
  by (simp_all add: col_count_def fun_eq_iff)

lemma parity_flip: "1 - Suc e mod 2 = e mod 2"
  by (simp add: mod_Suc)

lemma sketch_ok_advance:
  assumes ok: "sketch_ok h sk"
  shows "sketch_ok h (advance_to t sk)"
proof (cases "t \<le> epoch sk")
  case True
  then show ?thesis using ok by (simp add: advance_to_def)
next
  case False
  have old: "\<forall>x \<in> set h. snd x < t" using ok False by (auto simp: sketch_ok_def)
  show ?thesis
  proof (cases "t = Suc (epoch sk)")
    case True
    have "gens row (epoch sk mod 2) c = col_count row h (epoch sk) c" if "row \<in> set (rows sk)" for row c
      using ok that by (simp add: sketch_ok_def)
    moreover have "epoch sk mod 2 \<noteq> Suc (epoch sk) mod 2" by presburger
    ultimately show ?thesis
      using True ok old parity_flip [of "epoch sk"]
      by (simp add: sketch_ok_def advance_to_def clear_row_def col_count_late le_Suc_eq del: mod_Suc)
  next
    case far: False
    then have "\<forall>x \<in> set h. snd x < t - 1" using ok False by (auto simp: sketch_ok_def)
    then show ?thesis
      using far False old by (auto simp: sketch_ok_def advance_to_def clear_row_def col_count_late
          intro: order.strict_implies_order)
  qed
qed

lemma advance_epoch: "epoch (advance_to t sk) = max t (epoch sk)"
  by (simp add: advance_to_def)

lemma advance_columns:
  "map (\<lambda>row. row_column row) (rows (advance_to t sk)) = map row_column (rows sk)"
  by (simp add: advance_to_def)

definition record_key :: "source_key \<Rightarrow> sketch \<Rightarrow> sketch" where
  "record_key k sk = sk\<lparr>rows := map (row_record k (epoch sk mod 2)) (rows sk)\<rparr>"

lemma sketch_ok_record:
  assumes ok: "sketch_ok h sk" and small: "length h < U32_MAX"
  shows "sketch_ok ((k, epoch sk) # h) (record_key k sk)"
proof -
  have "col_count row h e c < U32_MAX" for row e c
    using small le_less_trans [OF length_filter_le] unfolding col_count_def by blast
  then have nowrap: "(col_count row h e c + 1) mod 4294967296 = col_count row h e c + 1" for row e c
    by (intro mod_less) (simp add: U32_MAX_def)
  have ne: "1 - epoch sk mod 2 \<noteq> epoch sk mod 2" by presburger
  have cons: "col_count row ((k, epoch sk) # h) e c
      = col_count row h e c + (if e = epoch sk \<and> row_column row k = c then 1 else 0)" for row e c
    by (simp add: col_count_def)
  show ?thesis
    using ok ne unfolding sketch_ok_def record_key_def
    by (auto simp: cons row_record_def nowrap simp del: One_nat_def add_Suc_right)
qed

section \<open>The estimate\<close>

lemma fold_min_le: "fold (\<lambda>x m. min m (f x)) xs (a :: nat) \<le> a"
proof (induction xs arbitrary: a)
  case (Cons x xs)
  from Cons.IH [of "min a (f x)"] show ?case by simp
qed simp

lemma fold_min_least: "(\<forall>x \<in> set xs. n \<le> f x) \<Longrightarrow> n \<le> a \<Longrightarrow> n \<le> fold (\<lambda>x m. min m (f x)) xs (a :: nat)"
  by (induction xs arbitrary: a) auto

lemma fold_min_member: "x \<in> set xs \<Longrightarrow> fold (\<lambda>x m. min m (f x)) xs (a :: nat) \<le> f x"
proof (induction xs arbitrary: a)
  case (Cons y ys)
  then show ?case using fold_min_le [of f ys "min a (f x)"] by auto
qed simp

lemma weighted_mono: "p \<le> q \<Longrightarrow> weighted_previous p off \<le> weighted_previous q off"
  by (simp add: weighted_previous_def div_le_mono)

lemma weighted_le: "weighted_previous p off \<le> p"
proof -
  have "p * (EPOCH - off) \<le> p * EPOCH" by simp
  then have "p * (EPOCH - off) div EPOCH \<le> p * EPOCH div EPOCH" by (rule div_le_mono)
  then show ?thesis by (simp add: weighted_previous_def EPOCH_def SECOND_def)
qed

lemma key_le_col: "key_count h e k \<le> col_count row h e (row_column row k)"
  unfolding key_count_def col_count_def by (induction h) auto

lemma uncollided_count:
  assumes "uncollided row h e k" "e' = e \<or> Suc e' = e"
  shows "col_count row h e' (row_column row k) = key_count h e' k"
  using assms unfolding uncollided_def col_count_def key_count_def
  by (intro arg_cong [of _ _ length] filter_cong) auto

lemma two_epochs: "e \<noteq> e' \<Longrightarrow> col_count row h e c + col_count row h e' c \<le> length h"
  unfolding col_count_def by (induction h) auto

definition row_count :: "sketch_row \<Rightarrow> history \<Rightarrow> nat \<Rightarrow> nat \<Rightarrow> source_key \<Rightarrow> nat" where
  "row_count row h e offset k =
     col_count row h e (row_column row k)
     + weighted_previous (if e = 0 then 0 else col_count row h (e - 1) (row_column row k)) offset"

lemma row_count_small: "row_count row h e offset k \<le> length h"
proof -
  have "weighted_previous (if e = 0 then 0 else col_count row h (e - 1) (row_column row k)) offset
      \<le> (if e = 0 then 0 else col_count row h (e - 1) (row_column row k))" by (rule weighted_le)
  moreover have "col_count row h e (row_column row k) \<le> length h" by (simp add: col_count_def)
  ultimately show ?thesis
    using two_epochs [of e "e - 1" row h "row_column row k"] unfolding row_count_def by (cases e) auto
qed

lemma window_le_row: "window_count h e offset k \<le> row_count row h e offset k"
  unfolding window_count_def row_count_def
  using key_le_col [of h e k row] weighted_mono [OF key_le_col, of h "e - 1" k offset row] by (cases e) (auto intro: add_mono)

lemma row_uncollided: "uncollided row h e k \<Longrightarrow> row_count row h e offset k = window_count h e offset k"
  unfolding window_count_def row_count_def using uncollided_count by (cases e) auto

lemma record_and_estimate_ok:
  assumes ok: "sketch_ok h sk" and e: "epoch sk \<le> e" and small: "length h < U32_MAX"
    and r: "record_and_estimate k e offset sk = (sk', est)"
  shows "sketch_ok ((k, e) # h) sk'" and "epoch sk' = e" and "map row_column (rows sk') = map row_column (rows sk)"
    and "est = fold (\<lambda>row m. min m (row_count row ((k, e) # h) e offset k)) (rows sk') U32_MAX"
proof -
  let ?a = "advance_to e sk"
  have ep: "epoch ?a = e" using e by (simp add: advance_epoch)
  have sk': "sk' = record_key k ?a"
    and est: "est = fold (\<lambda>row m. min m (row_estimate k (e mod 2) offset row)) (rows sk') U32_MAX"
    using r by (auto simp: record_and_estimate_def Let_def record_key_def ep)
  show ok': "sketch_ok ((k, e) # h) sk'"
    using sketch_ok_record [OF sketch_ok_advance [OF ok, of e] small, of k] by (simp add: sk' ep)
  show ep': "epoch sk' = e" by (simp add: sk' record_key_def ep)
  show "map row_column (rows sk') = map row_column (rows sk)"
    using advance_columns [of e sk] by (simp add: sk' record_key_def comp_def)
  have "row_estimate k (e mod 2) offset row = row_count row ((k, e) # h) e offset k" if "row \<in> set (rows sk')" for row
    using ok' that row_count_small [of row "(k, e) # h" e offset k] small
    unfolding sketch_ok_def row_estimate_def row_count_def ep' by (auto simp: min_def)
  then show "est = fold (\<lambda>row m. min m (row_count row ((k, e) # h) e offset k)) (rows sk') U32_MAX"
    unfolding est by (intro fold_cong) auto
qed

lemma estimate_bounds:
  assumes "sketch_ok h sk" "epoch sk \<le> e" "length h < U32_MAX" "record_and_estimate k e offset sk = (sk', est)"
  shows "window_count ((k, e) # h) e offset k \<le> est"
    and "row \<in> set (rows sk) \<Longrightarrow> uncollided row h e k \<Longrightarrow> est = window_count ((k, e) # h) e offset k"
proof -
  note r = record_and_estimate_ok [OF assms]
  have "window_count ((k, e) # h) e offset k \<le> U32_MAX"
    using window_le_row row_count_small [of _ "(k, e) # h" e offset k] assms(3)
    by (metis Suc_leI le_trans length_Cons)
  then show lower: "window_count ((k, e) # h) e offset k \<le> est"
    unfolding r(4) by (intro fold_min_least) (auto intro: window_le_row)
  assume row: "row \<in> set (rows sk)" and un: "uncollided row h e k"
  then obtain row' where row': "row' \<in> set (rows sk')" "row_column row' = row_column row"
    using r(3) by (metis (no_types, opaque_lifting) image_iff image_set)
  then have "uncollided row' ((k, e) # h) e k" using un by (auto simp: uncollided_def)
  then have "est \<le> window_count ((k, e) # h) e offset k"
    using fold_min_member [OF row'(1), of "\<lambda>row. row_count row ((k, e) # h) e offset k" U32_MAX]
    unfolding r(4) by (simp add: row_uncollided)
  with lower show "est = window_count ((k, e) # h) e offset k" by simp
qed

section \<open>Runs of the gate\<close>

text \<open>The gate with the permits its admissions hold: an admission takes one, its end gives it back.\<close>

datatype gate_event =
    GDecide socket_addr bool nat
  | GDropPermit
  | GFlush nat

record gate_system =
  the_gate :: gate
  held :: nat

fun gate_step :: "gate_event \<Rightarrow> gate_system \<Rightarrow> gate_system" where
  "gate_step (GDecide peer validated now) s =
     (let (g, d) = decide peer validated now (the_gate s)
      in \<lparr>the_gate = g, held = held s + (if d = Admit then 1 else 0)\<rparr>)"
| "gate_step GDropPermit s =
     (if held s > 0 then \<lparr>the_gate = drop_handshake_permit (the_gate s), held = held s - 1\<rparr> else s)"
| "gate_step (GFlush now) s = s\<lparr>the_gate := fst (gate_flush_expired now (the_gate s))\<rparr>"

definition gate_run :: "gate_event list \<Rightarrow> gate \<Rightarrow> gate_system" where
  "gate_run evs g = fold gate_step evs \<lparr>the_gate = g, held = 0\<rparr>"

definition axis_sketch :: "bool \<Rightarrow> gate \<Rightarrow> sketch" where
  "axis_sketch v g = (if v then validated_sketch g else unvalidated_sketch g)"

definition axis_rate :: "bool \<Rightarrow> gate \<Rightarrow> nat" where
  "axis_rate v g = (if v then validated_rate_per_source g else rate_per_source g)"

definition epoch_at :: "nat \<Rightarrow> nat \<Rightarrow> nat" where
  "epoch_at org now = (now - org) div EPOCH"

fun attempt_on :: "nat \<Rightarrow> bool \<Rightarrow> gate_event \<Rightarrow> (source_key \<times> nat) option" where
  "attempt_on org v (GDecide peer v' now) =
     (if v' = v then Some (source_key_from_addr (fst peer), epoch_at org now) else None)"
| "attempt_on org v _ = None"

definition attempts :: "nat \<Rightarrow> bool \<Rightarrow> gate_event list \<Rightarrow> history" where
  "attempts org v evs = rev (List.map_filter (attempt_on org v) evs)"

fun decide_times :: "gate_event list \<Rightarrow> nat list" where
  "decide_times [] = []"
| "decide_times (GDecide _ _ now # evs) = now # decide_times evs"
| "decide_times (_ # evs) = decide_times evs"

lemma decide_times_append [simp]: "decide_times (xs @ ys) = decide_times xs @ decide_times ys"
  by (induction xs rule: decide_times.induct) auto

lemma attempts_append: "attempts org v (xs @ ys) = attempts org v ys @ attempts org v xs"
  by (simp add: attempts_def List.map_filter_def)

lemma attempts_single: "attempts org v [ev] = (case attempt_on org v ev of Some x \<Rightarrow> [x] | None \<Rightarrow> [])"
  by (simp add: attempts_def List.map_filter_def split: option.split)

lemma attempts_length: "length (attempts org v evs) \<le> length evs"
  by (simp add: attempts_def List.map_filter_def)

lemma attempts_times:
  assumes "x \<in> set (attempts org v evs)" "\<forall>t \<in> set (decide_times evs). t \<le> now"
  shows "snd x \<le> epoch_at org now"
proof -
  have mono: "t \<le> now \<Longrightarrow> epoch_at org t \<le> epoch_at org now" for t
    by (simp add: epoch_at_def div_le_mono)
  from assms show ?thesis
    by (induction evs rule: decide_times.induct)
      (auto simp: attempts_def List.map_filter_def mono split: if_splits)
qed

text \<open>What one decision does to the axis it uses, and that it leaves the rest alone.\<close>

lemma count_simps [simp]:
  "unvalidated_sketch (count_retry g) = unvalidated_sketch g" "unvalidated_sketch (count_ignore g) = unvalidated_sketch g"
  "unvalidated_sketch (count_refuse g) = unvalidated_sketch g" "unvalidated_sketch (count_admit g) = unvalidated_sketch g"
  "validated_sketch (count_retry g) = validated_sketch g" "validated_sketch (count_ignore g) = validated_sketch g"
  "validated_sketch (count_refuse g) = validated_sketch g" "validated_sketch (count_admit g) = validated_sketch g"
  "origin (count_retry g) = origin g" "origin (count_ignore g) = origin g"
  "origin (count_refuse g) = origin g" "origin (count_admit g) = origin g"
  "rate_per_source (count_retry g) = rate_per_source g" "rate_per_source (count_ignore g) = rate_per_source g"
  "rate_per_source (count_refuse g) = rate_per_source g" "rate_per_source (count_admit g) = rate_per_source g"
  "validated_rate_per_source (count_retry g) = validated_rate_per_source g"
  "validated_rate_per_source (count_ignore g) = validated_rate_per_source g"
  "validated_rate_per_source (count_refuse g) = validated_rate_per_source g"
  "validated_rate_per_source (count_admit g) = validated_rate_per_source g"
  "handshake_permits (count_retry g) = handshake_permits g" "handshake_permits (count_ignore g) = handshake_permits g"
  "handshake_permits (count_refuse g) = handshake_permits g" "handshake_permits (count_admit g) = handshake_permits g"
  "gate_windows (count_retry g) = gate_windows g" "gate_windows (count_ignore g) = gate_windows g"
  "gate_windows (count_refuse g) = gate_windows g" "gate_windows (count_admit g) = gate_windows g"
  by (simp_all add: count_retry_def count_ignore_def count_refuse_def count_admit_def)

lemma rejection_simps [simp]:
  "unvalidated_sketch (fst (gate_record_rejection r p now g)) = unvalidated_sketch g"
  "validated_sketch (fst (gate_record_rejection r p now g)) = validated_sketch g"
  "origin (fst (gate_record_rejection r p now g)) = origin g"
  "rate_per_source (fst (gate_record_rejection r p now g)) = rate_per_source g"
  "validated_rate_per_source (fst (gate_record_rejection r p now g)) = validated_rate_per_source g"
  "handshake_permits (fst (gate_record_rejection r p now g)) = handshake_permits g"
  by (simp_all add: gate_record_rejection_def Let_def case_prod_unfold)

fun rate_limited :: "decision \<Rightarrow> bool" where
  "rate_limited (Ignore RateLimited _) = True"
| "rate_limited (Refuse ValidatedRateLimited _) = True"
| "rate_limited _ = False"

lemma decide_axis:
  assumes "rate_exceeded (axis_sketch v g) (axis_rate v g) peer (origin g) now = (sk, exceeded)"
  shows "axis_sketch v (fst (decide peer v now g)) = sk"
    and "axis_sketch (\<not> v) (fst (decide peer v now g)) = axis_sketch (\<not> v) g"
    and "rate_limited (snd (decide peer v now g)) = exceeded"
    and "origin (fst (decide peer v now g)) = origin g"
    and "axis_rate v' (fst (decide peer v now g)) = axis_rate v' g"
  using assms by (auto simp: decide_def axis_sketch_def axis_rate_def Let_def case_prod_unfold)

text \<open>A run keeps each sketch in step with the attempts on its axis.\<close>

definition gate_tracks :: "nat \<Rightarrow> gate_event list \<Rightarrow> gate \<Rightarrow> bool" where
  "gate_tracks org evs g \<longleftrightarrow> origin g = org \<and>
     (\<forall>v. sketch_ok (attempts org v evs) (axis_sketch v g) \<and>
          epoch (axis_sketch v g) = (case attempts org v evs of [] \<Rightarrow> 0 | x # _ \<Rightarrow> snd x))"

lemma epoch_reached:
  assumes "gate_tracks org evs g" "\<forall>t \<in> set (decide_times evs). t \<le> now"
  shows "epoch (axis_sketch v g) \<le> epoch_at org now"
  using assms(1) attempts_times [OF _ assms(2), of _ org v]
  by (auto simp: gate_tracks_def split: list.splits)

lemma decide_estimate:
  assumes tr: "gate_tracks org evs g" and late: "\<forall>t \<in> set (decide_times evs). t \<le> now"
    and small: "length evs < U32_MAX"
  shows "\<exists>sk est. record_and_estimate (source_key_from_addr (fst peer)) (epoch_at org now) ((now - org) mod EPOCH) (axis_sketch v g) = (sk, est) \<and>
    rate_exceeded (axis_sketch v g) (axis_rate v g) peer (origin g) now = (sk, est > burst_limit (axis_rate v g))"
  using tr by (auto simp: rate_exceeded_def gate_tracks_def epoch_at_def Let_def case_prod_unfold
      intro!: exI prod.collapse)

lemma axis_sketch_simps [simp]:
  "axis_sketch v (drop_handshake_permit g) = axis_sketch v g" "origin (drop_handshake_permit g) = origin g"
  "axis_sketch v (fst (gate_flush_expired now g)) = axis_sketch v g" "origin (fst (gate_flush_expired now g)) = origin g"
  by (simp_all add: axis_sketch_def drop_handshake_permit_def gate_flush_expired_def)

lemma gate_tracks_step:
  assumes tr: "gate_tracks org evs (the_gate s)" and small: "length evs < U32_MAX"
    and srt: "sorted (decide_times (evs @ [ev]))"
  shows "gate_tracks org (evs @ [ev]) (the_gate (gate_step ev s))"
proof (cases ev)
  case (GDecide peer v now)
  have late: "\<forall>t \<in> set (decide_times evs). t \<le> now" using srt GDecide by (simp add: sorted_append)
  obtain sk est where re: "record_and_estimate (source_key_from_addr (fst peer)) (epoch_at org now) ((now - org) mod EPOCH)
        (axis_sketch v (the_gate s)) = (sk, est)"
    and rx: "rate_exceeded (axis_sketch v (the_gate s)) (axis_rate v (the_gate s)) peer (origin (the_gate s)) now
        = (sk, est > burst_limit (axis_rate v (the_gate s)))"
    using decide_estimate [OF tr late small] by blast
  have ok: "sketch_ok (attempts org v evs) (axis_sketch v (the_gate s))" using tr by (simp add: gate_tracks_def)
  have sm: "length (attempts org v evs) < U32_MAX" using attempts_length small by (rule le_less_trans)
  note r = record_and_estimate_ok(1,2) [OF ok epoch_reached [OF tr late] sm re]
  note d = decide_axis [OF rx]
  have "sketch_ok (attempts org w (evs @ [ev])) (axis_sketch w (the_gate (gate_step ev s))) \<and>
      epoch (axis_sketch w (the_gate (gate_step ev s))) = (case attempts org w (evs @ [ev]) of [] \<Rightarrow> 0 | x # _ \<Rightarrow> snd x)" for w
    using r d(1,2) tr by (cases "w = v")
      (auto simp: GDecide attempts_append attempts_single gate_tracks_def case_prod_unfold Let_def)
  then show ?thesis using d(4) tr by (simp add: gate_tracks_def GDecide case_prod_unfold Let_def)
next
  case GDropPermit
  then show ?thesis using tr by (simp add: gate_tracks_def attempts_append attempts_single)
next
  case (GFlush now)
  then show ?thesis using tr by (simp add: gate_tracks_def attempts_append attempts_single)
qed

lemma sketch_new_ok: "sketch_ok [] (sketch_new hs)"
  by (auto simp: sketch_ok_def sketch_new_def row_new_def col_count_def)

lemma gate_run_tracks:
  assumes "sorted (decide_times evs)" "length evs \<le> U32_MAX"
  shows "gate_tracks org evs (the_gate (gate_run evs (gate_new org m r vr hs hs')))"
  using assms unfolding gate_run_def
proof (induction evs rule: rev_induct)
  case Nil
  then show ?case by (simp add: gate_tracks_def gate_new_def axis_sketch_def attempts_def List.map_filter_def
        sketch_new_ok) (simp add: sketch_new_def)
next
  case (snoc ev evs)
  then show ?case using gate_tracks_step [of org evs _ ev] by (simp add: sorted_append)
qed

lemma run_axis_rate: "axis_rate v (the_gate (gate_run evs g)) = axis_rate v g"
proof -
  have "axis_rate v (the_gate (gate_step ev s)) = axis_rate v (the_gate s)" for ev s
    by (cases ev) (auto simp: axis_rate_def decide_def drop_handshake_permit_def gate_flush_expired_def Let_def
        case_prod_unfold)
  then show ?thesis
    unfolding gate_run_def by (induction evs rule: rev_induct) auto
qed


definition demo_peer :: socket_addr where
  "demo_peer = (Ipv4 0x0A000001, 4433)"

definition demo_attempt :: "nat \<Rightarrow> gate_event" where
  "demo_attempt t = GDecide demo_peer False t"


section \<open>Non-interference and permits\<close>

text \<open>What a decision about a validated attempt reads.\<close>

definition same_validated :: "gate \<Rightarrow> gate \<Rightarrow> bool" where
  "same_validated g g' \<longleftrightarrow> validated_sketch g = validated_sketch g' \<and> origin g = origin g' \<and>
     validated_rate_per_source g = validated_rate_per_source g' \<and> handshake_permits g = handshake_permits g' \<and>
     (\<forall>r. r \<noteq> RateLimited \<longrightarrow> gate_windows g r = gate_windows g' r)"

lemma unvalidated_keeps: "same_validated (fst (decide peer False now g)) g"
  by (auto simp: same_validated_def decide_def Let_def case_prod_unfold)
    (auto simp: gate_record_rejection_def Let_def case_prod_unfold)

lemma validated_reads:
  assumes "same_validated g g'"
  shows "snd (decide peer True now g) = snd (decide peer True now g')"
  using assms by (simp add: same_validated_def decide_def Let_def case_prod_unfold gate_record_rejection_def)

lemma unvalidated_not_admitted: "snd (decide peer False now g) \<noteq> Admit"
  by (simp add: decide_def Let_def case_prod_unfold)

lemma flood_keeps:
  "same_validated (the_gate (fold gate_step (map (\<lambda>(p, t). GDecide p False t) flood) s)) (the_gate s) \<and>
   held (fold gate_step (map (\<lambda>(p, t). GDecide p False t) flood) s) = held s"
proof (induction flood rule: rev_induct)
  case Nil
  then show ?case by (simp add: same_validated_def)
next
  case (snoc x flood)
  let ?s = "fold gate_step (map (\<lambda>(p, t). GDecide p False t) flood) s"
  obtain p t where x: "x = (p, t)" by fastforce
  from snoc unvalidated_keeps [of p t "the_gate ?s"] unvalidated_not_admitted [of p t "the_gate ?s"]
  show ?case by (simp add: x same_validated_def case_prod_unfold Let_def)
qed

text \<open>
  C40. A flood from unvalidated (spoofable) addresses cannot touch a validated source: whatever
  unvalidated attempts arrive, from any addresses and at any times, they take no handshake permit, and
  the decision about the next validated attempt, audit lines included, is what it would have been
  without the flood.
\<close>

theorem admission_flood_isolated:
  "let s' = fold gate_step (map (\<lambda>(p, t). GDecide p False t) flood) s in
     snd (decide peer True now (the_gate s')) = snd (decide peer True now (the_gate s)) \<and>
     handshake_permits (the_gate s') = handshake_permits (the_gate s) \<and> held s' = held s"
  using flood_keeps [of flood s] validated_reads by (auto simp: Let_def same_validated_def)

definition permits_ok :: "nat \<Rightarrow> gate_system \<Rightarrow> bool" where
  "permits_ok m s \<longleftrightarrow> held s + handshake_permits (the_gate s) = m"

lemma decide_permits:
  "handshake_permits (fst (decide peer v now g)) + (if snd (decide peer v now g) = Admit then 1 else 0) = handshake_permits g"
  "snd (decide peer v now g) = Admit \<Longrightarrow> v \<and> handshake_permits g > 0"
  by (auto simp: decide_def Let_def case_prod_unfold split: if_splits)

lemma permits_step: "permits_ok m s \<Longrightarrow> permits_ok m (gate_step ev s)"
proof (cases ev)
  case (GDecide peer v now)
  then show "permits_ok m s \<Longrightarrow> ?thesis"
    using decide_permits(1) [of peer v now "the_gate s"] by (simp add: permits_ok_def case_prod_unfold Let_def)
qed (auto simp: permits_ok_def drop_handshake_permit_def gate_flush_expired_def)

interpretation gate_permits: machine gate_step "permits_ok m" for m
  by unfold_locales (rule permits_step)

text \<open>
  Handshake permits are conserved: in every run the permits held and those left add up to the
  configured cap, so no more handshakes than that are ever in progress; only a validated attempt is
  admitted, and only while a permit is left.
\<close>

theorem admission_permit_cap:
  "let s = gate_run evs (gate_new org m r vr hs hs') in
     held s + handshake_permits (the_gate s) = m \<and>
     (snd (decide peer v now (the_gate s)) = Admit \<longrightarrow> v \<and> held s < m)"
proof -
  have "permits_ok m \<lparr>the_gate = gate_new org m r vr hs hs', held = 0\<rparr>" by (simp add: permits_ok_def gate_new_def)
  from gate_permits.run_inv [OF this, of evs] show ?thesis
    using decide_permits(2) [of peer v now "the_gate (gate_run evs (gate_new org m r vr hs hs'))"]
    by (auto simp: gate_run_def permits_ok_def Let_def)
qed

theorem admission_permit_cap_witness:
  "snd (decide demo_peer True 5 (the_gate (gate_run [] (gate_new 0 1 1 1 (\<lambda>_ _. 0) (\<lambda>_ _. 0))))) = Admit \<and>
   held (gate_run [] (gate_new 0 1 1 1 (\<lambda>_ _. 0) (\<lambda>_ _. 0))) < 1"
proof -
  have "snd (decide demo_peer True 5 (the_gate (gate_run [] (gate_new 0 1 1 1 (\<lambda>_ _. 0) (\<lambda>_ _. 0))))) = Admit"
    by (simp add: gate_run_def gate_new_def decide_def rate_exceeded_def record_and_estimate_def advance_to_def sketch_new_def
        SKETCH_ROWS_def row_new_def row_record_def row_estimate_def row_column_def SKETCH_COLS_def weighted_previous_def
        EPOCH_def SECOND_def burst_limit_def U32_MAX_def Let_def upt_conv_Cons)
  then show ?thesis using admission_permit_cap [of "[]" 0 1 1 1 "\<lambda>_ _. 0" "\<lambda>_ _. 0" demo_peer True 5] by (simp add: Let_def)
qed

section \<open>Audit of the rejections\<close>

definition gate_pending :: "gate \<Rightarrow> nat" where
  "gate_pending g = sum_list (map (\<lambda>r. suppressed (gate_windows g r)) all_reject_reasons)"

fun handshake_weight :: "handshake_record \<Rightarrow> nat" where
  "handshake_weight (HandshakeRejected _ _) = 1"
| "handshake_weight (HandshakeRejectedSummary _ n) = n"

definition gate_reject :: "reject_reason \<times> socket_addr \<times> nat \<Rightarrow> gate \<Rightarrow> gate \<times> handshake_record list" where
  "gate_reject = (\<lambda>(r, peer, now). gate_record_rejection r peer now)"

lemma gate_reject_accounts:
  assumes "gate_pending g < U32_MAX" "gate_record_rejection r peer now g = (g', as)"
  shows "gate_pending g' + sum_list (map handshake_weight as) = gate_pending g + 1"
proof -
  obtain w c line where n: "note_rejection now (gate_windows g r) = (w, c, line)" by (metis prod_cases3)
  have le: "suppressed (gate_windows g r) < U32_MAX"
    using assms(1) by (cases r) (simp_all add: gate_pending_def all_reject_reasons_def)
  have "gate_pending g' + suppressed (gate_windows g r) = gate_pending g + suppressed w"
    using assms(2) n by (cases r) (auto simp: gate_record_rejection_def gate_pending_def all_reject_reasons_def)
  moreover have "sum_list (map handshake_weight as) = count_of c + (if line then 1 else 0)"
    using assms(2) n by (auto simp: gate_record_rejection_def count_of_def note_rejection_def split: option.splits if_splits)
  ultimately show ?thesis using note_rejection_accounts [OF n le] by linarith
qed

lemma gate_flush_accounts:
  assumes "gate_flush_expired now g = (g', as)"
  shows "gate_pending g' + sum_list (map handshake_weight as) = gate_pending g"
proof -
  have one: "suppressed (fst (close_window now w)) + count_of (snd (close_window now w)) = suppressed w" for w
    using close_window_accounts [of now w] by (metis prod.collapse)
  have line: "sum_list (map handshake_weight (case c of Some n \<Rightarrow> [HandshakeRejectedSummary x n] | None \<Rightarrow> [])) = count_of c" for c x
    by (simp add: count_of_def split: option.split)
  show ?thesis
    using assms one [of "gate_windows g RateLimited"] one [of "gate_windows g AtCapacity"]
      one [of "gate_windows g ValidatedRateLimited"]
    by (auto simp: gate_flush_expired_def gate_pending_def all_reject_reasons_def line)
qed

interpretation gate_audit: audited gate_reject gate_flush_expired gate_pending handshake_weight "\<lambda>_. True"
  by unfold_locales (auto simp: gate_reject_def dest: gate_reject_accounts gate_flush_accounts)

text \<open>The lines decisions and flushes hand to the audit sink, and the decisions themselves.\<close>

fun decision_records :: "decision \<Rightarrow> handshake_record list" where
  "decision_records (Ignore _ as) = as"
| "decision_records (Refuse _ as) = as"
| "decision_records _ = []"

fun is_rejection :: "decision \<Rightarrow> bool" where
  "is_rejection (Ignore _ _) = True"
| "is_rejection (Refuse _ _) = True"
| "is_rejection _ = False"

fun gate_log :: "gate_event list \<Rightarrow> gate \<Rightarrow> gate \<times> decision list \<times> handshake_record list" where
  "gate_log [] g = (g, [], [])"
| "gate_log (GDecide peer v now # evs) g =
     (let (g1, d) = decide peer v now g; (g2, ds, as) = gate_log evs g1
      in (g2, d # ds, decision_records d @ as))"
| "gate_log (GDropPermit # evs) g = gate_log evs (drop_handshake_permit g)"
| "gate_log (GFlush now # evs) g =
     (let (g1, as) = gate_flush_expired now g; (g2, ds, bs) = gate_log evs g1 in (g2, ds, as @ bs))"

lemma gate_pending_simps [simp]:
  "gate_pending (count_retry g) = gate_pending g" "gate_pending (count_ignore g) = gate_pending g"
  "gate_pending (count_refuse g) = gate_pending g" "gate_pending (count_admit g) = gate_pending g"
  "gate_pending (g\<lparr>unvalidated_sketch := sk\<rparr>) = gate_pending g" "gate_pending (g\<lparr>validated_sketch := sk\<rparr>) = gate_pending g"
  "gate_pending (g\<lparr>handshake_permits := n\<rparr>) = gate_pending g" "gate_pending (drop_handshake_permit g) = gate_pending g"
  by (simp_all add: gate_pending_def drop_handshake_permit_def)

lemma decide_accounts:
  assumes "gate_pending g < U32_MAX" "decide peer v now g = (g', d)"
  shows "gate_pending g' + sum_list (map handshake_weight (decision_records d)) = gate_pending g + (if is_rejection d then 1 else 0)"
proof -
  have a: "gate_pending (fst (gate_record_rejection r peer now g1)) + sum_list (map handshake_weight (snd (gate_record_rejection r peer now g1)))
      = gate_pending g1 + 1" if "gate_pending g1 = gate_pending g" for r g1
    using gate_reject_accounts [of g1 r peer now "fst (gate_record_rejection r peer now g1)" "snd (gate_record_rejection r peer now g1)"]
      assms(1) that by simp
  show ?thesis
    using assms(2) a [of "g\<lparr>unvalidated_sketch := _\<rparr>"] a [of "g\<lparr>validated_sketch := _\<rparr>"]
    by (auto simp: decide_def Let_def case_prod_unfold split: if_splits)
qed

text \<open>
  No rejected handshake is lost from the audit: over any sequence of decisions, permit drops and
  flushes, with at most 2^32 - 1 of them, the decisions that rejected stand exactly for the lines handed
  to the sink (a first line counts one, a summary its count) plus the counts still pending.
\<close>

theorem admission_audit_complete:
  assumes "gate_log evs (gate_new org m r vr hs hs') = (g, ds, as)" and "length evs \<le> U32_MAX"
  shows "sum_list (map handshake_weight as) + gate_pending g = length (filter is_rejection ds)"
proof -
  have "gate_log evs g0 = (g, ds, as) \<Longrightarrow> gate_pending g0 + length evs \<le> U32_MAX \<Longrightarrow>
      sum_list (map handshake_weight as) + gate_pending g = gate_pending g0 + length (filter is_rejection ds)" for g0
  proof (induction evs arbitrary: g0 ds as)
    case (Cons ev evs)
    show ?case
    proof (cases ev)
      case (GDecide peer v now)
      obtain g1 d where d: "decide peer v now g0 = (g1, d)" by fastforce
      obtain ds' as' where l: "gate_log evs g1 = (g, ds', as')" and eq: "ds = d # ds'" "as = decision_records d @ as'"
        using Cons.prems(1) d by (auto simp: GDecide split: prod.splits)
      have "gate_pending g0 < U32_MAX" using Cons.prems(2) by simp
      from decide_accounts [OF this d] have acc: "gate_pending g1 + sum_list (map handshake_weight (decision_records d))
          = gate_pending g0 + (if is_rejection d then 1 else 0)" .
      then have "gate_pending g1 + length evs \<le> U32_MAX" using Cons.prems(2) by (simp split: if_splits)
      from Cons.IH [OF l this] acc show ?thesis by (simp add: eq) (simp split: if_splits)
    next
      case (GFlush now)
      obtain g1 as1 where f: "gate_flush_expired now g0 = (g1, as1)" by fastforce
      obtain bs where l: "gate_log evs g1 = (g, ds, bs)" and eq: "as = as1 @ bs"
        using Cons.prems(1) f by (auto simp: GFlush split: prod.splits)
      have acc: "gate_pending g1 + sum_list (map handshake_weight as1) = gate_pending g0"
        using gate_audit.flush_accounts [OF TrueI f] .
      from Cons.IH [OF l] acc Cons.prems(2) show ?thesis by (simp add: eq)
    qed (use Cons in auto)
  qed simp
  from this [OF assms(1)] assms(2) show ?thesis
    by (simp add: gate_pending_def gate_new_def window_default_def all_reject_reasons_def)
qed

theorem admission_audit_complete_witness:
  "\<exists>g ds as. gate_log [demo_attempt 1, demo_attempt 2, GFlush 9] (gate_new 0 1 0 1 (\<lambda>_ _. 0) (\<lambda>_ _. 0)) = (g, ds, as) \<and>
     sum_list (map handshake_weight as) + gate_pending g = length (filter is_rejection ds)"
proof -
  obtain g ds as where "gate_log [demo_attempt 1, demo_attempt 2, GFlush 9] (gate_new 0 1 0 1 (\<lambda>_ _. 0) (\<lambda>_ _. 0)) = (g, ds, as)"
    by (metis prod_cases3)
  with admission_audit_complete [OF this] show ?thesis by (auto simp: U32_MAX_def)
qed

section \<open>Source keys\<close>

lemma prefix64_bits:
  fixes a b c d :: "16 word"
  defines "p \<equiv> push_bit 48 (ucast a) OR push_bit 32 (ucast b) OR push_bit 16 (ucast c) OR ucast d :: 64 word"
  shows "ucast (drop_bit 48 p) = a" "ucast (drop_bit 32 p) = b" "ucast (drop_bit 16 p) = c" "ucast p = d"
  unfolding p_def
  by (rule bit_word_eqI; auto simp: bit_simps dest: bit_imp_le_length)+

lemma prefix64_inj:
  fixes a b c d :: "16 word"
  shows "push_bit 48 (ucast a) OR push_bit 32 (ucast b) OR push_bit 16 (ucast c) OR ucast d
       = (push_bit 48 (ucast a') OR push_bit 32 (ucast b') OR push_bit 16 (ucast c') OR ucast d' :: 64 word)
     \<longleftrightarrow> a = a' \<and> b = b' \<and> c = c' \<and> d = d'"
  using prefix64_bits [of a b c d] prefix64_bits [of a' b' c' d'] by metis

fun prefix_of :: "ip_addr \<Rightarrow> (32 word, 16 word list) sum" where
  "prefix_of (Ipv4 a) = Inl a"
| "prefix_of (Ipv6 a b c d _ _ _ _) = Inr [a, b, c, d]"

text \<open>
  Sources are told apart exactly by their IPv4 address or their IPv6 /64 prefix, an IPv4-mapped
  IPv6 address counting as the IPv4 address it maps: no two prefixes share a budget through their
  key, and no two addresses of one /64 have budgets of their own.
\<close>

theorem admission_source_keys:
  "source_key_from_addr x = source_key_from_addr y \<longleftrightarrow> prefix_of (to_canonical x) = prefix_of (to_canonical y)"
  by (cases "to_canonical x"; cases "to_canonical y") (simp_all add: source_key_from_addr_def prefix64_inj)

end
