(* ===== verification/Error_Codes.thy ===== *)
theory Error_Codes
  imports Qsh_Prelude
begin

text \<open>
  The error vocabulary of the wire and of the JSON envelope (\<open>qsh-proto/src/error.rs\<close>) and the operation
  error built on it (\<open>qsh-core/src/ops/mod.rs\<close>, \<open>OpError\<close>). The \<open>details\<close> payload of an operation
  error is left out: none of the modelled callers sets it.
\<close>

datatype error_code =
    InvalidArgument | ConfigError | HostNotFound | ConnectionFailed | AuthFailed | TrustRequired
  | PermissionDenied | SessionNotFound | SessionConflict | ResumeGap | Timeout | Canceled
  | RemoteError | Unsupported | ResourceExhausted | Internal | Unknown string

definition KNOWN :: "error_code list" where
  "KNOWN = [InvalidArgument, ConfigError, HostNotFound, ConnectionFailed, AuthFailed, TrustRequired,
     PermissionDenied, SessionNotFound, SessionConflict, ResumeGap, Timeout, Canceled,
     RemoteError, Unsupported, ResourceExhausted, Internal]"

fun error_code_str :: "error_code \<Rightarrow> string" where
  "error_code_str InvalidArgument = ''INVALID_ARGUMENT''"
| "error_code_str ConfigError = ''CONFIG_ERROR''"
| "error_code_str HostNotFound = ''HOST_NOT_FOUND''"
| "error_code_str ConnectionFailed = ''CONNECTION_FAILED''"
| "error_code_str AuthFailed = ''AUTH_FAILED''"
| "error_code_str TrustRequired = ''TRUST_REQUIRED''"
| "error_code_str PermissionDenied = ''PERMISSION_DENIED''"
| "error_code_str SessionNotFound = ''SESSION_NOT_FOUND''"
| "error_code_str SessionConflict = ''SESSION_CONFLICT''"
| "error_code_str ResumeGap = ''RESUME_GAP''"
| "error_code_str Timeout = ''TIMEOUT''"
| "error_code_str Canceled = ''CANCELED''"
| "error_code_str RemoteError = ''REMOTE_ERROR''"
| "error_code_str Unsupported = ''UNSUPPORTED''"
| "error_code_str ResourceExhausted = ''RESOURCE_EXHAUSTED''"
| "error_code_str Internal = ''INTERNAL''"
| "error_code_str (Unknown raw) = raw"

definition error_code_from_str :: "string \<Rightarrow> error_code" where
  "error_code_from_str s =
     (if s = ''INVALID_ARGUMENT'' then InvalidArgument
      else if s = ''CONFIG_ERROR'' then ConfigError
      else if s = ''HOST_NOT_FOUND'' then HostNotFound
      else if s = ''CONNECTION_FAILED'' then ConnectionFailed
      else if s = ''AUTH_FAILED'' then AuthFailed
      else if s = ''TRUST_REQUIRED'' then TrustRequired
      else if s = ''PERMISSION_DENIED'' then PermissionDenied
      else if s = ''SESSION_NOT_FOUND'' then SessionNotFound
      else if s = ''SESSION_CONFLICT'' then SessionConflict
      else if s = ''RESUME_GAP'' then ResumeGap
      else if s = ''TIMEOUT'' then Timeout
      else if s = ''CANCELED'' then Canceled
      else if s = ''REMOTE_ERROR'' then RemoteError
      else if s = ''UNSUPPORTED'' then Unsupported
      else if s = ''RESOURCE_EXHAUSTED'' then ResourceExhausted
      else if s = ''INTERNAL'' then Internal
      else Unknown s)"

definition default_retryable :: "error_code \<Rightarrow> bool" where
  "default_retryable c \<longleftrightarrow> c \<in> {ConnectionFailed, ResumeGap, Timeout, ResourceExhausted}"

record op_error =
  err_code :: error_code
  err_message :: string
  err_retryable :: bool

definition op_error_new :: "error_code \<Rightarrow> string \<Rightarrow> op_error" where
  "op_error_new c msg = \<lparr>err_code = c, err_message = msg, err_retryable = default_retryable c\<rparr>"

definition with_retryable :: "op_error \<Rightarrow> bool \<Rightarrow> op_error" where
  "with_retryable e b = e\<lparr>err_retryable := b\<rparr>"

lemma error_code_str_from [simp]: "error_code_str (error_code_from_str s) = s"
  by (simp add: error_code_from_str_def)

lemma error_code_from_known [simp]: "c \<in> set KNOWN \<Longrightarrow> error_code_from_str (error_code_str c) = c"
  by (auto simp: KNOWN_def error_code_from_str_def)

interpretation error_codec: codec error_code_str "\<lambda>s. (Inr (error_code_from_str s) :: unit + error_code)" "\<lambda>c. c \<in> set KNOWN"
  by unfold_locales simp

end
