(* ===== verification/Acl_Policy.thy ===== *)
theory Acl_Policy
  imports Error_Codes
begin

text \<open>
  The policy evaluator (\<open>qsh-core/src/acl/policy.rs\<close>, \<open>acl/mod.rs\<close>, \<open>acl/roles.rs\<close>, \<open>acl/paths.rs\<close>,
  \<open>acl/punch.rs\<close>, \<open>trust/role.rs\<close>): the action vocabulary, the role table, the rows of \<open>acl.toml\<close>, the
  evaluation order (always-deny gate, role, pin grant, rows) and the authorizers around it. The
  path normaliser of a file request is a value of the request, as in the source. Paths are the
  list of their components and are compared exactly, as on every build but the Windows one. A
  fingerprint principal carries its canonical text.
\<close>

section \<open>Vocabulary\<close>

datatype action =
    ExecRun | SessionOpen | SessionList | SessionAttach | SessionControl | HostReverse
  | ForwardLocal | ForwardRemote | ForwardSocks | FileRead | FileWrite | HostPunch

definition all_actions :: "action list" where
  "all_actions = [ExecRun, SessionOpen, SessionList, SessionAttach, SessionControl, HostReverse,
     ForwardLocal, ForwardRemote, ForwardSocks, FileRead, FileWrite, HostPunch]"

fun action_str :: "action \<Rightarrow> string" where
  "action_str ExecRun = ''exec.run''"
| "action_str SessionOpen = ''session.open''"
| "action_str SessionList = ''session.list''"
| "action_str SessionAttach = ''session.attach''"
| "action_str SessionControl = ''session.control''"
| "action_str HostReverse = ''host.reverse''"
| "action_str ForwardLocal = ''forward.local''"
| "action_str ForwardRemote = ''forward.remote''"
| "action_str ForwardSocks = ''forward.socks''"
| "action_str FileRead = ''file.read''"
| "action_str FileWrite = ''file.write''"
| "action_str HostPunch = ''host.punch''"

definition is_always_denied :: "action \<Rightarrow> bool" where
  "is_always_denied a \<longleftrightarrow> a = ForwardSocks"

definition is_file :: "action \<Rightarrow> bool" where
  "is_file a \<longleftrightarrow> a = FileRead \<or> a = FileWrite"

definition action_from_str :: "string \<Rightarrow> string + action" where
  "action_from_str s = (case find (\<lambda>a. action_str a = s) all_actions of Some a \<Rightarrow> Inr a | None \<Rightarrow> Inl s)"

datatype acl_decision = Allow | Deny

datatype auth_path = PinPath | CaPath | PairingPath

datatype principal = Device string | User string | FingerprintOnly string | Pairing

fun principal_str :: "principal \<Rightarrow> string" where
  "principal_str (Device n) = ''device:'' @ n"
| "principal_str (User n) = ''user:'' @ n"
| "principal_str (FingerprintOnly f) = ''fp:'' @ f"
| "principal_str Pairing = ''pairing''"

fun auth_path_debug :: "auth_path \<Rightarrow> string" where
  "auth_path_debug PinPath = ''Pin''"
| "auth_path_debug CaPath = ''Ca''"
| "auth_path_debug PairingPath = ''Pairing''"

definition opener_key :: "principal \<Rightarrow> auth_path \<Rightarrow> string" where
  "opener_key p ap = auth_path_debug ap @ '':'' @ principal_str p"

section \<open>Roles\<close>

datatype trust_role = Full | Exec | Tunnel | ReadOnly | Reverse | NoneRole

definition all_roles :: "trust_role list" where
  "all_roles = [Full, Exec, Tunnel, ReadOnly, Reverse, NoneRole]"

fun role_str :: "trust_role \<Rightarrow> string" where
  "role_str Full = ''full''"
| "role_str Exec = ''exec''"
| "role_str Tunnel = ''tunnel''"
| "role_str ReadOnly = ''read-only''"
| "role_str Reverse = ''reverse''"
| "role_str NoneRole = ''none''"

definition role_from_str :: "string \<Rightarrow> string + trust_role" where
  "role_from_str s = (case find (\<lambda>r. role_str r = s) all_roles of Some r \<Rightarrow> Inr r | None \<Rightarrow> Inl s)"

definition default_for_trust_add :: "bool \<Rightarrow> trust_role" where
  "default_for_trust_add address_given = (if address_given then NoneRole else Full)"

datatype role_scope = RAny | ROwned | RNotApplicable

record role_row =
  row_role :: trust_role
  row_actions :: "action list"
  row_scope :: role_scope

definition ROLE_GRANTS :: "role_row list" where
  "ROLE_GRANTS =
     [\<lparr>row_role = Full,
       row_actions = [ExecRun, SessionOpen, SessionList, SessionAttach, SessionControl, ForwardLocal,
         ForwardRemote, FileRead, FileWrite, HostReverse, HostPunch],
       row_scope = RAny\<rparr>,
      \<lparr>row_role = Exec,
       row_actions = [ExecRun, SessionOpen, SessionList, SessionAttach, SessionControl, HostPunch],
       row_scope = RAny\<rparr>,
      \<lparr>row_role = Tunnel, row_actions = [ForwardLocal, ForwardRemote, HostPunch], row_scope = ROwned\<rparr>,
      \<lparr>row_role = ReadOnly, row_actions = [SessionList, SessionAttach, HostPunch], row_scope = RAny\<rparr>,
      \<lparr>row_role = Reverse, row_actions = [HostReverse, HostPunch], row_scope = RNotApplicable\<rparr>,
      \<lparr>row_role = NoneRole, row_actions = [], row_scope = RNotApplicable\<rparr>]"

text \<open>\<open>None\<close> would be the panic of a role without a row.\<close>

definition role_grant :: "trust_role \<Rightarrow> role_row option" where
  "role_grant r = find (\<lambda>row. row_role row = r) ROLE_GRANTS"

section \<open>Rows, standings, requests\<close>

datatype acl_scope = Owned | Any

text \<open>\<open>None\<close> is the failed assertion of the constructor.\<close>

definition family_prefix_new :: "string \<Rightarrow> string option" where
  "family_prefix_new p = (if ends_with ''.'' p \<and> length p > 1 then Some p else None)"

datatype action_pattern = Exact action | Prefix string

fun pattern_matches :: "action_pattern \<Rightarrow> action \<Rightarrow> bool" where
  "pattern_matches (Exact a) b = (a = b)"
| "pattern_matches (Prefix p) b = starts_with p (action_str b)"

fun pattern_render :: "action_pattern \<Rightarrow> string" where
  "pattern_render (Exact a) = action_str a"
| "pattern_render (Prefix p) = p @ ''*''"

record rule =
  rule_principal :: string
  rule_auth_path :: auth_path
  rule_allow :: "action_pattern list"
  rule_scope :: acl_scope
  rule_paths :: "string list option"

definition names_file_action :: "rule \<Rightarrow> bool" where
  "names_file_action r \<longleftrightarrow>
     list_ex (\<lambda>p. list_ex (\<lambda>a. is_file a \<and> pattern_matches p a) all_actions) (rule_allow r)"

definition is_file_only :: "rule \<Rightarrow> bool" where
  "is_file_only r \<longleftrightarrow>
     list_all (\<lambda>p. list_all is_file (filter (pattern_matches p) all_actions)) (rule_allow r)"

record verdict =
  v_decision :: acl_decision
  v_rule :: "nat option"
  v_role :: "trust_role option"
  v_pin_grant :: bool

datatype grant_basis = ByRule nat | ByRole trust_role | ByPinGrant

definition DENY :: verdict where
  "DENY = \<lparr>v_decision = Deny, v_rule = None, v_role = None, v_pin_grant = False\<rparr>"

definition ALLOW_UNBASED :: verdict where
  "ALLOW_UNBASED = \<lparr>v_decision = Allow, v_rule = None, v_role = None, v_pin_grant = False\<rparr>"

definition is_allow :: "verdict \<Rightarrow> bool" where
  "is_allow v \<longleftrightarrow> v_decision v = Allow"

definition granted_by :: "verdict \<Rightarrow> grant_basis option" where
  "granted_by v =
     (if \<not> is_allow v then None
      else case (v_role v, v_pin_grant v, v_rule v) of
             (Some r, _, _) \<Rightarrow> Some (ByRole r)
           | (None, True, _) \<Rightarrow> Some ByPinGrant
           | (None, False, Some i) \<Rightarrow> Some (ByRule i)
           | (None, False, None) \<Rightarrow> None)"

record pin_grants =
  pg_actions :: "action list"
  pg_paths :: "string list option"
  pg_scope :: acl_scope

record standing =
  st_role :: "trust_role option"
  st_pin :: "pin_grants option"

definition standing_default :: standing where
  "standing_default = \<lparr>st_role = None, st_pin = None\<rparr>"

type_synonym path = "string list"

record canonical_path =
  cp_path :: path
  cp_normalize :: "string \<Rightarrow> path option"

record resource_ref =
  res_id :: string
  res_owner :: "string option"
  res_path :: "canonical_path option"

definition unowned :: "string \<Rightarrow> resource_ref" where
  "unowned i = \<lparr>res_id = i, res_owner = None, res_path = None\<rparr>"

definition with_canonical_path :: "resource_ref \<Rightarrow> path \<Rightarrow> (string \<Rightarrow> path option) \<Rightarrow> resource_ref" where
  "with_canonical_path res p n = res\<lparr>res_path := Some \<lparr>cp_path = p, cp_normalize = n\<rparr>\<rparr>"

record requester =
  req_principal :: principal
  req_auth_path :: auth_path
  req_fingerprint :: "bytes option"

section \<open>Path matching\<close>

fun is_under :: "path \<Rightarrow> path \<Rightarrow> bool" where
  "is_under ps [] = True"
| "is_under [] (r # rs) = False"
| "is_under (p # ps) (r # rs) = (p = r \<and> is_under ps rs)"

definition path_within :: "path \<Rightarrow> path \<Rightarrow> bool" where
  "path_within p root = is_under p root"

definition entries_cover :: "string list \<Rightarrow> canonical_path \<Rightarrow> bool" where
  "entries_cover entries req \<longleftrightarrow>
     list_ex (\<lambda>e. case cp_normalize req e of Some root \<Rightarrow> path_within (cp_path req) root | None \<Rightarrow> False) entries"

section \<open>Evaluation\<close>

definition rule_selects :: "rule \<Rightarrow> string \<Rightarrow> auth_path \<Rightarrow> bool" where
  "rule_selects r p ap \<longleftrightarrow> rule_principal r = p \<and> rule_auth_path r = ap"

definition rule_covers :: "rule \<Rightarrow> action \<Rightarrow> bool" where
  "rule_covers r a \<longleftrightarrow> list_ex (\<lambda>p. pattern_matches p a) (rule_allow r)"

definition rule_covers_path :: "rule \<Rightarrow> resource_ref \<Rightarrow> bool" where
  "rule_covers_path r res =
     (case (rule_paths r, res_path res) of (Some es, Some req) \<Rightarrow> entries_cover es req | _ \<Rightarrow> False)"

definition is_device :: "principal \<Rightarrow> bool" where
  "is_device p = (case p of Device _ \<Rightarrow> True | _ \<Rightarrow> False)"

definition role_covers :: "principal \<Rightarrow> auth_path \<Rightarrow> trust_role \<Rightarrow> action \<Rightarrow> bool" where
  "role_covers p ap r a \<longleftrightarrow> ap = PinPath \<and> is_device p \<and>
     (case role_grant r of Some row \<Rightarrow> a \<in> set (row_actions row) | None \<Rightarrow> False)"

definition pin_covers :: "principal \<Rightarrow> auth_path \<Rightarrow> pin_grants \<Rightarrow> action \<Rightarrow> bool" where
  "pin_covers p ap pin a \<longleftrightarrow> ap = PinPath \<and> is_device p \<and> \<not> is_always_denied a \<and> a \<in> set (pg_actions pin)"

definition pin_covers_path :: "pin_grants \<Rightarrow> resource_ref \<Rightarrow> bool" where
  "pin_covers_path pin res =
     (case (pg_paths pin, res_path res) of (Some es, Some req) \<Rightarrow> entries_cover es req | _ \<Rightarrow> False)"

definition role_scope_ok :: "trust_role \<Rightarrow> principal \<Rightarrow> auth_path \<Rightarrow> resource_ref \<Rightarrow> bool" where
  "role_scope_ok r p ap res =
     (case (map_option row_scope (role_grant r), res_owner res) of
        (Some ROwned, Some owner) \<Rightarrow> owner = opener_key p ap
      | _ \<Rightarrow> True)"

definition scope_ok :: "acl_scope \<Rightarrow> principal \<Rightarrow> auth_path \<Rightarrow> resource_ref \<Rightarrow> bool" where
  "scope_ok sc p ap res =
     (case (sc, res_owner res) of
        (Owned, Some owner) \<Rightarrow> owner = opener_key p ap
      | _ \<Rightarrow> True)"

text \<open>The loop over the rows: the index of the first row that passes every step.\<close>

fun first_row :: "rule list \<Rightarrow> nat \<Rightarrow> principal \<Rightarrow> auth_path \<Rightarrow> action \<Rightarrow> resource_ref \<Rightarrow> nat option" where
  "first_row [] i p ap a res = None"
| "first_row (r # rs) i p ap a res =
     (if \<not> rule_selects r (principal_str p) ap then first_row rs (Suc i) p ap a res
      else if \<not> rule_covers r a then first_row rs (Suc i) p ap a res
      else if is_file a \<and> \<not> rule_covers_path r res then first_row rs (Suc i) p ap a res
      else if \<not> scope_ok (rule_scope r) p ap res then first_row rs (Suc i) p ap a res
      else Some i)"

definition role_stage :: "principal \<Rightarrow> auth_path \<Rightarrow> standing \<Rightarrow> action \<Rightarrow> resource_ref \<Rightarrow> trust_role option" where
  "role_stage p ap st a res =
     (case st_role st of
        Some r \<Rightarrow> (if role_covers p ap r a \<and> role_scope_ok r p ap res then Some r else None)
      | None \<Rightarrow> None)"

definition pin_stage :: "principal \<Rightarrow> auth_path \<Rightarrow> standing \<Rightarrow> action \<Rightarrow> resource_ref \<Rightarrow> bool" where
  "pin_stage p ap st a res =
     (case st_pin st of
        Some pin \<Rightarrow> pin_covers p ap pin a \<and> scope_ok (pg_scope pin) p ap res
                     \<and> (\<not> is_file a \<or> pin_covers_path pin res)
      | None \<Rightarrow> False)"

definition decide_standing :: "rule list \<Rightarrow> principal \<Rightarrow> auth_path \<Rightarrow> standing \<Rightarrow> action \<Rightarrow> resource_ref \<Rightarrow> verdict" where
  "decide_standing rules p ap st a res =
     (if is_always_denied a then DENY
      else case role_stage p ap st a res of
             Some r \<Rightarrow> \<lparr>v_decision = Allow, v_rule = None, v_role = Some r, v_pin_grant = False\<rparr>
           | None \<Rightarrow>
               (if pin_stage p ap st a res
                then \<lparr>v_decision = Allow, v_rule = None, v_role = None, v_pin_grant = True\<rparr>
                else case first_row rules 0 p ap a res of
                       Some i \<Rightarrow> \<lparr>v_decision = Allow, v_rule = Some i, v_role = None, v_pin_grant = False\<rparr>
                     | None \<Rightarrow> DENY))"

definition file_grant_basis :: "rule list \<Rightarrow> principal \<Rightarrow> auth_path \<Rightarrow> standing \<Rightarrow> action \<Rightarrow> bool" where
  "file_grant_basis rules p ap st a =
     (if (case st_role st of Some r \<Rightarrow> role_covers p ap r a | None \<Rightarrow> False) then True
      else if (case st_pin st of Some pin \<Rightarrow> pin_covers p ap pin a | None \<Rightarrow> False) then True
      else list_ex (\<lambda>r. rule_selects r (principal_str p) ap \<and> rule_covers r a \<and> rule_paths r \<noteq> None) rules)"

definition check_with_standing :: "rule list \<Rightarrow> requester \<Rightarrow> standing \<Rightarrow> action \<Rightarrow> resource_ref \<Rightarrow> verdict" where
  "check_with_standing rules rq st a res = decide_standing rules (req_principal rq) (req_auth_path rq) st a res"

definition effective_actions :: "rule list \<Rightarrow> principal \<Rightarrow> auth_path \<Rightarrow> standing \<Rightarrow> action list" where
  "effective_actions rules p ap st =
     filter (\<lambda>a. if is_file a then file_grant_basis rules p ap st a
                 else is_allow (decide_standing rules p ap st a (unowned ''''))) all_actions"

definition matching_rules :: "rule list \<Rightarrow> principal \<Rightarrow> auth_path \<Rightarrow> (nat \<times> rule) list" where
  "matching_rules rules p ap =
     filter (\<lambda>(i, r). rule_selects r (principal_str p) ap \<and> list_ex (rule_covers r) all_actions)
       (enumerate 0 rules)"

section \<open>Authorizers\<close>

record authorizer =
  check :: "requester \<Rightarrow> action \<Rightarrow> resource_ref \<Rightarrow> verdict"
  has_file_grant :: "requester \<Rightarrow> action \<Rightarrow> bool"

definition policy_authorizer :: "rule list \<Rightarrow> authorizer" where
  "policy_authorizer rules =
     \<lparr>check = (\<lambda>rq. check_with_standing rules rq standing_default),
      has_file_grant = (\<lambda>rq. file_grant_basis rules (req_principal rq) (req_auth_path rq) standing_default)\<rparr>"

text \<open>\<open>resolve\<close> is the trust store's answer at the time of the request.\<close>

definition resolving_authorizer :: "rule list \<Rightarrow> (principal \<Rightarrow> auth_path \<Rightarrow> bytes option \<Rightarrow> standing) \<Rightarrow> authorizer" where
  "resolving_authorizer rules resolve =
     \<lparr>check = (\<lambda>rq. check_with_standing rules rq (resolve (req_principal rq) (req_auth_path rq) (req_fingerprint rq))),
      has_file_grant = (\<lambda>rq a. file_grant_basis rules (req_principal rq) (req_auth_path rq)
        (resolve (req_principal rq) (req_auth_path rq) (req_fingerprint rq)) a)\<rparr>"

definition allow_all_pinned :: authorizer where
  "allow_all_pinned =
     \<lparr>check = (\<lambda>rq a res.
        let pinned = (req_auth_path rq = PinPath);
            owned = (case res_owner res of
                       Some owner \<Rightarrow> owner = opener_key (req_principal rq) (req_auth_path rq) | None \<Rightarrow> True)
        in if pinned \<and> owned then ALLOW_UNBASED else DENY),
      has_file_grant = (\<lambda>_ _. True)\<rparr>"

definition deny_all :: authorizer where
  "deny_all = \<lparr>check = (\<lambda>_ _ _. DENY), has_file_grant = (\<lambda>_ _. False)\<rparr>"

section \<open>Punch signalling\<close>

datatype punch_op = PunchRequest | PunchOffer | PunchRendezvous

definition PUNCH_OPS :: "punch_op list" where
  "PUNCH_OPS = [PunchRequest, PunchOffer, PunchRendezvous]"

fun punch_op_str :: "punch_op \<Rightarrow> string" where
  "punch_op_str PunchRequest = ''punch.request''"
| "punch_op_str PunchOffer = ''punch.offer''"
| "punch_op_str PunchRendezvous = ''punch.rendezvous''"

definition punch_action :: "punch_op \<Rightarrow> action" where
  "punch_action op = HostPunch"

definition PERMISSION_DENIED_MESSAGE :: string where
  "PERMISSION_DENIED_MESSAGE = ''peer is not allowed to perform this operation on this host''"

definition punch_denied :: op_error where
  "punch_denied = with_retryable (op_error_new PermissionDenied PERMISSION_DENIED_MESSAGE) False"

fun decision_str :: "acl_decision \<Rightarrow> string" where
  "decision_str Allow = ''allow''"
| "decision_str Deny = ''deny''"

fun auth_path_str :: "auth_path \<Rightarrow> string" where
  "auth_path_str PinPath = ''pin''"
| "auth_path_str CaPath = ''ca''"
| "auth_path_str PairingPath = ''pairing''"

record audit_record =
  ar_ts :: string
  ar_request_id :: string
  ar_principal :: string
  ar_action :: string
  ar_resource :: string
  ar_decision :: string
  ar_rule :: "nat option"
  ar_auth_path :: string
  ar_peer_addr :: string
  ar_count :: "nat option"
  ar_role :: "string option"
  ar_grant :: "string option"

text \<open>\<open>ts\<close> is the clock's reading, \<open>now_rfc3339\<close>.\<close>

definition punch_signal :: "string \<Rightarrow> principal \<Rightarrow> auth_path \<Rightarrow> string \<Rightarrow> acl_decision \<Rightarrow> nat option \<Rightarrow> audit_record" where
  "punch_signal ts p ap res d r =
     \<lparr>ar_ts = ts, ar_request_id = ''-'', ar_principal = principal_str p, ar_action = action_str HostPunch,
      ar_resource = res, ar_decision = decision_str d, ar_rule = r, ar_auth_path = auth_path_str ap,
      ar_peer_addr = ''-'', ar_count = None, ar_role = None, ar_grant = None\<rparr>"

definition with_verdict_role :: "audit_record \<Rightarrow> trust_role option \<Rightarrow> audit_record" where
  "with_verdict_role rec r = (if r \<noteq> None then rec\<lparr>ar_role := map_option role_str r\<rparr> else rec)"

definition with_verdict_pin_grant :: "audit_record \<Rightarrow> bool \<Rightarrow> audit_record" where
  "with_verdict_pin_grant rec g = (if g then rec\<lparr>ar_grant := Some ''pin''\<rparr> else rec)"

text \<open>
  \<open>sink\<close> is the audit sink's answer, \<open>True\<close> when the record is durable. The result is the record it
  was handed and the decision.
\<close>

definition check_punch ::
    "authorizer \<Rightarrow> (audit_record \<Rightarrow> bool) \<Rightarrow> string \<Rightarrow> punch_op \<Rightarrow> requester \<Rightarrow> audit_record \<times> (op_error + unit)" where
  "check_punch az sink ts op rq =
     (let v = check az rq (punch_action op) (unowned (punch_op_str op));
          rec = with_verdict_pin_grant
                  (with_verdict_role
                     (punch_signal ts (req_principal rq) (req_auth_path rq) (punch_op_str op) (v_decision v) (v_rule v))
                     (v_role v))
                  (v_pin_grant v)
      in (rec, if v_decision v = Allow \<and> sink rec then Inr () else Inl punch_denied))"

end
