(* ===== verification/Acl_Grants.thy ===== *)
theory Acl_Grants
  imports Acl_Policy
begin

text \<open>
  The grants a pin carries (\<open>qsh-core/src/acl/pin_grants.rs\<close>), the grammar of their paths
  (\<open>acl/paths.rs\<close>), and the comparison of what two standings grant that decides whether a change of a
  pin takes access away (\<open>acl/roles.rs\<close>). Strings are their bytes. A failed \<open>expect\<close> of
  \<open>apply_allow\<close> and \<open>apply_deny\<close> is the value \<open>None\<close>.
\<close>

section \<open>The grammar of a path entry\<close>

datatype path_style = Posix | Windows

datatype entry_error =
    NotAbsolute | Backslash | Nul | TooLong | EmptyComponent | DotComponent | TrailingSlash

fun entry_reason :: "entry_error \<Rightarrow> string" where
  "entry_reason NotAbsolute = ''is not an absolute path''"
| "entry_reason Backslash = ''contains a backslash; use `/` separators''"
| "entry_reason Nul = ''contains a NUL byte''"
| "entry_reason TooLong = ''is longer than 4096 bytes''"
| "entry_reason EmptyComponent = ''has an empty path component''"
| "entry_reason DotComponent = ''has a `.` or `..` component''"
| "entry_reason TrailingSlash = ''ends in `/`''"

definition PATH_MAX_BYTES :: nat where
  "PATH_MAX_BYTES = 4096"

definition SLASH :: char where
  "SLASH = CHR ''/''"

definition is_ascii_alphabetic :: "char \<Rightarrow> bool" where
  "is_ascii_alphabetic c \<longleftrightarrow>
     (let n = of_char c :: nat in (65 \<le> n \<and> n \<le> 90) \<or> (97 \<le> n \<and> n \<le> 122))"

definition entry_rest :: "string \<Rightarrow> path_style \<Rightarrow> entry_error + string" where
  "entry_rest entry style =
     (case style of
        Posix \<Rightarrow> (case strip_prefix ''/'' entry of Some r \<Rightarrow> Inr r | None \<Rightarrow> Inl NotAbsolute)
      | Windows \<Rightarrow>
          (if char_of (92 :: nat) \<in> set entry then Inl Backslash
           else if \<not> (length entry \<ge> 3 \<and> is_ascii_alphabetic (entry ! 0) \<and> entry ! 1 = CHR '':'' \<and> entry ! 2 = SLASH)
           then Inl NotAbsolute
           else Inr (drop 3 entry)))"

fun check_components :: "string list \<Rightarrow> entry_error + unit" where
  "check_components [] = Inr ()"
| "check_components (c # cs) =
     (if c = '''' then Inl EmptyComponent
      else if c = ''.'' \<or> c = ''..'' then Inl DotComponent
      else check_components cs)"

definition validate_entry :: "string \<Rightarrow> path_style \<Rightarrow> entry_error + unit" where
  "validate_entry entry style =
     (if length entry > PATH_MAX_BYTES then Inl TooLong
      else if char_of (0 :: nat) \<in> set entry then Inl Nul
      else case entry_rest entry style of
             Inl e \<Rightarrow> Inl e
           | Inr rest \<Rightarrow>
               (if rest = '''' then Inr ()
                else if ends_with ''/'' rest then Inl TrailingSlash
                else check_components (split_on SLASH rest)))"

section \<open>Grants of a pin\<close>

definition MAX_PIN_PATHS :: nat where
  "MAX_PIN_PATHS = 64"

datatype pin_grants_error =
    Socks | UnknownAction | NoAction | FileGrantNeedsPaths | PathsWithoutFileGrant | TooManyPaths
  | BadPath string | BadScope | OrphanKeys

record pin_grant_keys =
  k_grants :: "string list option"
  k_paths :: "string list option"
  k_scope :: "string option"

definition keys_default :: pin_grant_keys where
  "keys_default = \<lparr>k_grants = None, k_paths = None, k_scope = None\<rparr>"

text \<open>The actions one item of the list picks.\<close>

definition expand_item :: "string \<Rightarrow> pin_grants_error + action list" where
  "expand_item item =
     (case strip_suffix ''.*'' item of
        Some stem \<Rightarrow>
          (if stem = '''' then Inl UnknownAction
           else let fam = filter (\<lambda>a. starts_with (stem @ ''.'') (action_str a)) all_actions
                in if fam = [] then Inl UnknownAction
                   else Inr (filter (\<lambda>a. \<not> is_always_denied a) fam))
      | None \<Rightarrow>
          (case action_from_str item of
             Inl _ \<Rightarrow> Inl UnknownAction
           | Inr a \<Rightarrow> (if is_always_denied a then Inl Socks else Inr [a])))"

fun pick_actions :: "string list \<Rightarrow> action list \<Rightarrow> pin_grants_error + action list" where
  "pick_actions [] picked = Inr picked"
| "pick_actions (item # items) picked =
     (case expand_item item of Inl e \<Rightarrow> Inl e | Inr as \<Rightarrow> pick_actions items (picked @ as))"

definition expand_actions :: "string list \<Rightarrow> pin_grants_error + action list" where
  "expand_actions raw =
     (if raw = [] then Inl NoAction
      else case pick_actions raw [] of
             Inl e \<Rightarrow> Inl e
           | Inr picked \<Rightarrow> Inr (filter (\<lambda>a. a \<in> set picked) all_actions))"

definition parse_scope :: "string \<Rightarrow> pin_grants_error + acl_scope" where
  "parse_scope raw =
     (if raw = ''owned'' then Inr Owned else if raw = ''any'' then Inr Any else Inl BadScope)"

fun push_new :: "string list \<Rightarrow> string list \<Rightarrow> string list" where
  "push_new out [] = out"
| "push_new out (e # es) = push_new (if e \<in> set out then out else out @ [e]) es"

fun clean_loop :: "string list \<Rightarrow> string list \<Rightarrow> pin_grants_error + string list" where
  "clean_loop out [] = Inr out"
| "clean_loop out (e # es) =
     (case validate_entry e Posix of
        Inl why \<Rightarrow> Inl (BadPath (entry_reason why))
      | Inr _ \<Rightarrow> clean_loop (if e \<in> set out then out else out @ [e]) es)"

definition clean_paths :: "string list \<Rightarrow> pin_grants_error + string list" where
  "clean_paths raw = (if length raw > MAX_PIN_PATHS then Inl TooManyPaths else clean_loop [] raw)"

definition parse_paths_key :: "bool \<Rightarrow> string list option \<Rightarrow> pin_grants_error + string list option" where
  "parse_paths_key has_file paths =
     (case (has_file, paths) of
        (True, Some (p # ps)) \<Rightarrow> (case clean_paths (p # ps) of Inl e \<Rightarrow> Inl e | Inr out \<Rightarrow> Inr (Some out))
      | (True, _) \<Rightarrow> Inl FileGrantNeedsPaths
      | (False, Some (_ # _)) \<Rightarrow> Inl PathsWithoutFileGrant
      | (False, _) \<Rightarrow> Inr None)"

definition parse_scope_key :: "string option \<Rightarrow> pin_grants_error + acl_scope" where
  "parse_scope_key sc = (case sc of Some w \<Rightarrow> parse_scope w | None \<Rightarrow> Inr Owned)"

definition pin_grants_parse ::
    "string list option \<Rightarrow> string list option \<Rightarrow> string option \<Rightarrow> pin_grants_error + pin_grants option" where
  "pin_grants_parse grants paths sc =
     (case grants of
        Some (g # gs) \<Rightarrow>
          (case expand_actions (g # gs) of
             Inl e \<Rightarrow> Inl e
           | Inr actions \<Rightarrow>
               (case parse_paths_key (list_ex is_file actions) paths of
                  Inl e \<Rightarrow> Inl e
                | Inr ps \<Rightarrow>
                    (case parse_scope_key sc of
                       Inl e \<Rightarrow> Inl e
                     | Inr s \<Rightarrow> Inr (Some \<lparr>pg_actions = actions, pg_paths = ps, pg_scope = s\<rparr>))))
      | _ \<Rightarrow> (if paths \<noteq> None \<or> sc \<noteq> None then Inl OrphanKeys else Inr None))"

definition parse_keys :: "pin_grant_keys \<Rightarrow> pin_grants_error + pin_grants option" where
  "parse_keys k = pin_grants_parse (k_grants k) (k_paths k) (k_scope k)"

definition grant_keys :: "pin_grants \<Rightarrow> pin_grant_keys" where
  "grant_keys g =
     \<lparr>k_grants = Some (map action_str (pg_actions g)), k_paths = pg_paths g,
      k_scope = (case pg_scope g of Owned \<Rightarrow> None | Any \<Rightarrow> Some ''any'')\<rparr>"

definition merged_keys ::
    "string list \<Rightarrow> string list option \<Rightarrow> string option \<Rightarrow> (pin_grants_error + pin_grant_keys) option" where
  "merged_keys names paths sc =
     (case pin_grants_parse (Some names) paths sc of
        Inl e \<Rightarrow> Some (Inl e)
      | Inr (Some g) \<Rightarrow> Some (Inr (grant_keys g))
      | Inr None \<Rightarrow> None)"

definition apply_allow ::
    "pin_grant_keys \<Rightarrow> string list \<Rightarrow> string list \<Rightarrow> string option \<Rightarrow> (pin_grants_error + pin_grant_keys) option" where
  "apply_allow cur actions paths sc =
     (case expand_actions actions of
        Inl e \<Rightarrow> Some (Inl e)
      | Inr added \<Rightarrow>
          (case parse_keys cur of
             Inl e \<Rightarrow> Some (Inl e)
           | Inr existing \<Rightarrow>
               (let names = push_new (case existing of Some g \<Rightarrow> map action_str (pg_actions g) | None \<Rightarrow> [])
                              (map action_str added);
                    merged = push_new (case existing of Some g \<Rightarrow> (case pg_paths g of Some ps \<Rightarrow> ps | None \<Rightarrow> [])
                                                       | None \<Rightarrow> []) paths
                in merged_keys names (if merged = [] then None else Some merged)
                     (case sc of Some w \<Rightarrow> Some w | None \<Rightarrow> k_scope cur))))"

definition apply_deny ::
    "pin_grant_keys \<Rightarrow> string list \<Rightarrow> (pin_grants_error + pin_grant_keys) option" where
  "apply_deny cur actions =
     (case expand_actions actions of
        Inl e \<Rightarrow> Some (Inl e)
      | Inr removed \<Rightarrow>
          (case parse_keys cur of
             Inl e \<Rightarrow> Some (Inl e)
           | Inr None \<Rightarrow> Some (Inr keys_default)
           | Inr (Some existing) \<Rightarrow>
               (let kept = map action_str (filter (\<lambda>a. a \<notin> set removed) (pg_actions existing))
                in if kept = [] then Some (Inr keys_default)
                   else let keeps_file = list_ex (\<lambda>n. n = ''file.read'' \<or> n = ''file.write'') kept
                        in merged_keys kept (if keeps_file then pg_paths existing else None) (k_scope cur))))"

definition entry_within :: "string \<Rightarrow> string \<Rightarrow> bool" where
  "entry_within parent child =
     (if parent = child then True
      else case strip_prefix parent child of
             Some rest \<Rightarrow> ends_with ''/'' parent \<or> starts_with ''/'' rest
           | None \<Rightarrow> False)"

section \<open>What a standing grants\<close>

record role_grants =
  rg_entries :: "(action \<times> role_scope) list"
  rg_file_paths :: "(action \<times> string list) list"

definition role_grants_empty :: role_grants where
  "role_grants_empty = \<lparr>rg_entries = [], rg_file_paths = []\<rparr>"

definition of_role :: "trust_role option \<Rightarrow> role_grants" where
  "of_role r =
     (case Option.bind r role_grant of
        None \<Rightarrow> role_grants_empty
      | Some row \<Rightarrow> \<lparr>rg_entries = map (\<lambda>a. (a, row_scope row)) (row_actions row), rg_file_paths = []\<rparr>)"

definition scope_covers :: "role_scope \<Rightarrow> role_scope \<Rightarrow> bool" where
  "scope_covers new old \<longleftrightarrow> new = RAny \<or> new = old"

text \<open>The update of the first entry for an action, in place.\<close>

fun widen_entry :: "action \<Rightarrow> role_scope \<Rightarrow> (action \<times> role_scope) list \<Rightarrow> (action \<times> role_scope) list option" where
  "widen_entry a axis [] = None"
| "widen_entry a axis ((b, held) # es) =
     (if b = a then Some ((b, if scope_covers held axis then held else axis) # es)
      else map_option (\<lambda>es'. (b, held) # es') (widen_entry a axis es))"

definition add_grant :: "pin_grants \<Rightarrow> role_scope \<Rightarrow> action \<Rightarrow> role_grants \<Rightarrow> role_grants" where
  "add_grant pin axis a g =
     (case widen_entry a axis (rg_entries g) of
        Some es \<Rightarrow> g\<lparr>rg_entries := es\<rparr>
      | None \<Rightarrow>
          g\<lparr>rg_entries := rg_entries g @ [(a, axis)],
            rg_file_paths := (if is_file a
              then rg_file_paths g @ [(a, case pg_paths pin of Some ps \<Rightarrow> ps | None \<Rightarrow> [])]
              else rg_file_paths g)\<rparr>)"

definition of_standing :: "standing \<Rightarrow> role_grants" where
  "of_standing st =
     (case st_pin st of
        None \<Rightarrow> of_role (st_role st)
      | Some pin \<Rightarrow>
          (let axis = (case pg_scope pin of Owned \<Rightarrow> ROwned | Any \<Rightarrow> RAny)
           in fold (add_grant pin axis) (pg_actions pin) (of_role (st_role st))))"

definition paths_of :: "role_grants \<Rightarrow> action \<Rightarrow> string list option" where
  "paths_of g a = map_option snd (find (\<lambda>(b, _). b = a) (rg_file_paths g))"

definition grants_contain :: "role_grants \<Rightarrow> action \<Rightarrow> bool" where
  "grants_contain g a \<longleftrightarrow> list_ex (\<lambda>(b, _). b = a) (rg_entries g)"

definition restricted_to :: "role_grants \<Rightarrow> action list \<Rightarrow> role_grants" where
  "restricted_to g as =
     \<lparr>rg_entries = map (\<lambda>(a, _). (a, RNotApplicable)) (filter (\<lambda>(a, _). a \<in> set as) (rg_entries g)),
      rg_file_paths = filter (\<lambda>(a, _). a \<in> set as) (rg_file_paths g)\<rparr>"

fun paths_cover :: "string list option \<Rightarrow> string list option \<Rightarrow> bool" where
  "paths_cover None _ = True"
| "paths_cover (Some _) None = False"
| "paths_cover (Some new) (Some old) = list_all (\<lambda>e. list_ex (\<lambda>parent. entry_within parent e) new) old"

definition covers :: "role_grants \<Rightarrow> role_grants \<Rightarrow> bool" where
  "covers new recorded \<longleftrightarrow>
     list_all (\<lambda>(a, old).
       list_ex (\<lambda>(b, n). b = a \<and> scope_covers n old) (rg_entries new)
       \<and> paths_cover (paths_of new a) (paths_of recorded a)) (rg_entries recorded)"

definition parse_role :: "string option \<Rightarrow> trust_role option" where
  "parse_role w = Option.bind w (\<lambda>x. case role_from_str x of Inr r \<Rightarrow> Some r | Inl _ \<Rightarrow> None)"

definition role_change_narrows :: "string option \<Rightarrow> string option \<Rightarrow> bool" where
  "role_change_narrows previous new \<longleftrightarrow> \<not> covers (of_role (parse_role new)) (of_role (parse_role previous))"

definition standing_of_keys :: "string option \<Rightarrow> pin_grant_keys \<Rightarrow> standing" where
  "standing_of_keys role k =
     \<lparr>st_role = parse_role role, st_pin = (case parse_keys k of Inr g \<Rightarrow> g | Inl _ \<Rightarrow> None)\<rparr>"

definition pin_grants_change_narrows :: "string option \<Rightarrow> pin_grant_keys \<Rightarrow> pin_grant_keys \<Rightarrow> bool" where
  "pin_grants_change_narrows role previous new \<longleftrightarrow>
     \<not> covers (of_standing (standing_of_keys role new)) (of_standing (standing_of_keys role previous))"

end
