(* ===== verification/Trust_Store.thy ===== *)
theory Trust_Store
  imports Acl_Grants
begin

text \<open>
  The trust store (\<open>qsh-core/src/trust/mod.rs\<close>): its entries and their edits, the validation of the
  file, the standing a pin gives a connection, and \<open>SharedTrustStore\<close>, the view of the file that is
  re-read on every use. The TOML decoder and the parser of a fingerprint's base64 text are
  arguments, \<open>toml\<close> and \<open>fp\<close>. A read of the file is an argument of the call that makes it: \<open>Inl\<close> for an I/O error,
  \<open>Inr None\<close> for a missing file. The parsed CA certificates and the file's time stamp, which decides
  nothing, are left out; a refresh is one step, as its double check under the write lock makes it.
\<close>

section \<open>Entries\<close>

record trust_peer =
  p_name :: string
  p_fingerprint :: string
  p_address :: string
  p_added_at :: string
  p_role :: "string option"
  p_grants :: "string list option"
  p_paths :: "string list option"
  p_scope :: "string option"
  p_source :: "string option"
  p_remote_qsh :: "string option"

record ca_entry =
  ca_name :: string
  ca_pem :: string

record trust_store =
  peers :: "trust_peer list"
  cas :: "ca_entry list"

definition store_default :: trust_store where
  "store_default = \<lparr>peers = [], cas = []\<rparr>"

datatype store_error = BadToml | BadRole string | BadGrants string pin_grants_error

definition peer_keys :: "trust_peer \<Rightarrow> pin_grant_keys" where
  "peer_keys p = \<lparr>k_grants = p_grants p, k_paths = p_paths p, k_scope = p_scope p\<rparr>"

definition bad_role :: "trust_peer \<Rightarrow> bool" where
  "bad_role p = (case p_role p of Some r \<Rightarrow> (case role_from_str r of Inl _ \<Rightarrow> True | Inr _ \<Rightarrow> False) | None \<Rightarrow> False)"

fun first_bad_grants :: "trust_peer list \<Rightarrow> (string \<times> pin_grants_error) option" where
  "first_bad_grants [] = None"
| "first_bad_grants (p # ps) = (case parse_keys (peer_keys p) of Inl e \<Rightarrow> Some (p_name p, e) | Inr _ \<Rightarrow> first_bad_grants ps)"

definition store_parse :: "(string \<Rightarrow> trust_store option) \<Rightarrow> string \<Rightarrow> store_error + trust_store" where
  "store_parse toml text =
     (case toml text of
        None \<Rightarrow> Inl BadToml
      | Some file \<Rightarrow>
          (case find bad_role (peers file) of
             Some p \<Rightarrow> Inl (BadRole (p_name p))
           | None \<Rightarrow>
               (case first_bad_grants (peers file) of
                  Some (n, e) \<Rightarrow> Inl (BadGrants n e)
                | None \<Rightarrow> Inr file)))"

section \<open>Edits\<close>

definition find_peer :: "string \<Rightarrow> trust_store \<Rightarrow> trust_peer option" where
  "find_peer n st = find (\<lambda>p. p_name p = n) (peers st)"

text \<open>The mutation of the first entry a name finds.\<close>

fun update_first :: "string \<Rightarrow> (trust_peer \<Rightarrow> trust_peer) \<Rightarrow> trust_peer list \<Rightarrow> trust_peer list" where
  "update_first n f [] = []"
| "update_first n f (p # ps) = (if p_name p = n then f p # ps else p # update_first n f ps)"

definition update_peer :: "string \<Rightarrow> (trust_peer \<Rightarrow> trust_peer) \<Rightarrow> trust_store \<Rightarrow> trust_store" where
  "update_peer n f st = st\<lparr>peers := update_first n f (peers st)\<rparr>"

definition or_empty :: "string option \<Rightarrow> string" where
  "or_empty a = (case a of Some s \<Rightarrow> s | None \<Rightarrow> [])"

definition add_peer_inner ::
    "string \<Rightarrow> string option \<Rightarrow> string \<Rightarrow> string \<Rightarrow> trust_role option \<Rightarrow> trust_store \<Rightarrow> trust_store \<times> trust_peer \<times> bool \<times> bool" where
  "add_peer_inner n address fingerprint now role st =
     (case find_peer n st of
        Some existing \<Rightarrow>
          (if p_fingerprint existing \<noteq> fingerprint then (st, existing, False, False)
           else case address of
                  None \<Rightarrow> (st, existing, False, False)
                | Some a \<Rightarrow>
                    (if p_address existing = a then (st, existing, False, False)
                     else (update_peer n (\<lambda>p. p\<lparr>p_address := a\<rparr>) st, existing\<lparr>p_address := a\<rparr>, False, True)))
      | None \<Rightarrow>
          (let peer = \<lparr>p_name = n, p_fingerprint = fingerprint, p_address = or_empty address, p_added_at = now,
                 p_role = map_option role_str role, p_grants = None, p_paths = None, p_scope = None, p_source = None,
                 p_remote_qsh = None\<rparr>
           in (st\<lparr>peers := peers st @ [peer]\<rparr>, peer, True, False)))"

definition add_peer :: "string \<Rightarrow> string option \<Rightarrow> string \<Rightarrow> string \<Rightarrow> trust_store \<Rightarrow> trust_store \<times> trust_peer \<times> bool \<times> bool" where
  "add_peer n address fingerprint now st = add_peer_inner n address fingerprint now None st"

definition add_peer_with_role ::
    "string \<Rightarrow> string option \<Rightarrow> string \<Rightarrow> string \<Rightarrow> trust_role \<Rightarrow> trust_store \<Rightarrow> trust_store \<times> trust_peer \<times> bool \<times> bool" where
  "add_peer_with_role n address fingerprint now role st = add_peer_inner n address fingerprint now (Some role) st"

definition set_remote_qsh :: "string \<Rightarrow> string \<Rightarrow> trust_store \<Rightarrow> trust_store \<times> bool" where
  "set_remote_qsh n path st =
     (case find_peer n st of
        Some p \<Rightarrow> (if p_remote_qsh p \<noteq> Some path
                    then (update_peer n (\<lambda>p. p\<lparr>p_remote_qsh := Some path\<rparr>) st, True) else (st, False))
      | None \<Rightarrow> (st, False))"

definition mark_source :: "string \<Rightarrow> string \<Rightarrow> trust_store \<Rightarrow> trust_store \<times> bool" where
  "mark_source n source st =
     (case find_peer n st of
        Some _ \<Rightarrow> (update_peer n (\<lambda>p. p\<lparr>p_source := Some source\<rparr>) st, True)
      | None \<Rightarrow> (st, False))"

fun update_first_ca :: "string \<Rightarrow> string \<Rightarrow> ca_entry list \<Rightarrow> ca_entry list" where
  "update_first_ca n pem [] = []"
| "update_first_ca n pem (c # cs) = (if ca_name c = n then c\<lparr>ca_pem := pem\<rparr> # cs else c # update_first_ca n pem cs)"

definition add_ca :: "string \<Rightarrow> string \<Rightarrow> trust_store \<Rightarrow> trust_store \<times> ca_entry \<times> bool \<times> bool" where
  "add_ca n pem st =
     (case find (\<lambda>c. ca_name c = n) (cas st) of
        Some c \<Rightarrow>
          (if ca_pem c = pem then (st, c, False, False)
           else (st\<lparr>cas := update_first_ca n pem (cas st)\<rparr>, c\<lparr>ca_pem := pem\<rparr>, False, True))
      | None \<Rightarrow> (let entry = \<lparr>ca_name = n, ca_pem = pem\<rparr> in (st\<lparr>cas := cas st @ [entry]\<rparr>, entry, True, False)))"

text \<open>\<open>None\<close> is the refusal of a name that is registered under another certificate.\<close>

definition add_ca_append_only :: "string \<Rightarrow> string \<Rightarrow> trust_store \<Rightarrow> (trust_store \<times> ca_entry \<times> bool \<times> bool) option" where
  "add_ca_append_only n pem st =
     (case find (\<lambda>c. ca_name c = n) (cas st) of
        Some c \<Rightarrow> (if ca_pem c = pem then Some (st, c, False, False) else None)
      | None \<Rightarrow> Some (add_ca n pem st))"

definition remove_name :: "string \<Rightarrow> trust_store \<Rightarrow> trust_store \<times> bool" where
  "remove_name n st =
     (let st' = \<lparr>peers = filter (\<lambda>p. p_name p \<noteq> n) (peers st), cas = filter (\<lambda>c. ca_name c \<noteq> n) (cas st)\<rparr>
      in (st', length (peers st') \<noteq> length (peers st) \<or> length (cas st') \<noteq> length (cas st)))"

datatype rename_error = OldMissing | NewTaken

definition rename_peer :: "string \<Rightarrow> string \<Rightarrow> trust_store \<Rightarrow> trust_store \<times> (rename_error + trust_peer)" where
  "rename_peer old new st =
     (if list_ex (\<lambda>p. p_name p = new) (peers st) \<or> list_ex (\<lambda>c. ca_name c = new) (cas st) then (st, Inl NewTaken)
      else case find_peer old st of
             None \<Rightarrow> (st, Inl OldMissing)
           | Some p \<Rightarrow> (update_peer old (\<lambda>p. p\<lparr>p_name := new, p_source := None\<rparr>) st,
                         Inr (p\<lparr>p_name := new, p_source := None\<rparr>)))"

datatype set_role_error = NotFoundRole

definition set_role ::
    "string \<Rightarrow> trust_role \<Rightarrow> trust_store \<Rightarrow> trust_store \<times> (set_role_error + trust_peer \<times> string option \<times> bool)" where
  "set_role n role st =
     (case find_peer n st of
        None \<Rightarrow> (st, Inl NotFoundRole)
      | Some p \<Rightarrow>
          (let changed = ((case p_role p of Some r \<Rightarrow> r | None \<Rightarrow> role_str NoneRole) \<noteq> role_str role);
               f = (\<lambda>p. if changed then p\<lparr>p_role := Some (role_str role)\<rparr> else p)
           in (update_peer n f st, Inr (f p, p_role p, changed))))"

definition set_grants ::
    "string \<Rightarrow> pin_grant_keys \<Rightarrow> trust_store \<Rightarrow> trust_store \<times> (set_role_error + trust_peer \<times> pin_grant_keys \<times> bool)" where
  "set_grants n keys st =
     (case find_peer n st of
        None \<Rightarrow> (st, Inl NotFoundRole)
      | Some p \<Rightarrow>
          (let changed = (peer_keys p \<noteq> keys);
               f = (\<lambda>p. if changed then p\<lparr>p_grants := k_grants keys, p_paths := k_paths keys, p_scope := k_scope keys\<rparr> else p)
           in (update_peer n f st, Inr (f p, peer_keys p, changed))))"

definition replace_peer ::
    "string \<Rightarrow> string option \<Rightarrow> string \<Rightarrow> string \<Rightarrow> trust_role \<Rightarrow> trust_store \<Rightarrow> trust_store \<times> (trust_peer \<times> trust_peer) option" where
  "replace_peer n address fingerprint now role st =
     (case find_peer n st of
        None \<Rightarrow> (st, None)
      | Some old \<Rightarrow>
          (let f = (\<lambda>old. \<lparr>p_name = n, p_fingerprint = fingerprint, p_address = or_empty address, p_added_at = now,
                 p_role = Some (role_str role), p_grants = None, p_paths = None, p_scope = None, p_source = None,
                 p_remote_qsh = p_remote_qsh old\<rparr>)
           in (update_peer n f st, Some (f old, old))))"

section \<open>Pins and standings\<close>

record pin_role =
  pr_name :: string
  pr_fingerprint :: bytes
  pr_role :: "trust_role option"
  pr_grants :: "pin_grants option"

definition parsed_pins :: "(string \<Rightarrow> bytes option) \<Rightarrow> trust_store \<Rightarrow> (bytes \<times> principal) list" where
  "parsed_pins fp st = List.map_filter (\<lambda>p. map_option (\<lambda>f. (f, Device (p_name p))) (fp (p_fingerprint p))) (peers st)"

definition parsed_pin_roles :: "(string \<Rightarrow> bytes option) \<Rightarrow> trust_store \<Rightarrow> pin_role list" where
  "parsed_pin_roles fp st =
     List.map_filter (\<lambda>p. map_option (\<lambda>f. \<lparr>pr_name = p_name p, pr_fingerprint = f, pr_role = parse_role (p_role p),
        pr_grants = (case parse_keys (peer_keys p) of Inr g \<Rightarrow> g | Inl _ \<Rightarrow> None)\<rparr>) (fp (p_fingerprint p))) (peers st)"

definition role_of_pin :: "pin_role list \<Rightarrow> bool \<Rightarrow> principal \<Rightarrow> auth_path \<Rightarrow> bytes option \<Rightarrow> trust_role option" where
  "role_of_pin pins suspended p ap f =
     (if suspended \<or> ap \<noteq> PinPath then None
      else case (p, f) of
             (Device n, Some k) \<Rightarrow> Option.bind (find (\<lambda>pin. pr_name pin = n \<and> pr_fingerprint pin = k) pins) pr_role
           | _ \<Rightarrow> None)"

definition standing_of_pin :: "pin_role list \<Rightarrow> bool \<Rightarrow> principal \<Rightarrow> auth_path \<Rightarrow> bytes option \<Rightarrow> standing" where
  "standing_of_pin pins suspended p ap f =
     (if suspended \<or> ap \<noteq> PinPath then standing_default
      else case (p, f) of
             (Device n, Some k) \<Rightarrow>
               (case find (\<lambda>pin. pr_name pin = n \<and> pr_fingerprint pin = k) pins of
                  Some pin \<Rightarrow> \<lparr>st_role = pr_role pin, st_pin = pr_grants pin\<rparr>
                | None \<Rightarrow> standing_default)
           | _ \<Rightarrow> standing_default)"

section \<open>The shared view\<close>

record cached =
  c_raw :: "string option"
  c_store :: trust_store
  c_pins :: "(bytes \<times> principal) list"
  c_pin_roles :: "pin_role list"
  c_failed_raw :: "string option option"
  c_read_failed :: bool

record shared_trust_store =
  cache :: cached
  generation :: nat

type_synonym disk = "string + string option"

definition cached_new :: "(string \<Rightarrow> bytes option) \<Rightarrow> string option \<Rightarrow> trust_store \<Rightarrow> cached" where
  "cached_new fp raw st =
     \<lparr>c_raw = raw, c_store = st, c_pins = parsed_pins fp st, c_pin_roles = parsed_pin_roles fp st,
      c_failed_raw = None, c_read_failed = False\<rparr>"

definition roles_suspended :: "cached \<Rightarrow> bool" where
  "roles_suspended c \<longleftrightarrow> c_failed_raw c \<noteq> None \<or> c_read_failed c"

definition parse_raw :: "(string \<Rightarrow> trust_store option) \<Rightarrow> string option \<Rightarrow> store_error + trust_store" where
  "parse_raw toml raw = (case raw of Some text \<Rightarrow> store_parse toml text | None \<Rightarrow> Inr store_default)"

text \<open>\<open>open\<close>; \<open>None\<close> is its error.\<close>

definition open_store :: "(string \<Rightarrow> trust_store option) \<Rightarrow> (string \<Rightarrow> bytes option) \<Rightarrow> disk \<Rightarrow> shared_trust_store option" where
  "open_store toml fp d =
     (case d of
        Inl _ \<Rightarrow> None
      | Inr raw \<Rightarrow>
          (case parse_raw toml raw of
             Inl _ \<Rightarrow> None
           | Inr st \<Rightarrow> Some \<lparr>cache = cached_new fp raw st, generation = 0\<rparr>))"

definition is_current :: "cached \<Rightarrow> string option \<Rightarrow> bool" where
  "is_current c raw =
     (if c_read_failed c then False
      else case c_failed_raw c of Some failed \<Rightarrow> failed = raw | None \<Rightarrow> c_raw c = raw)"

definition refresh ::
    "(string \<Rightarrow> trust_store option) \<Rightarrow> (string \<Rightarrow> bytes option) \<Rightarrow> disk \<Rightarrow> shared_trust_store \<Rightarrow> shared_trust_store" where
  "refresh toml fp d sh =
     (case d of
        Inl _ \<Rightarrow> (if c_read_failed (cache sh) then sh else sh\<lparr>cache := (cache sh)\<lparr>c_read_failed := True\<rparr>\<rparr>)
      | Inr raw \<Rightarrow>
          (if is_current (cache sh) raw then sh
           else let c = (cache sh)\<lparr>c_read_failed := False\<rparr>
                in if c_failed_raw c = None \<and> c_raw c = raw then sh\<lparr>cache := c\<rparr>
                   else case parse_raw toml raw of
                          Inr st \<Rightarrow> sh\<lparr>cache := cached_new fp raw st, generation := generation sh + 1\<rparr>
                        | Inl _ \<Rightarrow> sh\<lparr>cache := c\<lparr>c_failed_raw := Some raw\<rparr>\<rparr>))"

definition structural_exit :: "principal \<Rightarrow> auth_path \<Rightarrow> bytes option \<Rightarrow> bool" where
  "structural_exit p ap f \<longleftrightarrow> ap \<noteq> PinPath \<or> \<not> is_device p \<or> f = None"

definition resolve_role ::
    "(string \<Rightarrow> trust_store option) \<Rightarrow> (string \<Rightarrow> bytes option) \<Rightarrow> disk \<Rightarrow> principal \<Rightarrow> auth_path \<Rightarrow> bytes option
     \<Rightarrow> shared_trust_store \<Rightarrow> shared_trust_store \<times> trust_role option" where
  "resolve_role toml fp d p ap f sh =
     (if structural_exit p ap f then (sh, None)
      else let sh' = refresh toml fp d sh
           in (sh', role_of_pin (c_pin_roles (cache sh')) (roles_suspended (cache sh')) p ap f))"

definition resolve_standing ::
    "(string \<Rightarrow> trust_store option) \<Rightarrow> (string \<Rightarrow> bytes option) \<Rightarrow> disk \<Rightarrow> principal \<Rightarrow> auth_path \<Rightarrow> bytes option
     \<Rightarrow> shared_trust_store \<Rightarrow> shared_trust_store \<times> standing" where
  "resolve_standing toml fp d p ap f sh =
     (if structural_exit p ap f then (sh, standing_default)
      else let sh' = refresh toml fp d sh
           in (sh', standing_of_pin (c_pin_roles (cache sh')) (roles_suspended (cache sh')) p ap f))"

definition role_grants_for ::
    "(string \<Rightarrow> trust_store option) \<Rightarrow> (string \<Rightarrow> bytes option) \<Rightarrow> disk \<Rightarrow> principal \<Rightarrow> auth_path \<Rightarrow> bytes option
     \<Rightarrow> shared_trust_store \<Rightarrow> shared_trust_store \<times> role_grants" where
  "role_grants_for toml fp d p ap f sh = (let (sh', st) = resolve_standing toml fp d p ap f sh in (sh', of_standing st))"

definition lookup_pin ::
    "(string \<Rightarrow> trust_store option) \<Rightarrow> (string \<Rightarrow> bytes option) \<Rightarrow> disk \<Rightarrow> bytes \<Rightarrow> shared_trust_store
     \<Rightarrow> shared_trust_store \<times> principal option" where
  "lookup_pin toml fp d k sh =
     (let sh' = refresh toml fp d sh
      in (sh', map_option snd (find (\<lambda>(f, _). f = k) (c_pins (cache sh')))))"

definition role_grants_unless_suspended ::
    "principal \<Rightarrow> auth_path \<Rightarrow> bytes option \<Rightarrow> shared_trust_store \<Rightarrow> role_grants option" where
  "role_grants_unless_suspended p ap f sh =
     (if roles_suspended (cache sh) then None
      else Some (of_standing (standing_of_pin (c_pin_roles (cache sh)) False p ap f)))"

end
