(* ===== verification/Acl_Guarantees.thy ===== *)
theory Acl_Guarantees
  imports Acl_Policy
begin

text \<open>
  What the policy evaluator guarantees: the declarative reading of a decision, the ceiling the
  listing of actions is, the contract every authorizer keeps with its pre-filter of file requests,
  and the punch choke point proved once against that contract.
\<close>

section \<open>The evaluator\<close>

lemma role_row_exists: "\<exists>row. role_grant r = Some row \<and> row_role row = r"
  by (cases r) (auto simp: role_grant_def ROLE_GRANTS_def)

lemma socks_in_no_role: "role_grant r = Some row \<Longrightarrow> ForwardSocks \<notin> set (row_actions row)"
  by (cases r) (auto simp: role_grant_def ROLE_GRANTS_def)

definition row_passes :: "rule \<Rightarrow> principal \<Rightarrow> auth_path \<Rightarrow> action \<Rightarrow> resource_ref \<Rightarrow> bool" where
  "row_passes r p ap a res \<longleftrightarrow>
     rule_principal r = principal_str p \<and> rule_auth_path r = ap \<and> rule_covers r a
     \<and> (\<not> is_file a \<or> rule_covers_path r res) \<and> scope_ok (rule_scope r) p ap res"

lemma first_row_step:
  "first_row (r # rs) i p ap a res = (if row_passes r p ap a res then Some i else first_row rs (Suc i) p ap a res)"
  by (auto simp: row_passes_def rule_selects_def)

declare first_row.simps(2) [simp del]

lemma first_row_Some:
  "first_row rs i p ap a res = Some k \<longleftrightarrow>
     i \<le> k \<and> k < i + length rs \<and> row_passes (rs ! (k - i)) p ap a res
     \<and> (\<forall>j < k - i. \<not> row_passes (rs ! j) p ap a res)"
proof (induction rs arbitrary: i)
  case (Cons r rs)
  show ?case
  proof (cases "k = i")
    case True then show ?thesis using Cons.IH [of "Suc i"] by (auto simp: first_row_step)
  next
    case False
    then show ?thesis
      by (cases "i < k") (auto simp: first_row_step Cons.IH nth_Cons' less_Suc_eq_0_disj Suc_diff_le diff_Suc
          split: nat.splits; force)+
  qed
qed simp

lemma first_row_None: "first_row rs i p ap a res = None \<longleftrightarrow> (\<forall>r \<in> set rs. \<not> row_passes r p ap a res)"
  by (induction rs arbitrary: i) (auto simp: first_row_step)

text \<open>What the role and the pin of a requester reach, read off the role table and the pin.\<close>

definition own_or_unowned :: "principal \<Rightarrow> auth_path \<Rightarrow> resource_ref \<Rightarrow> bool" where
  "own_or_unowned p ap res \<longleftrightarrow> res_owner res = None \<or> res_owner res = Some (opener_key p ap)"

definition role_reaches :: "principal \<Rightarrow> auth_path \<Rightarrow> standing \<Rightarrow> action \<Rightarrow> resource_ref \<Rightarrow> bool" where
  "role_reaches p ap st a res \<longleftrightarrow> ap = PinPath \<and> is_device p \<and>
     (\<exists>row \<in> set ROLE_GRANTS. st_role st = Some (row_role row) \<and> a \<in> set (row_actions row)
        \<and> (row_scope row = ROwned \<longrightarrow> own_or_unowned p ap res))"

definition pin_reaches :: "principal \<Rightarrow> auth_path \<Rightarrow> standing \<Rightarrow> action \<Rightarrow> resource_ref \<Rightarrow> bool" where
  "pin_reaches p ap st a res \<longleftrightarrow> ap = PinPath \<and> is_device p \<and> a \<noteq> ForwardSocks \<and>
     (\<exists>pin. st_pin st = Some pin \<and> a \<in> set (pg_actions pin)
        \<and> (pg_scope pin = Owned \<longrightarrow> own_or_unowned p ap res)
        \<and> (is_file a \<longrightarrow> pin_covers_path pin res))"

lemma scope_ok_iff: "scope_ok sc p ap res \<longleftrightarrow> (sc = Owned \<longrightarrow> own_or_unowned p ap res)"
  by (cases sc) (auto simp: scope_ok_def own_or_unowned_def split: option.splits)

lemma role_grant_iff: "role_grant r = Some row \<longleftrightarrow> row \<in> set ROLE_GRANTS \<and> row_role row = r"
  by (cases r) (auto simp: role_grant_def ROLE_GRANTS_def)

lemma role_reaches_row:
  assumes "st_role st = Some r" "role_grant r = Some row"
  shows "role_reaches p ap st a res \<longleftrightarrow> ap = PinPath \<and> is_device p \<and> a \<in> set (row_actions row)
    \<and> (row_scope row = ROwned \<longrightarrow> own_or_unowned p ap res)"
proof -
  have row: "row \<in> set ROLE_GRANTS" "row_role row = r" using assms(2) by (simp_all add: role_grant_iff)
  moreover have "row' = row" if "row' \<in> set ROLE_GRANTS" "row_role row' = r" for row'
    using that assms(2) role_grant_iff [of r row'] by auto
  ultimately show ?thesis unfolding role_reaches_def using assms(1) by (metis option.inject)
qed

lemma role_stage_eq: "role_stage p ap st a res = (if role_reaches p ap st a res then st_role st else None)"
proof (cases "st_role st")
  case (Some r)
  obtain row where row: "role_grant r = Some row" using role_row_exists by blast
  have "role_scope_ok r p ap res \<longleftrightarrow> (row_scope row = ROwned \<longrightarrow> own_or_unowned p ap res)"
    using row by (cases "row_scope row") (auto simp: role_scope_ok_def own_or_unowned_def split: option.splits)
  then show ?thesis using Some row
    by (auto simp: role_stage_def role_covers_def role_reaches_row [OF Some row])
qed (simp add: role_stage_def)

lemma role_reaches_role: "role_reaches p ap st a res \<Longrightarrow> \<exists>r. st_role st = Some r \<and> role_covers p ap r a"
proof -
  have "role_grant (row_role row) = Some row" if "row \<in> set ROLE_GRANTS" for row
    using that by (simp add: role_grant_iff)
  then show "role_reaches p ap st a res \<Longrightarrow> \<exists>r. st_role st = Some r \<and> role_covers p ap r a"
    by (auto simp: role_reaches_def role_covers_def)
qed

lemma pin_stage_iff: "pin_stage p ap st a res \<longleftrightarrow> pin_reaches p ap st a res"
  by (auto simp: pin_stage_def pin_reaches_def pin_covers_def is_always_denied_def scope_ok_iff split: option.splits)

lemma decide_allow_iff:
  "is_allow (decide_standing rules p ap st a res) \<longleftrightarrow> a \<noteq> ForwardSocks \<and>
     (role_reaches p ap st a res \<or> pin_reaches p ap st a res \<or> (\<exists>r \<in> set rules. row_passes r p ap a res))"
proof (cases "role_reaches p ap st a res")
  case True
  then show ?thesis using role_reaches_role [OF True]
    by (auto simp: decide_standing_def is_always_denied_def DENY_def is_allow_def role_stage_eq)
next
  case False
  then show ?thesis using first_row_None [of rules 0 p ap a res]
    by (auto simp: decide_standing_def is_always_denied_def DENY_def is_allow_def role_stage_eq pin_stage_iff
        split: option.splits)
qed

lemma decide_deny: "\<not> is_allow (decide_standing rules p ap st a res) \<Longrightarrow> decide_standing rules p ap st a res = DENY"
  by (auto simp: decide_standing_def is_allow_def DENY_def split: option.splits if_splits)

text \<open>
  C3. The evaluator, read declaratively. A request is allowed exactly when it is not
  \<open>forward.socks\<close> and the requester's role, the grants of its pin, or some row of the policy reaches
  it; so a standing and a policy together allow exactly what either allows alone. An allow rests on
  exactly one basis, the role before the pin before the rows, and a row is named only when it is the
  first one that passes; a deny carries no basis.
\<close>

theorem acl_decision_exact:
  "(is_allow (decide_standing rules p ap st a res) \<longleftrightarrow> a \<noteq> ForwardSocks \<and>
      (role_reaches p ap st a res \<or> pin_reaches p ap st a res \<or> list_ex (\<lambda>r. row_passes r p ap a res) rules))
   \<and> (is_allow (decide_standing rules p ap st a res) \<longleftrightarrow>
        is_allow (decide_standing [] p ap st a res) \<or> is_allow (decide_standing rules p ap standing_default a res))
   \<and> granted_by (decide_standing rules p ap st a res) =
       (if \<not> is_allow (decide_standing rules p ap st a res) then None
        else if role_reaches p ap st a res then map_option ByRole (st_role st)
        else if pin_reaches p ap st a res then Some ByPinGrant
        else Some (ByRule (LEAST k. k < length rules \<and> row_passes (rules ! k) p ap a res)))
   \<and> length (filter id [v_role (decide_standing rules p ap st a res) \<noteq> None,
        v_pin_grant (decide_standing rules p ap st a res), v_rule (decide_standing rules p ap st a res) \<noteq> None])
       = (if is_allow (decide_standing rules p ap st a res) then 1 else 0)"
proof -
  let ?d = "decide_standing rules p ap st a res"
  have std: "\<not> role_reaches p ap standing_default a res" "\<not> pin_reaches p ap standing_default a res"
    by (simp_all add: role_reaches_def pin_reaches_def standing_default_def)
  have least: "k = (LEAST k. k < length rules \<and> row_passes (rules ! k) p ap a res)"
    if "first_row rules 0 p ap a res = Some k" for k
    using that by (intro Least_equality [symmetric]) (auto simp: first_row_Some intro: leI)
  have basis: "granted_by ?d = (if \<not> is_allow ?d then None
        else if role_reaches p ap st a res then map_option ByRole (st_role st)
        else if pin_reaches p ap st a res then Some ByPinGrant
        else Some (ByRule (LEAST k. k < length rules \<and> row_passes (rules ! k) p ap a res)))"
  proof (cases "role_reaches p ap st a res")
    case True
    then show ?thesis using role_reaches_role [OF True]
      by (auto simp: decide_standing_def granted_by_def is_allow_def DENY_def role_stage_eq)
  next
    case False
    then show ?thesis using least
      by (auto simp: decide_standing_def granted_by_def is_allow_def DENY_def role_stage_eq pin_stage_iff
          split: option.splits)
  qed
  have one: "length (filter id [v_role ?d \<noteq> None, v_pin_grant ?d, v_rule ?d \<noteq> None]) = (if is_allow ?d then 1 else 0)"
    by (auto simp: decide_standing_def is_allow_def DENY_def split: option.splits)
  show ?thesis using basis one std by (simp add: decide_allow_iff list_ex_iff) blast
qed

lemma allow_unowned:
  assumes "is_allow (decide_standing rules p ap st a res)" "\<not> is_file a"
  shows "is_allow (decide_standing rules p ap st a (unowned i))"
proof -
  have "role_reaches p ap st a res \<Longrightarrow> role_reaches p ap st a (unowned i)"
    "pin_reaches p ap st a res \<Longrightarrow> pin_reaches p ap st a (unowned i)"
    "row_passes q p ap a res \<Longrightarrow> row_passes q p ap a (unowned i)" for q
    using assms(2)
    by (auto simp: role_reaches_def pin_reaches_def row_passes_def scope_ok_iff own_or_unowned_def unowned_def)
  then show ?thesis using assms(1) unfolding decide_allow_iff by blast
qed

lemma allow_file_basis:
  assumes "is_allow (decide_standing rules p ap st a res)" "is_file a"
  shows "file_grant_basis rules p ap st a"
proof -
  have "rule_paths q \<noteq> None" if "row_passes q p ap a res" for q
    using that assms(2) by (auto simp: row_passes_def rule_covers_path_def split: option.splits)
  then show ?thesis using assms role_reaches_role [of p ap st a res]
    by (auto simp: decide_allow_iff file_grant_basis_def pin_reaches_def pin_covers_def is_always_denied_def
        row_passes_def rule_selects_def list_ex_iff)
qed

lemma all_actions_complete: "a \<in> set all_actions"
  by (cases a) (simp_all add: all_actions_def)

lemma listed_iff:
  "a \<in> set (effective_actions rules p ap st) \<longleftrightarrow>
     (if is_file a then file_grant_basis rules p ap st a
      else is_allow (decide_standing rules p ap st a (unowned i)))"
proof -
  have "is_allow (decide_standing rules p ap st a (unowned [])) \<longleftrightarrow> is_allow (decide_standing rules p ap st a (unowned i))"
    if "\<not> is_file a" using that allow_unowned by blast
  then show ?thesis using all_actions_complete [of a] by (auto simp: effective_actions_def)
qed



section \<open>The authorizer interface and the punch choke point\<close>

lemma with_verdict_sel [simp]:
  "ar_decision (with_verdict_pin_grant rec g) = ar_decision rec" "ar_decision (with_verdict_role rec r) = ar_decision rec"
  "ar_action (with_verdict_pin_grant rec g) = ar_action rec" "ar_action (with_verdict_role rec r) = ar_action rec"
  "ar_peer_addr (with_verdict_pin_grant rec g) = ar_peer_addr rec" "ar_peer_addr (with_verdict_role rec r) = ar_peer_addr rec"
  "ar_rule (with_verdict_pin_grant rec g) = ar_rule rec" "ar_rule (with_verdict_role rec r) = ar_rule rec"
  "ar_role (with_verdict_pin_grant rec g) = ar_role rec" "ar_grant (with_verdict_role rec r) = ar_grant rec"
  "with_verdict_role rec None = rec" "with_verdict_pin_grant rec False = rec"
  by (simp_all add: with_verdict_pin_grant_def with_verdict_role_def)

lemma decision_str_allow [simp]: "decision_str d = ''allow'' \<longleftrightarrow> d = Allow"
  by (cases d) simp_all

locale authorizer_contract =
  fixes az :: authorizer
  assumes prefilter: "is_allow (check az rq a res) \<Longrightarrow> is_file a \<Longrightarrow> has_file_grant az rq a"
    and deny_bare: "\<not> is_allow (check az rq a res) \<Longrightarrow> check az rq a res = DENY"
begin

lemma no_ground_no_allow: "is_file a \<Longrightarrow> \<not> has_file_grant az rq a \<Longrightarrow> check az rq a res = DENY"
  using prefilter deny_bare by blast

lemma punch_result:
  assumes "check_punch az sink ts op rq = (rec, out)"
  shows "(out = Inr () \<longleftrightarrow> sink rec \<and> ar_decision rec = ''allow'') \<and> (out = Inr () \<or> out = Inl punch_denied)"
  using assms by (auto simp: check_punch_def Let_def punch_signal_def split: if_splits)

lemma punch_record:
  assumes "check_punch az sink ts op rq = (rec, out)"
  shows "ar_action rec = ''host.punch'' \<and> ar_peer_addr rec = ''-''
     \<and> (ar_decision rec = ''allow'' \<longleftrightarrow> is_allow (check az rq HostPunch (unowned (punch_op_str op))))"
  using assms by (auto simp: check_punch_def Let_def punch_signal_def punch_action_def is_allow_def)

lemma punch_deny_bare:
  assumes p: "check_punch az sink ts op rq = (rec, out)" and "ar_decision rec \<noteq> ''allow''"
  shows "ar_decision rec = ''deny'' \<and> ar_rule rec = None \<and> ar_role rec = None \<and> ar_grant rec = None"
proof -
  have "check az rq HostPunch (unowned (punch_op_str op)) = DENY"
    using assms punch_record [OF p] deny_bare by blast
  then show ?thesis using p by (auto simp: check_punch_def Let_def punch_signal_def punch_action_def DENY_def)
qed

end

interpretation policy_az: authorizer_contract "policy_authorizer rules" for rules
  by unfold_locales
     (auto simp: policy_authorizer_def check_with_standing_def decide_deny intro: allow_file_basis)

interpretation resolving_az: authorizer_contract "resolving_authorizer rules resolve" for rules resolve
  by unfold_locales
     (auto simp: resolving_authorizer_def check_with_standing_def decide_deny intro: allow_file_basis)

interpretation deny_az: authorizer_contract deny_all
  by unfold_locales (auto simp: deny_all_def DENY_def is_allow_def)

interpretation pinned_az: authorizer_contract allow_all_pinned
  by unfold_locales (auto simp: allow_all_pinned_def Let_def DENY_def ALLOW_UNBASED_def is_allow_def)

text \<open>Who may punch: every role but \<open>none\<close>, a pin or a row that lists the action.\<close>

definition may_punch :: "rule list \<Rightarrow> requester \<Rightarrow> standing \<Rightarrow> bool" where
  "may_punch rules rq st \<longleftrightarrow>
     (req_auth_path rq = PinPath \<and> is_device (req_principal rq) \<and>
        ((st_role st \<noteq> None \<and> st_role st \<noteq> Some NoneRole)
         \<or> (case st_pin st of Some pin \<Rightarrow> HostPunch \<in> set (pg_actions pin) | None \<Rightarrow> False)))
     \<or> list_ex (\<lambda>r. rule_selects r (principal_str (req_principal rq)) (req_auth_path rq) \<and> rule_covers r HostPunch) rules"

lemma own_unowned [simp]: "own_or_unowned p ap (unowned i)"
  by (simp add: own_or_unowned_def unowned_def)

lemma role_reaches_punch:
  "role_reaches p ap st HostPunch (unowned i) \<longleftrightarrow>
     ap = PinPath \<and> is_device p \<and> st_role st \<noteq> None \<and> st_role st \<noteq> Some NoneRole"
proof (cases "st_role st")
  case (Some r)
  obtain row where row: "role_grant r = Some row" using role_row_exists by blast
  then have "HostPunch \<in> set (row_actions row) \<longleftrightarrow> r \<noteq> NoneRole"
    by (cases r) (auto simp: role_grant_def ROLE_GRANTS_def)
  then show ?thesis using Some by (simp add: role_reaches_row [OF Some row])
qed (simp add: role_reaches_def)

lemma may_punch_iff:
  "is_allow (decide_standing rules (req_principal rq) (req_auth_path rq) st HostPunch (unowned i)) \<longleftrightarrow> may_punch rules rq st"
  by (auto simp: decide_allow_iff role_reaches_punch pin_reaches_def row_passes_def scope_ok_iff
      is_file_def may_punch_def rule_selects_def list_ex_iff split: option.splits)

text \<open>
  C36. The hole-punch choke point fails closed, with the authorizer the server runs. It passes exactly
  when the audit sink has accepted a record that says so, and the record says so exactly when the
  requester is a pinned device with a role other than \<open>none\<close> or with \<open>host.punch\<close> on its pin, or some
  row selects the requester and covers the action. Every refusal is the one uniform error. The
  record never holds an address, and a denied one names no basis.
\<close>

theorem punch_fail_closed:
  "case check_punch (resolving_authorizer rules resolve) sink ts op rq of (rec, out) \<Rightarrow>
     (out = Inr () \<longleftrightarrow> sink rec \<and> ar_decision rec = ''allow'')
     \<and> (out = Inr () \<or> out = Inl punch_denied)
     \<and> (ar_decision rec = ''allow'' \<longleftrightarrow>
          may_punch rules rq (resolve (req_principal rq) (req_auth_path rq) (req_fingerprint rq)))
     \<and> ar_action rec = ''host.punch'' \<and> ar_peer_addr rec = ''-''
     \<and> (if ar_decision rec = ''allow'' then True
        else ar_decision rec = ''deny'' \<and> ar_rule rec = None \<and> ar_role rec = None \<and> ar_grant rec = None)"
proof -
  obtain rec out where p: "check_punch (resolving_authorizer rules resolve) sink ts op rq = (rec, out)" by fastforce
  note r = resolving_az.punch_result [OF p] resolving_az.punch_record [OF p] resolving_az.punch_deny_bare [OF p]
  have "is_allow (check (resolving_authorizer rules resolve) rq HostPunch (unowned (punch_op_str op))) \<longleftrightarrow>
      may_punch rules rq (resolve (req_principal rq) (req_auth_path rq) (req_fingerprint rq))"
    by (simp add: resolving_authorizer_def check_with_standing_def may_punch_iff)
  then show ?thesis using r by (auto simp: p)
qed

end
