(* ===== verification/Grant_Guarantees.thy ===== *)
theory Grant_Guarantees
  imports Acl_Grants Acl_Guarantees
begin

text \<open>
  What the grants of a pin guarantee: the shape the parser promises and that it survives being
  written, what adding and removing grants does, and that the covering relation between standings
  only calls a change harmless when no request is lost.
\<close>

section \<open>Pin grants\<close>

text \<open>What the parser promises of the grants it accepts.\<close>

definition pin_wf :: "pin_grants \<Rightarrow> bool" where
  "pin_wf g \<longleftrightarrow> pg_actions g \<noteq> [] \<and> ForwardSocks \<notin> set (pg_actions g)
     \<and> pg_actions g = filter (\<lambda>a. a \<in> set (pg_actions g)) all_actions
     \<and> (case pg_paths g of
          None \<Rightarrow> \<not> list_ex is_file (pg_actions g)
        | Some ps \<Rightarrow> list_ex is_file (pg_actions g) \<and> ps \<noteq> [] \<and> length ps \<le> MAX_PIN_PATHS \<and> distinct ps
            \<and> list_all (\<lambda>e. validate_entry e Posix = Inr ()) ps)"

lemma action_from_str_str [simp]: "action_from_str (action_str a) = Inr a"
  by (cases a) (simp_all add: action_from_str_def all_actions_def)

lemma action_from_str_Inr: "action_from_str s = Inr a \<longleftrightarrow> s = action_str a"
proof
  show "action_from_str s = Inr a \<Longrightarrow> s = action_str a"
    by (auto simp: action_from_str_def find_Some_iff split: option.splits)
qed simp

interpretation action_codec: codec action_str action_from_str "\<lambda>_. True"
  by unfold_locales simp

lemma role_from_str_str [simp]: "role_from_str (role_str r) = Inr r"
  by (cases r) (simp_all add: role_from_str_def all_roles_def)

interpretation role_codec: codec role_str role_from_str "\<lambda>_. True"
  by unfold_locales simp

lemma no_family_suffix: "strip_suffix ''.*'' (action_str a) = None"
  by (cases a) (simp_all add: strip_suffix_def strip_prefix_def)

lemma expand_item_exact: "a \<noteq> ForwardSocks \<Longrightarrow> expand_item (action_str a) = Inr [a]"
  by (simp add: expand_item_def no_family_suffix is_always_denied_def)

lemma socks_family: "starts_with (stem @ ''.'') ''forward.socks'' \<Longrightarrow> stem = ''forward''"
  by (auto simp: starts_with_iff append_eq_Cons_conv Cons_eq_append_conv)

lemma expand_item_sound:
  assumes "expand_item item = Inr as"
  shows "as \<noteq> [] \<and> ForwardSocks \<notin> set as"
proof (cases "strip_suffix ''.*'' item")
  case None
  then show ?thesis using assms by (auto simp: expand_item_def is_always_denied_def split: sum.splits if_splits)
next
  case (Some stem)
  let ?fam = "filter (\<lambda>a. starts_with (stem @ ''.'') (action_str a)) all_actions"
  have ne: "?fam \<noteq> []" and as: "as = filter (\<lambda>a. \<not> is_always_denied a) ?fam"
    using assms Some by (auto simp: expand_item_def Let_def split: if_splits)
  obtain a where a: "a \<in> set ?fam" using ne by (meson list.set_sel(1))
  have "\<exists>b \<in> set ?fam. b \<noteq> ForwardSocks"
  proof (cases "a = ForwardSocks")
    case True
    then have "stem = ''forward''" using a by (simp add: socks_family)
    then have "ForwardLocal \<in> set ?fam" by (simp add: all_actions_complete starts_with_def)
    then show ?thesis by blast
  qed (use a in blast)
  then show ?thesis unfolding as by (auto simp: is_always_denied_def filter_empty_conv)
qed

lemma pick_actions_sound:
  "pick_actions items picked = Inr as \<Longrightarrow> ForwardSocks \<notin> set picked \<Longrightarrow>
     ForwardSocks \<notin> set as \<and> set picked \<subseteq> set as \<and> (items \<noteq> [] \<longrightarrow> as \<noteq> [])"
proof (induction items arbitrary: picked)
  case (Cons i items)
  then obtain xs where xs: "expand_item i = Inr xs" by (auto split: sum.splits)
  show ?case using Cons.IH [of "picked @ xs"] Cons.prems expand_item_sound [OF xs] xs by auto
qed simp

lemma pick_actions_exact:
  "ForwardSocks \<notin> set as \<Longrightarrow> pick_actions (map action_str as) picked = Inr (picked @ as)"
  by (induction as arbitrary: picked) (auto simp: expand_item_exact)

lemma all_actions_UNIV [simp]: "set all_actions = UNIV"
  by (auto simp: all_actions_complete)

lemma expand_actions_sound:
  assumes "expand_actions raw = Inr as"
  shows "as \<noteq> [] \<and> ForwardSocks \<notin> set as \<and> as = filter (\<lambda>a. a \<in> set as) all_actions"
proof -
  obtain picked where p: "raw \<noteq> []" "pick_actions raw [] = Inr picked" "as = filter (\<lambda>a. a \<in> set picked) all_actions"
    using assms by (auto simp: expand_actions_def split: if_splits sum.splits)
  then have "set as = set picked" by simp
  moreover have "picked \<noteq> [] \<and> ForwardSocks \<notin> set picked" using pick_actions_sound [OF p(2)] p(1) by simp
  ultimately show ?thesis using p(3) by (metis set_empty)
qed

lemma expand_actions_exact:
  "as \<noteq> [] \<Longrightarrow> ForwardSocks \<notin> set as \<Longrightarrow>
     expand_actions (map action_str as) = Inr (filter (\<lambda>a. a \<in> set as) all_actions)"
  by (simp add: expand_actions_def pick_actions_exact)

lemma clean_loop_sound:
  "clean_loop out es = Inr r \<Longrightarrow> distinct out \<Longrightarrow>
     distinct r \<and> length r \<le> length out + length es \<and> set r = set out \<union> set es
     \<and> list_all (\<lambda>e. validate_entry e Posix = Inr ()) es"
proof (induction es arbitrary: out)
  case (Cons e es)
  then have v: "validate_entry e Posix = Inr ()" by (auto split: sum.splits)
  show ?case
  proof (cases "e \<in> set out")
    case True then show ?thesis using Cons.IH [of out] Cons.prems v by auto
  next
    case False then show ?thesis using Cons.IH [of "out @ [e]"] Cons.prems v by auto
  qed
qed simp

lemma clean_loop_exact:
  "distinct (out @ es) \<Longrightarrow> list_all (\<lambda>e. validate_entry e Posix = Inr ()) es \<Longrightarrow> clean_loop out es = Inr (out @ es)"
  by (induction es arbitrary: out) auto

lemma parse_scope_key_scope [simp]:
  "parse_scope_key (case sc of Owned \<Rightarrow> None | Any \<Rightarrow> Some ''any'') = Inr sc"
  by (cases sc) (simp_all add: parse_scope_key_def parse_scope_def)

lemma parse_paths_sound:
  assumes "parse_paths_key has_file paths = Inr ps"
  shows "case ps of None \<Rightarrow> \<not> has_file | Some es \<Rightarrow> has_file \<and> es \<noteq> [] \<and> length es \<le> MAX_PIN_PATHS \<and> distinct es
    \<and> list_all (\<lambda>e. validate_entry e Posix = Inr ()) es \<and> (\<exists>raw. paths = Some raw \<and> set es = set raw)"
proof (cases ps)
  case None
  then show ?thesis using assms
    by (auto simp: parse_paths_key_def split: prod.splits bool.splits option.splits list.splits sum.splits)
next
  case (Some es)
  then obtain raw where raw: "has_file" "paths = Some raw" "raw \<noteq> []" "clean_paths raw = Inr es"
    using assms by (auto simp: parse_paths_key_def split: bool.splits option.splits list.splits sum.splits)
  then have "length raw \<le> MAX_PIN_PATHS" "clean_loop [] raw = Inr es" by (auto simp: clean_paths_def split: if_splits)
  with clean_loop_sound [of "[]" raw es] raw Some show ?thesis by (auto simp: list_all_iff)
qed

lemma parse_wf:
  assumes "pin_grants_parse grants paths sc = Inr (Some g)"
  shows "pin_wf g"
proof -
  obtain raw as ps where r: "expand_actions raw = Inr as" "parse_paths_key (list_ex is_file as) paths = Inr ps"
    "pg_actions g = as" "pg_paths g = ps"
    using assms by (auto simp: pin_grants_parse_def split: option.splits list.splits sum.splits if_splits)
  show ?thesis using expand_actions_sound [OF r(1)] parse_paths_sound [OF r(2)] r(3,4)
    by (auto simp: pin_wf_def split: option.splits)
qed

lemma parse_paths_exact:
  "pin_wf g \<Longrightarrow> parse_paths_key (list_ex is_file (pg_actions g)) (pg_paths g) = Inr (pg_paths g)"
  by (cases "pg_paths g") (auto simp: pin_wf_def parse_paths_key_def clean_paths_def clean_loop_exact neq_Nil_conv)

lemma parse_grant_keys: "pin_wf g \<Longrightarrow> parse_keys (grant_keys g) = Inr (Some g)"
proof -
  assume wf: "pin_wf g"
  then have "expand_actions (map action_str (pg_actions g)) = Inr (pg_actions g)"
    using expand_actions_exact [of "pg_actions g"] by (simp add: pin_wf_def)
  moreover obtain x xs where "map action_str (pg_actions g) = x # xs"
    using wf by (cases "pg_actions g") (auto simp: pin_wf_def)
  ultimately show ?thesis using parse_paths_exact [OF wf]
    by (simp add: parse_keys_def grant_keys_def pin_grants_parse_def)
qed

definition decode_keys :: "pin_grant_keys \<Rightarrow> pin_grants_error option + pin_grants" where
  "decode_keys k = (case parse_keys k of Inl e \<Rightarrow> Inl (Some e) | Inr None \<Rightarrow> Inl None | Inr (Some g) \<Rightarrow> Inr g)"

interpretation grant_codec: codec grant_keys decode_keys pin_wf
  by unfold_locales (simp add: decode_keys_def parse_grant_keys)

lemma push_new_set: "set (push_new out es) = set out \<union> set es"
  by (induction es arbitrary: out) auto

lemma push_new_Nil: "push_new out es = [] \<longleftrightarrow> out = [] \<and> es = []"
  using push_new_set [of out es] by (metis Un_empty set_empty)

definition granted_actions :: "pin_grants option \<Rightarrow> action set" where
  "granted_actions g = (case g of Some p \<Rightarrow> set (pg_actions p) | None \<Rightarrow> {})"

definition granted_paths :: "pin_grants option \<Rightarrow> string set" where
  "granted_paths g = (case g of Some p \<Rightarrow> (case pg_paths p of Some ps \<Rightarrow> set ps | None \<Rightarrow> {}) | None \<Rightarrow> {})"

lemma expand_map:
  assumes "as \<noteq> []" "ForwardSocks \<notin> set as"
  shows "\<exists>xs. expand_actions (map action_str as) = Inr xs \<and> set xs = set as"
  using expand_actions_exact [OF assms] by auto

lemma push_new_names: "\<exists>as. push_new (map action_str xs) (map action_str ys) = map action_str as \<and> set as = set xs \<union> set ys"
proof (induction ys arbitrary: xs)
  case (Cons y ys)
  have "action_str y \<in> action_str ` set xs \<longleftrightarrow> y \<in> set xs" using action_codec.encode_inj by auto
  then show ?case using Cons.IH [of xs] Cons.IH [of "xs @ [y]"] by auto
qed auto

lemma merged_keys_total: "names \<noteq> [] \<Longrightarrow> merged_keys names paths sc \<noteq> None"
  by (auto simp: merged_keys_def pin_grants_parse_def neq_Nil_conv split: sum.splits option.splits)

lemma merged_keys_iff:
  assumes "names \<noteq> []" "expand_actions names = Inr xs"
  shows "merged_keys names paths sc = Some (Inr k) \<longleftrightarrow>
     (\<exists>ps s. parse_paths_key (list_ex is_file xs) paths = Inr ps \<and> parse_scope_key sc = Inr s
        \<and> k = grant_keys \<lparr>pg_actions = xs, pg_paths = ps, pg_scope = s\<rparr>)"
  using assms by (auto simp: merged_keys_def pin_grants_parse_def neq_Nil_conv split: sum.splits option.splits)

lemma merged_keys_parse:
  assumes "names \<noteq> []" "expand_actions names = Inr xs"
    "parse_paths_key (list_ex is_file xs) paths = Inr ps" "parse_scope_key sc = Inr s"
  shows "parse_keys (grant_keys \<lparr>pg_actions = xs, pg_paths = ps, pg_scope = s\<rparr>)
    = Inr (Some \<lparr>pg_actions = xs, pg_paths = ps, pg_scope = s\<rparr>)"
proof -
  have "pin_grants_parse (Some names) paths sc = Inr (Some \<lparr>pg_actions = xs, pg_paths = ps, pg_scope = s\<rparr>)"
    using assms by (cases names) (simp_all add: pin_grants_parse_def)
  then show ?thesis by (rule parse_grant_keys [OF parse_wf])
qed

lemma parse_keys_facts:
  assumes "parse_keys cur = Inr (Some g)"
  shows "pin_wf g \<and> parse_scope_key (k_scope cur) = Inr (pg_scope g)"
  using assms parse_wf
  by (auto simp: parse_keys_def pin_grants_parse_def split: option.splits list.splits sum.splits if_splits)

text \<open>
  What the parser accepts is well-formed and survives writing: the grants it returns are never
  empty, never hold \<open>forward.socks\<close> (a \<open>.*\<close> family stops short of it), list each action once in the
  vocabulary's order, and have paths (at most 64, distinct, each absolute and normalised) exactly
  when they hold a file action; and parsing the keys they are written as gives them back.
\<close>

theorem pin_grants_roundtrip:
  assumes "parse_keys k = Inr (Some g)"
  shows "pin_wf g \<and> parse_keys (grant_keys g) = Inr (Some g)"
  using parse_keys_facts [OF assms] parse_grant_keys by blast

theorem pin_grants_roundtrip_witness:
  "\<exists>g. parse_keys \<lparr>k_grants = Some [''forward.*'', ''file.read''], k_paths = Some [''/srv''], k_scope = Some ''any''\<rparr> = Inr (Some g)
     \<and> pg_actions g = [ForwardLocal, ForwardRemote, FileRead] \<and> pin_wf g \<and> parse_keys (grant_keys g) = Inr (Some g)"
proof -
  have "parse_keys \<lparr>k_grants = Some [''forward.*'', ''file.read''], k_paths = Some [''/srv''], k_scope = Some ''any''\<rparr>
      = Inr (Some \<lparr>pg_actions = [ForwardLocal, ForwardRemote, FileRead], pg_paths = Some [''/srv''], pg_scope = Any\<rparr>)"
    by code_simp
  from this pin_grants_roundtrip [OF this] show ?thesis by auto
qed

lemma granted_simps [simp]:
  "granted_actions (Some g) = set (pg_actions g)" "granted_actions None = {}" "granted_paths None = {}"
  by (simp_all add: granted_actions_def granted_paths_def)

lemma parse_default: "parse_keys keys_default = Inr None"
  by (simp add: parse_keys_def keys_default_def pin_grants_parse_def)

lemma file_names: "list_ex (\<lambda>n. n = ''file.read'' \<or> n = ''file.write'') (map action_str as) \<longleftrightarrow> list_ex is_file as"
proof -
  have "action_str a = ''file.read'' \<or> action_str a = ''file.write'' \<longleftrightarrow> is_file a" for a
    by (cases a) (simp_all add: is_file_def)
  then show ?thesis by (simp add: list_ex_iff)
qed

lemma kept_paths:
  assumes "pin_wf g" "set xs \<subseteq> set (pg_actions g)"
  shows "parse_paths_key (list_ex is_file xs) (if list_ex is_file xs then pg_paths g else None)
    = Inr (if list_ex is_file xs then pg_paths g else None)"
proof (cases "list_ex is_file xs")
  case True
  then have "list_ex is_file (pg_actions g)" using assms(2) by (auto simp: list_ex_iff)
  then show ?thesis using True parse_paths_exact [OF assms(1)] by simp
qed (simp add: parse_paths_key_def)

lemma apply_deny_exact:
  assumes cur: "parse_keys cur = Inr old" and e: "expand_actions acts = Inr as"
  shows "\<exists>k g. apply_deny cur acts = Some (Inr k) \<and> parse_keys k = Inr g
    \<and> granted_actions g = granted_actions old - set as
    \<and> granted_paths g = (if granted_actions g \<inter> {FileRead, FileWrite} = {} then {} else granted_paths old)"
proof (cases old)
  case None
  then show ?thesis using assms parse_default by (auto simp: apply_deny_def)
next
  case (Some g)
  have wf: "pin_wf g" and sc: "parse_scope_key (k_scope cur) = Inr (pg_scope g)"
    using parse_keys_facts cur Some by auto
  let ?kept = "filter (\<lambda>a. a \<notin> set as) (pg_actions g)"
  show ?thesis
  proof (cases "?kept = []")
    case True
    then have "apply_deny cur acts = Some (Inr keys_default)" using assms Some by (simp add: apply_deny_def)
    then show ?thesis using True Some parse_default by (auto simp: filter_empty_conv)
  next
    case False
    have "ForwardSocks \<notin> set ?kept" using wf by (simp add: pin_wf_def)
    from expand_map [OF False this] obtain xs
      where xs: "expand_actions (map action_str ?kept) = Inr xs" "set xs = set ?kept" by blast
    then have fe: "list_ex is_file xs = list_ex is_file ?kept" by (simp add: list_ex_iff)
    let ?ps = "if list_ex is_file xs then pg_paths g else None"
    have ps: "parse_paths_key (list_ex is_file xs) ?ps = Inr ?ps" using kept_paths [OF wf] xs(2) by auto
    have ne: "map action_str ?kept \<noteq> []" using False by simp
    have "apply_deny cur acts = Some (Inr (grant_keys \<lparr>pg_actions = xs, pg_paths = ?ps, pg_scope = pg_scope g\<rparr>))"
      using assms Some False fe merged_keys_iff [OF ne xs(1)] ps sc
      by (simp add: apply_deny_def Let_def file_names)
    moreover have "set xs \<inter> {FileRead, FileWrite} = {} \<longleftrightarrow> \<not> list_ex is_file xs"
      by (auto simp: list_ex_iff is_file_def)
    ultimately show ?thesis using merged_keys_parse [OF ne xs(1) ps sc] xs(2) Some
      by (auto simp: granted_paths_def)
  qed
qed

definition old_names :: "pin_grants option \<Rightarrow> string list" where
  "old_names old = (case old of Some g \<Rightarrow> map action_str (pg_actions g) | None \<Rightarrow> [])"

definition old_paths :: "pin_grants option \<Rightarrow> string list" where
  "old_paths old = (case old of Some g \<Rightarrow> (case pg_paths g of Some ps \<Rightarrow> ps | None \<Rightarrow> []) | None \<Rightarrow> [])"

lemma old_paths_set: "set (old_paths old) = granted_paths old"
  by (auto simp: old_paths_def granted_paths_def split: option.splits)

lemma apply_allow_merge:
  assumes "parse_keys cur = Inr old" "expand_actions acts = Inr as"
  shows "apply_allow cur acts paths sc =
    (let merged = push_new (old_paths old) paths
     in merged_keys (push_new (old_names old) (map action_str as)) (if merged = [] then None else Some merged)
          (case sc of Some w \<Rightarrow> Some w | None \<Rightarrow> k_scope cur))"
  using assms by (simp add: apply_allow_def Let_def old_names_def old_paths_def)

lemma allow_names:
  assumes "parse_keys cur = Inr old" "expand_actions acts = Inr as"
  shows "\<exists>xs. expand_actions (push_new (old_names old) (map action_str as)) = Inr xs
    \<and> set xs = granted_actions old \<union> set as \<and> push_new (old_names old) (map action_str as) \<noteq> []"
proof -
  define os where "os = (case old of Some g \<Rightarrow> pg_actions g | None \<Rightarrow> [])"
  have os: "old_names old = map action_str os" "set os = granted_actions old"
    by (cases old; simp add: os_def old_names_def)+
  obtain ns where ns: "push_new (map action_str os) (map action_str as) = map action_str ns" "set ns = set os \<union> set as"
    using push_new_names by blast
  have "ForwardSocks \<notin> set os"
    using assms(1) parse_keys_facts [of cur] by (auto simp: os_def pin_wf_def split: option.splits)
  then have "ns \<noteq> []" "ForwardSocks \<notin> set ns" using expand_actions_sound [OF assms(2)] ns(2) by auto
  then show ?thesis using expand_map [of ns] ns os by auto
qed

lemma apply_allow_total: "apply_allow cur acts paths sc \<noteq> None"
proof (cases "expand_actions acts")
  case (Inr as)
  show ?thesis
  proof (cases "parse_keys cur")
    case (Inr old)
    with \<open>expand_actions acts = Inr as\<close> show ?thesis
      using allow_names merged_keys_total by (metis apply_allow_merge)
  qed (simp add: apply_allow_def Inr)
qed (simp add: apply_allow_def)

lemma apply_allow_exact:
  assumes cur: "parse_keys cur = Inr old" and e: "expand_actions acts = Inr as"
    and ok: "apply_allow cur acts paths sc = Some (Inr k)"
  shows "\<exists>g. parse_keys k = Inr (Some g) \<and> set (pg_actions g) = granted_actions old \<union> set as
    \<and> granted_paths (Some g) = granted_paths old \<union> set paths
    \<and> parse_scope_key (case sc of Some w \<Rightarrow> Some w | None \<Rightarrow> k_scope cur) = Inr (pg_scope g)"
proof -
  obtain xs where xs: "expand_actions (push_new (old_names old) (map action_str as)) = Inr xs"
    "set xs = granted_actions old \<union> set as" "push_new (old_names old) (map action_str as) \<noteq> []"
    using allow_names [OF cur e] by blast
  let ?m = "push_new (old_paths old) paths"
  let ?mp = "if ?m = [] then None else Some ?m"
  let ?sc = "case sc of Some w \<Rightarrow> Some w | None \<Rightarrow> k_scope cur"
  obtain ps s where r: "parse_paths_key (list_ex is_file xs) ?mp = Inr ps" "parse_scope_key ?sc = Inr s"
    "k = grant_keys \<lparr>pg_actions = xs, pg_paths = ps, pg_scope = s\<rparr>"
    using ok merged_keys_iff [OF xs(3,1)] by (auto simp: apply_allow_merge [OF cur e] Let_def)
  have "(case ps of Some es \<Rightarrow> set es | None \<Rightarrow> {}) = set ?m"
    using parse_paths_sound [OF r(1)] r(1)
    by (auto simp: parse_paths_key_def neq_Nil_conv split: option.splits if_splits list.splits)
  then show ?thesis using merged_keys_parse [OF xs(3,1) r(1,2)] r xs(2)
    by (simp add: granted_paths_def push_new_set old_paths_set)
qed

text \<open>
  Editing the grants of a pin. \<open>trust deny\<close> on a pin whose keys parse always succeeds and removes
  exactly the named actions, keeping the paths while a file action is left and dropping them
  otherwise. \<open>trust allow\<close> never panics, and where it succeeds the pin then grants exactly what it
  granted and the named actions, within its paths and the named ones, on the named scope or else
  its own.
\<close>

theorem pin_grants_edit:
  assumes "parse_keys cur = Inr old" "expand_actions acts = Inr as"
  shows "(\<exists>k g. apply_deny cur acts = Some (Inr k) \<and> parse_keys k = Inr g
       \<and> granted_actions g = granted_actions old - set as
       \<and> granted_paths g = (if granted_actions g \<inter> {FileRead, FileWrite} = {} then {} else granted_paths old))
    \<and> apply_allow cur acts paths sc \<noteq> None
    \<and> (\<forall>k. apply_allow cur acts paths sc = Some (Inr k) \<longrightarrow>
         (\<exists>g. parse_keys k = Inr (Some g) \<and> set (pg_actions g) = granted_actions old \<union> set as
            \<and> granted_paths (Some g) = granted_paths old \<union> set paths
            \<and> parse_scope_key (case sc of Some w \<Rightarrow> Some w | None \<Rightarrow> k_scope cur) = Inr (pg_scope g)))"
  using apply_deny_exact [OF assms] apply_allow_exact [OF assms] apply_allow_total by blast

theorem pin_grants_edit_witness:
  "\<exists>k. apply_deny \<lparr>k_grants = Some [''exec.run'', ''file.read''], k_paths = Some [''/srv''], k_scope = None\<rparr> [''file.*''] = Some (Inr k)
     \<and> (\<exists>g. parse_keys k = Inr g \<and> granted_actions g = {ExecRun} \<and> granted_paths g = {})"
proof -
  let ?cur = "\<lparr>k_grants = Some [''exec.run'', ''file.read''], k_paths = Some [''/srv''], k_scope = None\<rparr>"
  have c: "parse_keys ?cur = Inr (Some \<lparr>pg_actions = [ExecRun, FileRead], pg_paths = Some [''/srv''], pg_scope = Owned\<rparr>)"
    by code_simp
  have e: "expand_actions [''file.*''] = Inr [FileRead, FileWrite]" by code_simp
  show ?thesis using pin_grants_edit [OF c e, of "[]" None] by auto
qed

section \<open>The covering relation\<close>

lemma paths_of_map: "paths_of g a = map_of (rg_file_paths g) a"
proof -
  have "map_option snd (find (\<lambda>(b, _). b = a) xs) = map_of xs a" for xs :: "(action \<times> string list) list"
    by (induction xs) auto
  then show ?thesis by (simp add: paths_of_def)
qed

lemma widen_entry_None: "widen_entry a axis es = None \<longleftrightarrow> map_of es a = None"
  by (induction es) auto

lemma widen_entry_Some:
  "widen_entry a axis es = Some es' \<Longrightarrow> map fst es' = map fst es \<and>
     (\<forall>b. map_of es' b = (if b = a then map_option (\<lambda>h. if scope_covers h axis then h else axis) (map_of es a) else map_of es b))"
  by (induction es arbitrary: es') (auto split: if_splits)

definition widened :: "role_scope option \<Rightarrow> role_scope \<Rightarrow> role_scope" where
  "widened held axis = (case held of Some h \<Rightarrow> (if scope_covers h axis then h else axis) | None \<Rightarrow> axis)"

lemma widened_twice: "widened (Some (widened h axis)) axis = widened h axis"
  by (auto simp: widened_def scope_covers_def split: option.splits)

lemma add_grant_entries:
  "map_of (rg_entries (add_grant pin axis a g)) b =
     (if b = a then Some (widened (map_of (rg_entries g) a) axis) else map_of (rg_entries g) b)"
proof (cases "widen_entry a axis (rg_entries g)")
  case None
  then show ?thesis using widen_entry_None [of a axis "rg_entries g"]
    by (auto simp: add_grant_def widened_def map_add_def split: option.splits)
next
  case (Some es)
  then have "map_of (rg_entries g) a \<noteq> None" using widen_entry_None by (metis option.distinct(1))
  then show ?thesis using widen_entry_Some [OF Some] Some by (auto simp: add_grant_def widened_def)
qed

lemma add_grant_paths:
  "map_of (rg_file_paths (add_grant pin axis a g)) b =
     (if b = a \<and> is_file a \<and> map_of (rg_entries g) a = None \<and> map_of (rg_file_paths g) a = None
      then Some (case pg_paths pin of Some ps \<Rightarrow> ps | None \<Rightarrow> []) else map_of (rg_file_paths g) b)"
  using widen_entry_None [of a axis "rg_entries g"]
  by (cases "widen_entry a axis (rg_entries g)") (auto simp: add_grant_def map_add_def split: option.splits)

lemma add_grant_distinct: "distinct (map fst (rg_entries g)) \<Longrightarrow> distinct (map fst (rg_entries (add_grant pin axis a g)))"
  using widen_entry_None [of a axis "rg_entries g"]
  by (cases "widen_entry a axis (rg_entries g)")
     (auto simp: add_grant_def map_of_eq_None_iff dest: widen_entry_Some)

lemma fold_grant_entries:
  "map_of (rg_entries (fold (add_grant pin axis) as g)) b =
     (if b \<in> set as then Some (widened (map_of (rg_entries g) b) axis) else map_of (rg_entries g) b)"
  by (induction as arbitrary: g) (auto simp: add_grant_entries widened_twice)

lemma fold_grant_paths:
  "rg_file_paths g = [] \<Longrightarrow> map_of (rg_file_paths (fold (add_grant pin axis) as g)) b =
     (if b \<in> set as \<and> is_file b \<and> map_of (rg_entries g) b = None
      then Some (case pg_paths pin of Some ps \<Rightarrow> ps | None \<Rightarrow> []) else None)"
proof (induction as rule: rev_induct)
  case (snoc a as)
  then show ?case by (auto simp: add_grant_paths fold_grant_entries split: if_splits)
qed simp

lemma fold_grant_distinct:
  "distinct (map fst (rg_entries g)) \<Longrightarrow> distinct (map fst (rg_entries (fold (add_grant pin axis) as g)))"
  by (induction as arbitrary: g) (auto simp: add_grant_distinct)

lemma role_row_facts:
  assumes "role_grant r = Some row"
  shows "distinct (row_actions row) \<and> (list_ex is_file (row_actions row) \<longrightarrow> row_scope row = RAny)
    \<and> (row_scope row = RNotApplicable \<longrightarrow> set (row_actions row) \<subseteq> {HostReverse, HostPunch})"
  using assms by (cases r) (auto simp: role_grant_def ROLE_GRANTS_def is_file_def)

lemma map_of_axis: "map_of (map (\<lambda>a. (a, sc)) as) b = (if b \<in> set as then Some sc else None)"
  by (induction as) auto

lemma of_role_entries:
  "map_of (rg_entries (of_role r)) a = (case Option.bind r role_grant of
     Some row \<Rightarrow> (if a \<in> set (row_actions row) then Some (row_scope row) else None) | None \<Rightarrow> None)"
  by (auto simp: of_role_def role_grants_empty_def map_of_axis split: option.splits)

lemma of_role_distinct: "distinct (map fst (rg_entries (of_role r)))"
  using role_row_facts by (auto simp: of_role_def role_grants_empty_def comp_def split: option.splits bind_splits)

lemma of_role_paths [simp]: "rg_file_paths (of_role r) = []"
  by (auto simp: of_role_def role_grants_empty_def split: option.splits)

lemma entries_cover_Nil [simp]: "\<not> entries_cover [] req"
  by (simp add: entries_cover_def)

definition path_in :: "string list \<Rightarrow> resource_ref \<Rightarrow> bool" where
  "path_in es res = (case res_path res of Some req \<Rightarrow> entries_cover es req | None \<Rightarrow> False)"

definition grants_reach :: "role_grants \<Rightarrow> principal \<Rightarrow> auth_path \<Rightarrow> action \<Rightarrow> resource_ref \<Rightarrow> bool" where
  "grants_reach g p ap a res \<longleftrightarrow> ap = PinPath \<and> is_device p \<and>
     (\<exists>sc. map_of (rg_entries g) a = Some sc \<and> (sc = ROwned \<longrightarrow> own_or_unowned p ap res))
     \<and> (case paths_of g a of None \<Rightarrow> True | Some es \<Rightarrow> path_in es res)"

lemma role_reaches_map:
  "role_reaches p ap st a res \<longleftrightarrow> ap = PinPath \<and> is_device p \<and>
     (\<exists>sc. map_of (rg_entries (of_role (st_role st))) a = Some sc \<and> (sc = ROwned \<longrightarrow> own_or_unowned p ap res))"
proof (cases "st_role st")
  case (Some r)
  obtain row where row: "role_grant r = Some row" using role_row_exists by blast
  show ?thesis by (auto simp: role_reaches_row [OF Some row] of_role_entries Some row)
qed (simp add: role_reaches_def of_role_entries)

lemma role_entry_facts:
  assumes "map_of (rg_entries (of_role r)) a = Some sc"
  shows "(is_file a \<longrightarrow> sc = RAny) \<and> (sc = RNotApplicable \<longrightarrow> a = HostReverse \<or> a = HostPunch)"
proof -
  obtain row x where "r = Some x" "role_grant x = Some row" "a \<in> set (row_actions row)" "sc = row_scope row"
    using assms by (auto simp: of_role_entries split: option.splits if_splits bind_splits)
  with role_row_facts [of x row] show ?thesis by (auto simp: list_ex_iff)
qed

lemma standing_reach:
  "grants_reach (of_standing st) p ap a res \<Longrightarrow> a \<noteq> ForwardSocks \<Longrightarrow>
     role_reaches p ap st a res \<or> pin_reaches p ap st a res" (is "?g \<Longrightarrow> ?n \<Longrightarrow> ?r")
  and standing_reach_rev:
  "role_reaches p ap st a res \<or> pin_reaches p ap st a res \<Longrightarrow> res_owner res = None \<or> a \<notin> {HostReverse, HostPunch} \<Longrightarrow>
     grants_reach (of_standing st) p ap a res" (is "?r \<Longrightarrow> ?o \<Longrightarrow> ?g")
proof -
  have "(?g \<longrightarrow> a \<noteq> ForwardSocks \<longrightarrow> ?r) \<and> (?r \<longrightarrow> ?o \<longrightarrow> ?g)"
  proof (cases "st_pin st")
    case None
    then show ?thesis
      by (auto simp: grants_reach_def of_standing_def role_reaches_map paths_of_map pin_reaches_def)
  next
    case (Some pin)
    let ?h = "map_of (rg_entries (of_role (st_role st))) a"
    have own: "?o \<Longrightarrow> a = HostReverse \<or> a = HostPunch \<Longrightarrow> own_or_unowned p ap res"
      by (auto simp: own_or_unowned_def)
    show ?thesis
    proof (cases ?h)
      case None
      then show ?thesis using Some
        by (auto simp: grants_reach_def of_standing_def Let_def role_reaches_map pin_reaches_def paths_of_map
            fold_grant_entries fold_grant_paths widened_def path_in_def pin_covers_path_def
            split: acl_scope.splits option.splits if_splits)
    next
      case (Some h)
      note f = role_entry_facts [OF Some]
      show ?thesis using Some \<open>st_pin st = Some pin\<close> f own
        by (cases h; cases "pg_scope pin")
           (auto simp: grants_reach_def of_standing_def Let_def role_reaches_map pin_reaches_def paths_of_map
            fold_grant_entries fold_grant_paths widened_def scope_covers_def split: if_splits)
    qed
  qed
  then show "?g \<Longrightarrow> a \<noteq> ForwardSocks \<Longrightarrow> ?r" "?r \<Longrightarrow> ?o \<Longrightarrow> ?g" by blast+
qed

text \<open>
  The normaliser respects the textual order of entries: what lies within an entry as text lies within
  it after normalisation. It holds where no symbolic link leads out of the entry.
\<close>

definition normalizer_monotone :: "resource_ref \<Rightarrow> bool" where
  "normalizer_monotone res =
     (case res_path res of
        None \<Rightarrow> True
      | Some req \<Rightarrow> \<forall>parent child r. entry_within parent child \<and> cp_normalize req child = Some r \<longrightarrow>
          (\<exists>r'. cp_normalize req parent = Some r' \<and> is_under r r'))"

lemma is_under_iff: "is_under p r \<longleftrightarrow> (\<exists>s. p = r @ s)"
  by (induction p r rule: is_under.induct) auto

lemma is_under_trans: "is_under p q \<Longrightarrow> is_under q r \<Longrightarrow> is_under p r"
  by (auto simp: is_under_iff)

lemma path_in_mono:
  assumes "paths_cover (Some new) (Some old)" "normalizer_monotone res" "path_in old res"
  shows "path_in new res"
proof -
  obtain req e root where e: "res_path res = Some req" "e \<in> set old" "cp_normalize req e = Some root" "is_under (cp_path req) root"
    using assms(3) by (auto simp: path_in_def entries_cover_def path_within_def list_ex_iff split: option.splits)
  obtain parent where "parent \<in> set new" "entry_within parent e"
    using assms(1) e(2) by (auto simp: list_all_iff list_ex_iff)
  then obtain root' where "parent \<in> set new" "cp_normalize req parent = Some root'" "is_under root root'"
    using assms(2) e unfolding normalizer_monotone_def by (simp, blast)
  then show ?thesis using e is_under_trans [OF e(4)]
    by (auto simp: path_in_def entries_cover_def path_within_def list_ex_iff intro!: bexI [of _ parent])
qed

lemma of_standing_distinct: "distinct (map fst (rg_entries (of_standing st)))"
  by (auto simp: of_standing_def Let_def of_role_distinct fold_grant_distinct split: option.splits)

lemma covers_reach:
  assumes c: "covers new old" and d: "distinct (map fst (rg_entries new))" and m: "normalizer_monotone res"
    and r: "grants_reach old p ap a res"
  shows "grants_reach new p ap a res"
proof -
  obtain sc where sc: "map_of (rg_entries old) a = Some sc" "sc = ROwned \<Longrightarrow> own_or_unowned p ap res"
    using r by (auto simp: grants_reach_def)
  then have "(a, sc) \<in> set (rg_entries old)" by (simp add: map_of_SomeD)
  then obtain n where n: "(a, n) \<in> set (rg_entries new)" "scope_covers n sc" "paths_cover (paths_of new a) (paths_of old a)"
    using c by (auto simp: covers_def list_all_iff list_ex_iff)
  moreover have "map_of (rg_entries new) a = Some n" using n(1) d by simp
  moreover have "n = ROwned \<Longrightarrow> sc = ROwned" using n(2) by (simp add: scope_covers_def)
  moreover have "case paths_of new a of None \<Rightarrow> True | Some es \<Rightarrow> path_in es res"
    using n(3) r m path_in_mono by (cases "paths_of new a"; cases "paths_of old a") (auto simp: grants_reach_def)
  ultimately show ?thesis using r sc by (simp add: grants_reach_def)
qed

text \<open>A normaliser for a file system without links: the components of the text.\<close>

definition text_normalizer :: "string \<Rightarrow> path option" where
  "text_normalizer e = Some (filter (\<lambda>w. w \<noteq> []) (split_on SLASH e))"

definition reader :: "string list \<Rightarrow> standing" where
  "reader ps = \<lparr>st_role = None, st_pin = Some \<lparr>pg_actions = [FileRead], pg_paths = Some ps, pg_scope = Owned\<rparr>\<rparr>"

lemma split_on_not_Nil: "split_on c xs \<noteq> []"
  by (induction xs) (auto split: list.splits)

lemma split_on_append: "split_on c (xs @ c # ys) = split_on c xs @ split_on c ys"
proof (induction xs)
  case (Cons x xs)
  then show ?case using split_on_not_Nil [of c xs] by (auto split: list.splits)
qed simp

lemma text_normalizer_within:
  assumes "entry_within parent child"
  shows "is_under (filter (\<lambda>w. w \<noteq> []) (split_on SLASH child)) (filter (\<lambda>w. w \<noteq> []) (split_on SLASH parent))"
proof -
  consider "parent = child" | q r where "parent = q @ [SLASH]" "child = q @ SLASH # r"
    | r where "child = parent @ SLASH # r"
    using assms
    by (auto simp: entry_within_def SLASH_def strip_prefix_Some ends_with_def starts_with_iff rev_eq_append_conv
        split: if_splits option.splits)
  then show ?thesis by cases (auto simp: is_under_iff split_on_append)
qed

lemma text_normalizer_monotone: "normalizer_monotone (with_canonical_path res p text_normalizer)"
  using text_normalizer_within
  by (auto simp: normalizer_monotone_def with_canonical_path_def text_normalizer_def)



text \<open>
  The relation is not exact in the other direction: a pin of role \<open>reverse\<close> that also carries the grant
  \<open>host.reverse\<close> counts as narrowed when that grant is removed, though every decision stays the same.
\<close>

lemma redundant_grant_counts_as_loss:
  fixes k :: pin_grant_keys
  defines "k \<equiv> \<lparr>k_grants = Some [''host.reverse''], k_paths = None, k_scope = None\<rparr>"
  shows "pin_grants_change_narrows (Some ''reverse'') k keys_default"
    and "is_allow (decide_standing rules p ap (standing_of_keys (Some ''reverse'') k) a res) =
         is_allow (decide_standing rules p ap (standing_of_keys (Some ''reverse'') keys_default) a res)"
proof -
  have s: "standing_of_keys (Some ''reverse'') k =
      \<lparr>st_role = Some Reverse, st_pin = Some \<lparr>pg_actions = [HostReverse], pg_paths = None, pg_scope = Owned\<rparr>\<rparr>"
    unfolding k_def by code_simp
  have t: "standing_of_keys (Some ''reverse'') keys_default = \<lparr>st_role = Some Reverse, st_pin = None\<rparr>" by code_simp
  show "pin_grants_change_narrows (Some ''reverse'') k keys_default"
    unfolding pin_grants_change_narrows_def s t by code_simp
  have m: "map_of (rg_entries (of_role (Some Reverse))) HostReverse = Some RNotApplicable" by code_simp
  show "is_allow (decide_standing rules p ap (standing_of_keys (Some ''reverse'') k) a res) =
      is_allow (decide_standing rules p ap (standing_of_keys (Some ''reverse'') keys_default) a res)"
    unfolding s t by (auto simp: decide_allow_iff role_reaches_map pin_reaches_def m)
qed

end
