(* ===== verification/Trust_Guarantees.thy ===== *)
theory Trust_Guarantees
  imports Trust_Store Grant_Guarantees
begin

text \<open>
  What the trust store guarantees: the shared view answers from the file as it is at the time of the
  request, and edits keep the store valid and every name on its key.
\<close>

section \<open>The view is the file\<close>

text \<open>What a read of the file is worth, with no memory: the store it parses to, if it does.\<close>

definition good :: "(string \<Rightarrow> trust_store option) \<Rightarrow> disk \<Rightarrow> trust_store option" where
  "good toml d = (case d of Inl _ \<Rightarrow> None | Inr raw \<Rightarrow> (case parse_raw toml raw of Inr st \<Rightarrow> Some st | Inl _ \<Rightarrow> None))"

definition last_good :: "(string \<Rightarrow> trust_store option) \<Rightarrow> disk list \<Rightarrow> trust_store \<Rightarrow> trust_store" where
  "last_good toml ds st = fold (\<lambda>d acc. case good toml d of Some st' \<Rightarrow> st' | None \<Rightarrow> acc) ds st"

definition fresh_standing ::
    "(string \<Rightarrow> trust_store option) \<Rightarrow> (string \<Rightarrow> bytes option) \<Rightarrow> disk \<Rightarrow> principal \<Rightarrow> auth_path \<Rightarrow> bytes option \<Rightarrow> standing" where
  "fresh_standing toml fp d p ap f =
     (case good toml d of
        Some st \<Rightarrow> standing_of_pin (parsed_pin_roles fp st) False p ap f
      | None \<Rightarrow> standing_default)"

definition cache_ok :: "(string \<Rightarrow> trust_store option) \<Rightarrow> (string \<Rightarrow> bytes option) \<Rightarrow> shared_trust_store \<Rightarrow> bool" where
  "cache_ok toml fp sh \<longleftrightarrow> good toml (Inr (c_raw (cache sh))) = Some (c_store (cache sh))
     \<and> c_pins (cache sh) = parsed_pins fp (c_store (cache sh))
     \<and> c_pin_roles (cache sh) = parsed_pin_roles fp (c_store (cache sh))
     \<and> (case c_failed_raw (cache sh) of Some x \<Rightarrow> good toml (Inr x) = None | None \<Rightarrow> True)"

lemma good_Inr: "good toml (Inr raw) = (case parse_raw toml raw of Inr st \<Rightarrow> Some st | Inl _ \<Rightarrow> None)"
  by (simp add: good_def)

lemma refresh_facts:
  assumes "cache_ok toml fp sh"
  shows "cache_ok toml fp (refresh toml fp d sh)
    \<and> c_store (cache (refresh toml fp d sh)) = (case good toml d of Some st \<Rightarrow> st | None \<Rightarrow> c_store (cache sh))
    \<and> (roles_suspended (cache (refresh toml fp d sh)) \<longleftrightarrow> good toml d = None)"
proof (cases d)
  case (Inl e)
  then show ?thesis using assms by (auto simp: refresh_def cache_ok_def good_def roles_suspended_def)
next
  case (Inr raw)
  show ?thesis
  proof (cases "parse_raw toml raw")
    case (Inl e)
    then show ?thesis using assms \<open>d = Inr raw\<close>
      by (auto simp: refresh_def cache_ok_def good_Inr roles_suspended_def is_current_def Let_def split: option.splits)
  next
    case (Inr st)
    then show ?thesis using assms \<open>d = Inr raw\<close>
      by (auto simp: refresh_def cache_ok_def good_Inr roles_suspended_def is_current_def Let_def cached_new_def
          split: option.splits)
  qed
qed

lemma refresh_generation:
  "generation sh \<le> generation (refresh toml fp d sh) \<and> generation (refresh toml fp d sh) \<le> generation sh + 1
   \<and> (generation (refresh toml fp d sh) = generation sh \<longrightarrow> c_store (cache (refresh toml fp d sh)) = c_store (cache sh))"
  by (auto simp: refresh_def Let_def split: sum.splits)

interpretation trust_machine: machine "refresh toml fp" "cache_ok toml fp" for toml fp
  by unfold_locales (rule conjunct1 [OF refresh_facts])

lemma open_cache_ok: "open_store toml fp d = Some sh \<Longrightarrow> cache_ok toml fp sh \<and> good toml d = Some (c_store (cache sh))"
  by (auto simp: open_store_def cache_ok_def cached_new_def good_def split: sum.splits)

lemma run_store:
  "cache_ok toml fp sh \<Longrightarrow> c_store (cache (fold (refresh toml fp) ds sh)) = last_good toml ds (c_store (cache sh))"
  by (induction ds arbitrary: sh) (simp_all add: last_good_def refresh_facts)

lemma resolve_fresh:
  assumes "cache_ok toml fp sh"
  shows "snd (resolve_standing toml fp d p ap f sh) = fresh_standing toml fp d p ap f"
proof -
  note r = refresh_facts [OF assms, of d]
  show ?thesis
  proof (cases "structural_exit p ap f")
    case True
    then show ?thesis
      by (auto simp: resolve_standing_def fresh_standing_def standing_of_pin_def structural_exit_def is_device_def
          split: option.splits principal.splits)
  next
    case False
    have "standing_of_pin pins True p ap f = standing_default" for pins by (simp add: standing_of_pin_def)
    then show ?thesis using r False
      by (cases "good toml d") (simp_all add: resolve_standing_def fresh_standing_def Let_def cache_ok_def)
  qed
qed

lemma lookup_last_good:
  assumes "cache_ok toml fp sh"
  shows "snd (lookup_pin toml fp d k sh) =
    map_option snd (find (\<lambda>(f, _). f = k) (parsed_pins fp (last_good toml [d] (c_store (cache sh)))))"
  using refresh_facts [OF assms, of d] by (auto simp: lookup_pin_def Let_def cache_ok_def last_good_def)

lemma find_None_default:
  assumes "list_all (\<lambda>pin. pr_name pin \<noteq> n \<or> pr_fingerprint pin \<noteq> k) pins"
  shows "standing_of_pin pins s (Device n) ap (Some k) = standing_default"
proof -
  have "find (\<lambda>pin. pr_name pin = n \<and> pr_fingerprint pin = k) pins = None"
    using assms by (auto simp: find_None_iff list_all_iff)
  then show ?thesis by (simp add: standing_of_pin_def)
qed


definition sample_peer :: trust_peer where
  "sample_peer = \<lparr>p_name = ''a'', p_fingerprint = ''sha256:k'', p_address = [], p_added_at = [], p_role = Some ''full'',
     p_grants = None, p_paths = None, p_scope = None, p_source = None, p_remote_qsh = None\<rparr>"

definition sample_toml :: "string \<Rightarrow> trust_store option" where
  "sample_toml t = (if t = ''A'' then Some \<lparr>peers = [sample_peer], cas = []\<rparr> else None)"

definition sample_fp :: "string \<Rightarrow> bytes option" where
  "sample_fp s = (if s = ''sha256:k'' then Some [1] else None)"


section \<open>Edits\<close>

datatype trust_edit =
    AddPeer string "string option" string string "trust_role option"
  | RemoteQsh string string
  | MarkSource string string
  | AddCa string string
  | AddCaAppendOnly string string
  | Remove string
  | Rename string string
  | SetRole string trust_role
  | SetGrants string pin_grant_keys
  | ReplacePeer string "string option" string string trust_role

fun edit :: "trust_edit \<Rightarrow> trust_store \<Rightarrow> trust_store" where
  "edit (AddPeer n a f now r) st = fst (add_peer_inner n a f now r st)"
| "edit (RemoteQsh n path) st = fst (set_remote_qsh n path st)"
| "edit (MarkSource n src) st = fst (mark_source n src st)"
| "edit (AddCa n pem) st = fst (add_ca n pem st)"
| "edit (AddCaAppendOnly n pem) st = (case add_ca_append_only n pem st of Some (st', _) \<Rightarrow> st' | None \<Rightarrow> st)"
| "edit (Remove n) st = fst (remove_name n st)"
| "edit (Rename old new) st = fst (rename_peer old new st)"
| "edit (SetRole n r) st = fst (set_role n r st)"
| "edit (SetGrants n k) st = fst (set_grants n k st)"
| "edit (ReplacePeer n a f now r) st = fst (replace_peer n a f now r st)"

text \<open>The keys \<open>trust allow\<close> and \<open>trust deny\<close> hand over always parse.\<close>

fun edit_ok :: "trust_edit \<Rightarrow> bool" where
  "edit_ok (SetGrants n k) = (case parse_keys k of Inr _ \<Rightarrow> True | Inl _ \<Rightarrow> False)"
| "edit_ok _ = True"

fun rebinds :: "string \<Rightarrow> trust_edit \<Rightarrow> bool" where
  "rebinds n (Remove m) = (m = n)"
| "rebinds n (Rename old new) = (old = n)"
| "rebinds n (ReplacePeer m a f now r) = (m = n)"
| "rebinds n _ = False"

definition peer_ok :: "trust_peer \<Rightarrow> bool" where
  "peer_ok p \<longleftrightarrow> \<not> bad_role p \<and> (case parse_keys (peer_keys p) of Inr _ \<Rightarrow> True | Inl _ \<Rightarrow> False)"

definition store_ok :: "trust_store \<Rightarrow> bool" where
  "store_ok st \<longleftrightarrow> distinct (map p_name (peers st)) \<and> list_all peer_ok (peers st)"

lemma store_parse_ok:
  assumes "list_all peer_ok (peers file)" "toml text = Some file"
  shows "store_parse toml text = Inr file"
proof -
  have "find bad_role (peers file) = None" using assms(1) by (auto simp: find_None_iff list_all_iff peer_ok_def)
  moreover have "list_all peer_ok ps \<Longrightarrow> first_bad_grants ps = None" for ps
    by (induction ps) (auto simp: peer_ok_def split: sum.splits)
  ultimately show ?thesis using assms by (simp add: store_parse_def)
qed

lemma update_first_names:
  "(\<And>p. p_name (f p) = p_name p) \<Longrightarrow> map p_name (update_first n f ps) = map p_name ps"
  by (induction ps) auto

lemma update_first_ok: "(\<And>p. peer_ok p \<Longrightarrow> peer_ok (f p)) \<Longrightarrow> list_all peer_ok ps \<Longrightarrow> list_all peer_ok (update_first n f ps)"
  by (induction ps) auto

lemma update_first_rename:
  "distinct (map p_name ps) \<Longrightarrow> new \<notin> p_name ` set ps \<Longrightarrow> (\<And>p. p_name (f p) = new) \<Longrightarrow>
     distinct (map p_name (update_first n f ps)) \<and> p_name ` set (update_first n f ps) \<subseteq> insert new (p_name ` set ps)"
  by (induction ps) auto

lemma update_peer_keeps:
  assumes "store_ok st" "\<And>p. p_name (f p) = p_name p" "\<And>p. peer_ok p \<Longrightarrow> peer_ok (f p)"
  shows "store_ok (update_peer n f st)"
  using assms by (simp add: store_ok_def update_peer_def update_first_names update_first_ok)

lemma peer_ok_edits [simp]:
  "peer_ok (p\<lparr>p_address := a\<rparr>) = peer_ok p" "peer_ok (p\<lparr>p_source := s\<rparr>) = peer_ok p"
  "peer_ok (p\<lparr>p_remote_qsh := q\<rparr>) = peer_ok p" "peer_ok (p\<lparr>p_name := n\<rparr>) = peer_ok p"
  by (simp_all add: peer_ok_def bad_role_def peer_keys_def)

lemma peer_ok_role: "peer_ok p \<Longrightarrow> peer_ok (p\<lparr>p_role := Some (role_str r)\<rparr>)"
  by (simp add: peer_ok_def bad_role_def peer_keys_def)

lemma peer_ok_new:
  "peer_ok \<lparr>p_name = n, p_fingerprint = f, p_address = a, p_added_at = t, p_role = map_option role_str r, p_grants = None,
     p_paths = None, p_scope = None, p_source = None, p_remote_qsh = q\<rparr>"
  by (cases r) (simp_all add: peer_ok_def bad_role_def peer_keys_def parse_keys_def pin_grants_parse_def)

lemma find_peer_None: "find_peer n st = None \<longleftrightarrow> n \<notin> p_name ` set (peers st)"
  by (auto simp: find_peer_def find_None_iff)

lemma store_ok_add:
  "store_ok st \<Longrightarrow> p_name p \<notin> p_name ` set (peers st) \<Longrightarrow> peer_ok p \<Longrightarrow> store_ok (st\<lparr>peers := peers st @ [p]\<rparr>)"
  by (simp add: store_ok_def)

lemma store_ok_cas [simp]: "store_ok (st\<lparr>cas := cs\<rparr>) = store_ok st"
  by (simp add: store_ok_def)

lemma store_ok_remove: "store_ok st \<Longrightarrow> store_ok (fst (remove_name n st))"
  by (simp add: store_ok_def remove_name_def Let_def distinct_map_filter list_all_iff)

lemma edit_keeps_ok:
  assumes ok: "store_ok st" and e: "edit_ok ed"
  shows "store_ok (edit ed st)"
proof (cases ed)
  case (AddPeer n a f now r)
  then show ?thesis using ok peer_ok_new [of n f "or_empty a" now r None] find_peer_None [of n st]
    by (auto simp: add_peer_inner_def Let_def split: option.splits intro!: update_peer_keeps store_ok_add)
next
  case (Rename old new)
  then show ?thesis
    using ok update_first_rename [of "peers st" new "\<lambda>p. p\<lparr>p_name := new, p_source := None\<rparr>" old]
      update_first_ok [of "\<lambda>p. p\<lparr>p_name := new, p_source := None\<rparr>" "peers st" old]
    by (auto simp: rename_peer_def store_ok_def update_peer_def list_ex_iff split: option.splits)
next
  case (SetGrants n k)
  have eta: "\<lparr>k_grants = k_grants k, k_paths = k_paths k, k_scope = k_scope k\<rparr> = k" by (cases k) simp
  have "peer_ok p \<Longrightarrow> peer_ok (p\<lparr>p_grants := k_grants k, p_paths := k_paths k, p_scope := k_scope k\<rparr>)" for p
    using e SetGrants by (auto simp: peer_ok_def bad_role_def peer_keys_def eta split: sum.splits)
  then show ?thesis using SetGrants ok
    by (auto simp: set_grants_def Let_def split: option.splits intro!: update_peer_keeps)
next
  case (ReplacePeer n a f now r)
  let ?f = "\<lambda>old. \<lparr>p_name = n, p_fingerprint = f, p_address = or_empty a, p_added_at = now, p_role = Some (role_str r),
     p_grants = None, p_paths = None, p_scope = None, p_source = None, p_remote_qsh = p_remote_qsh old\<rparr>"
  have "map p_name (update_first n ?f ps) = map p_name ps" for ps by (induction ps) auto
  then show ?thesis using ReplacePeer ok update_first_ok [of ?f "peers st" n] peer_ok_new [of n f "or_empty a" now "Some r"]
    by (auto simp: replace_peer_def Let_def store_ok_def update_peer_def split: option.splits)
qed (use ok in \<open>auto simp: set_remote_qsh_def mark_source_def add_ca_def add_ca_append_only_def set_role_def
      Let_def store_ok_remove split: option.splits intro!: update_peer_keeps peer_ok_role\<close>)

lemma find_append_Some: "find P xs = Some x \<Longrightarrow> find P (xs @ ys) = Some x"
  by (induction xs) auto

definition key_of :: "string \<Rightarrow> trust_store \<Rightarrow> string option" where
  "key_of n st = map_option p_fingerprint (find_peer n st)"

lemma key_update:
  assumes "\<And>p. p_name (f p) = p_name p" "\<And>p. p_fingerprint (f p) = p_fingerprint p"
  shows "key_of n (update_peer m f st) = key_of n st"
proof -
  have "map_option p_fingerprint (find (\<lambda>p. p_name p = n) (update_first m f ps)) =
      map_option p_fingerprint (find (\<lambda>p. p_name p = n) ps)" for ps
    using assms by (induction ps) auto
  then show ?thesis by (simp add: key_of_def find_peer_def update_peer_def)
qed

lemma key_update_other:
  assumes "m \<noteq> n" "\<And>p. p_name (f p) \<noteq> n"
  shows "key_of n (update_peer m f st) = key_of n st"
proof -
  have "find (\<lambda>p. p_name p = n) (update_first m f ps) = find (\<lambda>p. p_name p = n) ps" for ps
    using assms by (induction ps) auto
  then show ?thesis by (simp add: key_of_def find_peer_def update_peer_def)
qed

lemma key_cas [simp]: "key_of n (st\<lparr>cas := cs\<rparr>) = key_of n st"
  by (simp add: key_of_def find_peer_def)

lemma key_add: "key_of n st = Some k \<Longrightarrow> key_of n (st\<lparr>peers := peers st @ ps\<rparr>) = Some k"
  by (auto simp: key_of_def find_peer_def find_append_Some)

lemma key_remove: "m \<noteq> n \<Longrightarrow> key_of n (fst (remove_name m st)) = key_of n st"
proof -
  assume "m \<noteq> n"
  then have "find (\<lambda>p. p_name p = n) (filter (\<lambda>p. p_name p \<noteq> m) ps) = find (\<lambda>p. p_name p = n) ps"
    for ps :: "trust_peer list" by (induction ps) auto
  then show ?thesis by (simp add: key_of_def find_peer_def remove_name_def Let_def)
qed

lemma edit_keeps_key:
  assumes k: "key_of n st = Some k" and r: "\<not> rebinds n ed"
  shows "key_of n (edit ed st) = Some k"
proof (cases ed)
  case (Rename old new)
  have "n \<in> p_name ` set (peers st)" using k find_peer_None [of n st] by (auto simp: key_of_def)
  then show ?thesis using Rename r k
    by (auto simp: rename_peer_def list_ex_iff key_update_other split: option.splits)
next
  case (AddPeer m a f now role)
  then show ?thesis using k by (auto simp: add_peer_inner_def Let_def key_add key_update split: option.splits)
qed (use k r in \<open>auto simp: set_remote_qsh_def mark_source_def add_ca_def add_ca_append_only_def set_role_def set_grants_def
      replace_peer_def Let_def key_update key_update_other key_remove split: option.splits\<close>)

interpretation edit_machine: machine "\<lambda>ed st. if edit_ok ed then edit ed st else st" store_ok
  by unfold_locales (simp add: edit_keeps_ok)

text \<open>
  C33. Edits of the trust store keep it sound. After any sequence of edits every name is pinned at most
  once and the validation of the file accepts the store, so an edit never suspends the grants of
  the whole file. No edit but a removal, a rename or a replacement naming the pin itself changes
  the key a name is bound to, in particular not a repeated \<open>trust add\<close> under another fingerprint; and
  a replacement hands the new key none of the old one's grants.
\<close>

theorem trust_edits_safe:
  assumes "store_ok st" and "list_all edit_ok eds"
  shows "store_ok (fold edit eds st)
    \<and> store_parse (\<lambda>_. Some (fold edit eds st)) text = Inr (fold edit eds st)
    \<and> (key_of n st = Some k \<and> list_all (\<lambda>ed. \<not> rebinds n ed) eds \<longrightarrow> key_of n (fold edit eds st) = Some k)
    \<and> (case snd (replace_peer n addr f now role (fold edit eds st)) of
         Some (new, old) \<Rightarrow> peer_keys new = keys_default \<and> p_role new = Some (role_str role)
       | None \<Rightarrow> True)"
proof -
  have "fold edit eds st = fold (\<lambda>ed st. if edit_ok ed then edit ed st else st) eds st"
    using assms(2) by (induction eds arbitrary: st) auto
  then have ok: "store_ok (fold edit eds st)" using edit_machine.run_inv [OF assms(1)] by simp
  moreover have "key_of n s = Some k \<Longrightarrow> list_all (\<lambda>ed. \<not> rebinds n ed) es \<Longrightarrow> key_of n (fold edit es s) = Some k" for es s
    by (induction es arbitrary: s) (auto simp: edit_keeps_key)
  moreover have "store_parse (\<lambda>_. Some (fold edit eds st)) text = Inr (fold edit eds st)"
    using ok by (intro store_parse_ok) (simp_all add: store_ok_def)
  ultimately show ?thesis by (auto simp: replace_peer_def Let_def peer_keys_def keys_default_def split: option.splits)
qed

theorem trust_edits_safe_witness:
  "key_of ''a'' (fold edit [AddPeer ''a'' None ''sha256:evil'' ''now'' (Some Full), SetRole ''a'' NoneRole, Rename ''b'' ''a'']
     \<lparr>peers = [sample_peer], cas = []\<rparr>) = Some ''sha256:k''"
proof -
  have ok: "store_ok \<lparr>peers = [sample_peer], cas = []\<rparr>"
    using peer_ok_new [of "''a''" "''sha256:k''" "[]" "[]" "Some Full" None] by (simp add: store_ok_def sample_peer_def)
  have key: "key_of ''a'' \<lparr>peers = [sample_peer], cas = []\<rparr> = Some ''sha256:k''"
    by (simp add: key_of_def find_peer_def sample_peer_def)
  show ?thesis
    using trust_edits_safe [OF ok, where eds = "[AddPeer ''a'' None ''sha256:evil'' ''now'' (Some Full), SetRole ''a'' NoneRole, Rename ''b'' ''a'']"
        and n = "''a''" and k = "''sha256:k''"] key by simp
qed

end
