(* ===== verification/Acl_Loader.thy ===== *)
theory Acl_Loader
  imports Acl_Grants
begin

text \<open>
  Loading \<open>acl.toml\<close> (\<open>qsh-core/src/acl/load.rs\<close>): the caps, the validation of each row, the three
  outcomes of a load, the index the diagnostics read and the authorizer the process then runs. The
  TOML decoder is an argument, and what opening and reading the file gives is an argument of
  \<open>load_path\<close>. An error keeps the row and entry it names, not its wording; log lines are left out. A
  failed assertion is the value \<open>None\<close>.
\<close>

section \<open>Caps, raw rows and errors\<close>

definition MAX_FILE_BYTES :: nat where
  "MAX_FILE_BYTES = 2 ^ 20"

definition MAX_RULES :: nat where
  "MAX_RULES = 1024"

definition MAX_PATTERNS_PER_RULE :: nat where
  "MAX_PATTERNS_PER_RULE = 64"

definition MAX_PRINCIPAL_LEN :: nat where
  "MAX_PRINCIPAL_LEN = 256"

definition MAX_PATTERN_LEN :: nat where
  "MAX_PATTERN_LEN = 128"

definition MAX_PATHS_PER_RULE :: nat where
  "MAX_PATHS_PER_RULE = 64"

record raw_rule =
  r_principal :: string
  r_auth_path :: "string option"
  r_allow :: "string list"
  r_scope :: "string option"
  r_paths :: "string list option"

datatype load_error =
    ReadFailed string | OverCap | NotUtf8 | BadPolicyToml string | TooManyRules nat
  | PrincipalEmpty nat | PrincipalTooLong nat | PrincipalShape nat | UnknownAuthPath nat string
  | AllowEmpty nat | TooManyPatterns nat nat | PatternTooLong nat nat | UnknownPattern nat string
  | UnknownScope nat string | PathsNotFileOnly nat | PathsEmpty nat | TooManyRowPaths nat nat
  | BadRowPath nat nat entry_error

section \<open>Rows\<close>

definition has_valid_principal_shape :: "string \<Rightarrow> bool" where
  "has_valid_principal_shape p \<longleftrightarrow>
     list_ex (\<lambda>prefix. case strip_prefix prefix p of Some rest \<Rightarrow> rest \<noteq> [] | None \<Rightarrow> False)
       [''user:'', ''device:'', ''fp:sha256:'']"

definition family_stem :: "action \<Rightarrow> string" where
  "family_stem a = takeWhile (\<lambda>c. c \<noteq> CHR ''.'') (action_str a)"

definition parse_action_pattern :: "string \<Rightarrow> action_pattern option option" where
  "parse_action_pattern raw =
     (case strip_suffix ''.*'' raw of
        Some prefix \<Rightarrow>
          (if prefix = [] then Some None
           else case find (\<lambda>a. CHR ''.'' \<in> set (action_str a) \<and> family_stem a = prefix) all_actions of
                  Some a \<Rightarrow> map_option (\<lambda>p. Some (Prefix p)) (family_prefix_new (family_stem a @ ''.''))
                | None \<Rightarrow> Some None)
      | None \<Rightarrow> Some (map_option Exact (find (\<lambda>a. action_str a = raw) all_actions)))"

fun parse_allow :: "nat \<Rightarrow> string list \<Rightarrow> (load_error + action_pattern list) option" where
  "parse_allow i [] = Some (Inr [])"
| "parse_allow i (s # ss) =
     (if length s > MAX_PATTERN_LEN then Some (Inl (PatternTooLong i (length s)))
      else case parse_action_pattern s of
             None \<Rightarrow> None
           | Some None \<Rightarrow> Some (Inl (UnknownPattern i s))
           | Some (Some p) \<Rightarrow>
               (case parse_allow i ss of
                  Some (Inr ps) \<Rightarrow> Some (Inr (p # ps))
                | r \<Rightarrow> r))"

fun check_row_paths :: "nat \<Rightarrow> nat \<Rightarrow> string list \<Rightarrow> load_error + unit" where
  "check_row_paths i item [] = Inr ()"
| "check_row_paths i item (e # es) =
     (case validate_entry e Posix of
        Inl why \<Rightarrow> Inl (BadRowPath i item why)
      | Inr _ \<Rightarrow> check_row_paths i (Suc item) es)"

definition parse_row_paths :: "nat \<Rightarrow> rule \<Rightarrow> string list option \<Rightarrow> load_error + string list option" where
  "parse_row_paths i r raw =
     (case raw of
        None \<Rightarrow> Inr None
      | Some entries \<Rightarrow>
          (if \<not> is_file_only r then Inl (PathsNotFileOnly i)
           else if entries = [] then Inl (PathsEmpty i)
           else if length entries > MAX_PATHS_PER_RULE then Inl (TooManyRowPaths i (length entries))
           else case check_row_paths i 0 entries of Inl e \<Rightarrow> Inl e | Inr _ \<Rightarrow> Inr (Some entries)))"

definition parse_auth_path :: "nat \<Rightarrow> string option \<Rightarrow> load_error + auth_path" where
  "parse_auth_path i raw =
     (case raw of
        None \<Rightarrow> Inr PinPath
      | Some s \<Rightarrow> (if s = ''pin'' then Inr PinPath else if s = ''ca'' then Inr CaPath else Inl (UnknownAuthPath i s)))"

definition parse_row_scope :: "nat \<Rightarrow> string option \<Rightarrow> load_error + acl_scope" where
  "parse_row_scope i raw =
     (case raw of
        None \<Rightarrow> Inr Owned
      | Some s \<Rightarrow> (if s = ''owned'' then Inr Owned else if s = ''any'' then Inr Any else Inl (UnknownScope i s)))"

definition parse_rule :: "nat \<Rightarrow> raw_rule \<Rightarrow> (load_error + rule) option" where
  "parse_rule i raw =
     (if r_principal raw = [] then Some (Inl (PrincipalEmpty i))
      else if length (r_principal raw) > MAX_PRINCIPAL_LEN then Some (Inl (PrincipalTooLong i))
      else if \<not> has_valid_principal_shape (r_principal raw) then Some (Inl (PrincipalShape i))
      else case parse_auth_path i (r_auth_path raw) of
             Inl e \<Rightarrow> Some (Inl e)
           | Inr ap \<Rightarrow>
               (if r_allow raw = [] then Some (Inl (AllowEmpty i))
                else if length (r_allow raw) > MAX_PATTERNS_PER_RULE
                then Some (Inl (TooManyPatterns i (length (r_allow raw))))
                else case parse_allow i (r_allow raw) of
                       None \<Rightarrow> None
                     | Some (Inl e) \<Rightarrow> Some (Inl e)
                     | Some (Inr allow) \<Rightarrow>
                         (case parse_row_scope i (r_scope raw) of
                            Inl e \<Rightarrow> Some (Inl e)
                          | Inr sc \<Rightarrow>
                              (let r = \<lparr>rule_principal = r_principal raw, rule_auth_path = ap, rule_allow = allow,
                                        rule_scope = sc, rule_paths = None\<rparr>
                               in case parse_row_paths i r (r_paths raw) of
                                    Inl e \<Rightarrow> Some (Inl e)
                                  | Inr ps \<Rightarrow> Some (Inr (r\<lparr>rule_paths := ps\<rparr>))))))"

fun parse_rules :: "nat \<Rightarrow> raw_rule list \<Rightarrow> (load_error + rule list) option" where
  "parse_rules i [] = Some (Inr [])"
| "parse_rules i (x # xs) =
     (case parse_rule i x of
        None \<Rightarrow> None
      | Some (Inl e) \<Rightarrow> Some (Inl e)
      | Some (Inr r) \<Rightarrow>
          (case parse_rules (Suc i) xs of
             Some (Inr rs) \<Rightarrow> Some (Inr (r # rs))
           | x \<Rightarrow> x))"

definition policy_parse :: "(string \<Rightarrow> string + raw_rule list) \<Rightarrow> string \<Rightarrow> (load_error + rule list) option" where
  "policy_parse toml text =
     (case toml text of
        Inl msg \<Rightarrow> Some (Inl (BadPolicyToml msg))
      | Inr raw \<Rightarrow>
          (if length raw > MAX_RULES then Some (Inl (TooManyRules (length raw))) else parse_rules 0 raw))"

section \<open>The file\<close>

datatype acl_file = Absent | OpenFailed string | Opened "nat option" "string + string"

datatype policy_load = Loaded "rule list" | Missing | Invalid load_error

definition load_path :: "(string \<Rightarrow> string + raw_rule list) \<Rightarrow> acl_file \<Rightarrow> policy_load option" where
  "load_path toml f =
     (case f of
        Absent \<Rightarrow> Some Missing
      | OpenFailed e \<Rightarrow> Some (Invalid (ReadFailed e))
      | Opened len contents \<Rightarrow>
          (if (case len of Some n \<Rightarrow> n > MAX_FILE_BYTES | None \<Rightarrow> False) then Some (Invalid OverCap)
           else case contents of
                  Inl e \<Rightarrow> Some (Invalid (ReadFailed e))
                | Inr bytes \<Rightarrow>
                    (let buf = take (MAX_FILE_BYTES + 1) bytes
                     in if length buf > MAX_FILE_BYTES then Some (Invalid OverCap)
                        else if \<not> utf8_valid buf then Some (Invalid NotUtf8)
                        else case policy_parse toml buf of
                               None \<Rightarrow> None
                             | Some (Inr rules) \<Rightarrow> Some (Loaded rules)
                             | Some (Inl e) \<Rightarrow> Some (Invalid e))))"

record principal_index =
  pin_principals :: "string list"
  has_ca_auth_path :: bool
  forward_socks_ineffective_rows :: "(nat \<times> auth_path) list"
  file_paths_missing_rows :: "(nat \<times> auth_path \<times> string option) list"

definition index_empty :: principal_index where
  "index_empty = \<lparr>pin_principals = [], has_ca_auth_path = False, forward_socks_ineffective_rows = [], file_paths_missing_rows = []\<rparr>"

text \<open>The \<open>BTreeSet\<close> of names is a list here; only membership is ever asked.\<close>

definition index_from_policy :: "rule list \<Rightarrow> principal_index" where
  "index_from_policy rules =
     (let local = map (\<lambda>r. (rule_principal r, rule_auth_path r)) (filter (\<lambda>r. rule_covers r ForwardLocal) rules)
      in \<lparr>pin_principals = map rule_principal (filter (\<lambda>r. rule_auth_path r = PinPath) rules),
          has_ca_auth_path = list_ex (\<lambda>r. rule_auth_path r = CaPath) rules,
          forward_socks_ineffective_rows =
            map (\<lambda>(i, r). (i, rule_auth_path r))
              (filter (\<lambda>(i, r). (rule_principal r, rule_auth_path r) \<notin> set local)
                (filter (\<lambda>(i, r). Exact ForwardSocks \<in> set (rule_allow r)) (enumerate 0 rules))),
          file_paths_missing_rows =
            map (\<lambda>(i, r). (i, rule_auth_path r,
                   if rule_auth_path r = PinPath then strip_prefix ''device:'' (rule_principal r) else None))
              (filter (\<lambda>(i, r). rule_paths r = None \<and> names_file_action r) (enumerate 0 rules))\<rparr>)"

datatype startup_diagnostic = PolicyMissing | PolicyInvalid load_error

definition load_policy_or_deny ::
    "(string \<Rightarrow> string + raw_rule list) \<Rightarrow> acl_file \<Rightarrow> (rule list option \<times> startup_diagnostic option \<times> principal_index) option" where
  "load_policy_or_deny toml f =
     (case load_path toml f of
        None \<Rightarrow> None
      | Some (Loaded rules) \<Rightarrow> Some (Some rules, None, index_from_policy rules)
      | Some Missing \<Rightarrow> Some (Some [], Some PolicyMissing, index_empty)
      | Some (Invalid e) \<Rightarrow> Some (None, Some (PolicyInvalid e), index_empty))"

definition load_or_deny_with_index ::
    "(string \<Rightarrow> string + raw_rule list) \<Rightarrow> acl_file \<Rightarrow> (principal \<Rightarrow> auth_path \<Rightarrow> bytes option \<Rightarrow> standing)
     \<Rightarrow> (authorizer \<times> startup_diagnostic option \<times> principal_index) option" where
  "load_or_deny_with_index toml f resolve =
     map_option (\<lambda>(policy, diag, index).
        (case policy of Some rules \<Rightarrow> resolving_authorizer rules resolve | None \<Rightarrow> deny_all, diag, index))
       (load_policy_or_deny toml f)"

end
