(* ===== verification/Loader_Guarantees.thy ===== *)
theory Loader_Guarantees
  imports Acl_Loader Grant_Guarantees
begin

text \<open>
  What loading the policy file guarantees: the grammar of actions is the one pin grants use, accepted
  rows are well-formed, and an unusable file denies everything.
\<close>

section \<open>The grammar of actions\<close>

lemma family_stem_iff: "starts_with (stem @ ''.'') (action_str a) \<longleftrightarrow> family_stem a = stem"
  by (cases a; auto simp: starts_with_iff family_stem_def append_eq_Cons_conv Cons_eq_append_conv)

lemma action_dot: "CHR ''.'' \<in> set (action_str a)"
  by (cases a) simp_all

lemma family_stem_prefix: "family_prefix_new (family_stem a @ ''.'') = Some (family_stem a @ ''.'')"
  by (cases a) (simp_all add: family_prefix_new_def family_stem_def ends_with_def starts_with_def)

lemma pattern_family: "pattern_matches (Prefix (stem @ ''.'')) a \<longleftrightarrow> family_stem a = stem"
  by (simp add: family_stem_iff)

lemma parse_pattern_family:
  assumes "strip_suffix ''.*'' s = Some stem" "stem \<noteq> []"
  shows "parse_action_pattern s = Some (if \<exists>a. family_stem a = stem then Some (Prefix (stem @ ''.'')) else None)"
proof (cases "find (\<lambda>a. CHR ''.'' \<in> set (action_str a) \<and> family_stem a = stem) all_actions")
  case None
  then have "\<not> (\<exists>a. family_stem a = stem)" by (auto simp: find_None_iff action_dot)
  then show ?thesis using assms None by (simp add: parse_action_pattern_def)
next
  case (Some a)
  then have "family_stem a = stem" by (auto simp: find_Some_iff)
  then show ?thesis using assms Some family_stem_prefix [of a] by (auto simp: parse_action_pattern_def)
qed

lemma parse_pattern_exact:
  assumes "strip_suffix ''.*'' s = None"
  shows "parse_action_pattern s = Some (case action_from_str s of Inr a \<Rightarrow> Some (Exact a) | Inl _ \<Rightarrow> None)"
  using assms by (auto simp: parse_action_pattern_def action_from_str_def split: option.splits)

lemma parse_pattern_total: "parse_action_pattern s \<noteq> None"
proof (cases "strip_suffix ''.*'' s")
  case (Some stem)
  then show ?thesis using parse_pattern_family [of s stem] by (cases "stem = []") (simp_all add: parse_action_pattern_def)
qed (simp add: parse_pattern_exact)

definition pattern_wf :: "action_pattern \<Rightarrow> bool" where
  "pattern_wf p = (case p of Exact a \<Rightarrow> True | Prefix s \<Rightarrow> (\<exists>a. s = family_stem a @ ''.''))"

lemma parse_pattern_wf: "parse_action_pattern s = Some (Some p) \<Longrightarrow> pattern_wf p"
proof (cases "strip_suffix ''.*'' s")
  case None
  then show "parse_action_pattern s = Some (Some p) \<Longrightarrow> pattern_wf p"
    by (auto simp: parse_pattern_exact pattern_wf_def split: sum.splits)
next
  case (Some stem)
  then show "parse_action_pattern s = Some (Some p) \<Longrightarrow> pattern_wf p"
    using parse_pattern_family [OF Some]
    by (cases "stem = []") (auto simp: parse_action_pattern_def pattern_wf_def split: if_splits)
qed

text \<open>
  The two grammars of actions agree. \<open>acl.toml\<close> rows and pin grants are read by separate code; on
  every text both refuse, or both accept and stand for the same actions, except that a pin refuses
  \<open>forward.socks\<close> by name and drops it from a family, where a row accepts it and the evaluator then
  denies it. Reading a row's pattern never trips the assertion on family prefixes.
\<close>

theorem action_grammars_agree:
  "case parse_action_pattern s of
     None \<Rightarrow> False
   | Some None \<Rightarrow> expand_item s = Inl UnknownAction
   | Some (Some p) \<Rightarrow>
       (if p = Exact ForwardSocks then s = ''forward.socks'' \<and> expand_item s = Inl Socks
        else case expand_item s of
               Inl _ \<Rightarrow> False
             | Inr as \<Rightarrow> set as = {a. pattern_matches p a \<and> a \<noteq> ForwardSocks})"
proof (cases "strip_suffix ''.*'' s")
  case None
  show ?thesis
  proof (cases "action_from_str s")
    case (Inl e)
    then show ?thesis using None by (simp add: parse_pattern_exact expand_item_def)
  next
    case (Inr a)
    then have "s = action_str a" by (simp add: action_from_str_Inr)
    moreover have "action_from_str ''forward.socks'' = Inr ForwardSocks" using action_from_str_str [of ForwardSocks] by simp
    ultimately show ?thesis using None Inr by (auto simp: parse_pattern_exact expand_item_def is_always_denied_def)
  qed
next
  case (Some stem)
  show ?thesis
  proof (cases "stem = []")
    case True
    then show ?thesis using Some by (simp add: parse_action_pattern_def expand_item_def)
  next
    case False
    have "filter (\<lambda>a. starts_with (stem @ ''.'') (action_str a)) all_actions = [] \<longleftrightarrow> \<not> (\<exists>a. family_stem a = stem)"
      by (simp add: filter_empty_conv family_stem_iff)
    then show ?thesis using Some False parse_pattern_family [OF Some False]
      by (auto simp: expand_item_def Let_def family_stem_iff is_always_denied_def)
  qed
qed

section \<open>Loading\<close>

definition rule_wf :: "rule \<Rightarrow> bool" where
  "rule_wf r \<longleftrightarrow> rule_principal r \<noteq> [] \<and> length (rule_principal r) \<le> MAX_PRINCIPAL_LEN
     \<and> has_valid_principal_shape (rule_principal r) \<and> rule_auth_path r \<noteq> PairingPath
     \<and> rule_allow r \<noteq> [] \<and> length (rule_allow r) \<le> MAX_PATTERNS_PER_RULE \<and> list_all pattern_wf (rule_allow r)
     \<and> (case rule_paths r of
          None \<Rightarrow> True
        | Some ps \<Rightarrow> is_file_only r \<and> ps \<noteq> [] \<and> length ps \<le> MAX_PATHS_PER_RULE
            \<and> list_all (\<lambda>e. validate_entry e Posix = Inr ()) ps)"

lemma parse_allow_facts:
  "parse_allow i ss \<noteq> None \<and>
   (\<forall>ps. parse_allow i ss = Some (Inr ps) \<longrightarrow> length ps = length ss \<and> list_all pattern_wf ps)"
proof (induction ss)
  case (Cons s ss)
  then show ?case using parse_pattern_total [of s]
    by (auto simp: parse_pattern_wf split: option.splits sum.splits if_splits)
qed simp

lemma check_row_paths_ok: "check_row_paths i k es = Inr u \<Longrightarrow> list_all (\<lambda>e. validate_entry e Posix = Inr ()) es"
  by (induction es arbitrary: k) (auto split: sum.splits)

lemma parse_row_paths_facts:
  "parse_row_paths i r raw = Inr ps \<Longrightarrow> case ps of None \<Rightarrow> True | Some es \<Rightarrow> is_file_only r \<and> es \<noteq> []
     \<and> length es \<le> MAX_PATHS_PER_RULE \<and> list_all (\<lambda>e. validate_entry e Posix = Inr ()) es"
  by (auto simp: parse_row_paths_def check_row_paths_ok split: option.splits if_splits sum.splits)

lemma parse_rule_total: "parse_rule i raw \<noteq> None"
  using parse_allow_facts [of i "r_allow raw"]
  by (auto simp: parse_rule_def Let_def split: sum.splits option.splits)

lemma parse_rule_wf:
  assumes "parse_rule i raw = Some (Inr r)"
  shows "rule_wf r"
proof -
  obtain ap allow sc ps where f:
      "r_principal raw \<noteq> []" "length (r_principal raw) \<le> MAX_PRINCIPAL_LEN" "has_valid_principal_shape (r_principal raw)"
      "parse_auth_path i (r_auth_path raw) = Inr ap" "r_allow raw \<noteq> []" "length (r_allow raw) \<le> MAX_PATTERNS_PER_RULE"
      "parse_allow i (r_allow raw) = Some (Inr allow)"
      "parse_row_paths i \<lparr>rule_principal = r_principal raw, rule_auth_path = ap, rule_allow = allow, rule_scope = sc, rule_paths = None\<rparr>
         (r_paths raw) = Inr ps"
      "r = \<lparr>rule_principal = r_principal raw, rule_auth_path = ap, rule_allow = allow, rule_scope = sc, rule_paths = ps\<rparr>"
    using assms by (auto simp: parse_rule_def Let_def not_less split: if_splits sum.splits option.splits)
  have "length allow = length (r_allow raw)" "list_all pattern_wf allow" using parse_allow_facts f(7) by blast+
  moreover have "ap \<noteq> PairingPath" using f(4) by (auto simp: parse_auth_path_def split: option.splits if_splits)
  ultimately show ?thesis using f parse_row_paths_facts [OF f(8)]
    by (auto simp: rule_wf_def is_file_only_def split: option.splits)
qed

lemma parse_rules_facts:
  "parse_rules i xs \<noteq> None \<and> (\<forall>rs. parse_rules i xs = Some (Inr rs) \<longrightarrow> length rs = length xs \<and> list_all rule_wf rs)"
proof (induction xs arbitrary: i)
  case (Cons x xs)
  show ?case using parse_rule_total [of i x] Cons.IH [of "Suc i"]
    by (auto simp: parse_rule_wf split: option.splits sum.splits)
qed simp

lemma policy_parse_facts:
  "policy_parse toml text \<noteq> None \<and>
   (\<forall>rs. policy_parse toml text = Some (Inr rs) \<longrightarrow> length rs \<le> MAX_RULES \<and> list_all rule_wf rs)"
  using parse_rules_facts [of 0] by (auto simp: policy_parse_def split: sum.splits if_splits)

lemma policy_parse_None [simp]: "policy_parse toml text = None \<longleftrightarrow> False"
  using policy_parse_facts by blast

text \<open>
  C31. What a load of the policy file promises. It never panics. A policy it accepts has at most 1024
  rows, so a row's index fits 32 bits, and every row is well-formed: a principal of one of the
  three shapes, never the pairing path, at least one pattern, every family prefix a whole family of
  the vocabulary with its dot, and paths only on rows of file actions, each absolute and normalised.
  A file that is there and unusable, for whatever reason, gives an authorizer that denies every
  request, roles included; only a file that is absent leaves the roles alone in force.
\<close>

theorem acl_load_sound:
  "case load_path toml f of
     None \<Rightarrow> False
   | Some (Loaded rules) \<Rightarrow> length rules \<le> 1024 \<and> list_all rule_wf rules
       \<and> map_option fst (load_or_deny_with_index toml f resolve) = Some (resolving_authorizer rules resolve)
   | Some Missing \<Rightarrow> f = Absent \<and> map_option fst (load_or_deny_with_index toml f resolve) = Some (resolving_authorizer [] resolve)
   | Some (Invalid e) \<Rightarrow> f \<noteq> Absent \<and> (case load_or_deny_with_index toml f resolve of
         Some (az, _, _) \<Rightarrow> \<not> is_allow (check az rq a res) \<and> \<not> has_file_grant az rq a | None \<Rightarrow> False)"
proof -
  have "load_path toml f \<noteq> None"
    by (auto simp: load_path_def Let_def split: acl_file.splits option.splits sum.splits if_splits)
  moreover have "length rules \<le> 1024 \<and> list_all rule_wf rules" if "load_path toml f = Some (Loaded rules)" for rules
    using that policy_parse_facts [of toml]
    by (auto simp: load_path_def Let_def MAX_RULES_def split: acl_file.splits option.splits sum.splits if_splits)
  moreover have "f = Absent" if "load_path toml f = Some Missing"
    using that by (auto simp: load_path_def Let_def split: acl_file.splits option.splits sum.splits if_splits)
  moreover have "f \<noteq> Absent" if "load_path toml f = Some (Invalid e)" for e
    using that by (auto simp: load_path_def)
  ultimately show ?thesis
    by (auto simp: load_or_deny_with_index_def load_policy_or_deny_def deny_all_def DENY_def is_allow_def
        split: option.splits policy_load.splits)
qed

text \<open>
  The error of a row echoes an unknown \<open>auth_path\<close> in full, whatever its length: no cap applies to that key.
\<close>

lemma auth_path_echo_unbounded:
  "parse_rule i \<lparr>r_principal = ''user:a'', r_auth_path = Some (replicate (Suc (Suc (Suc n))) CHR ''x''), r_allow = [], r_scope = None, r_paths = None\<rparr>
     = Some (Inl (UnknownAuthPath i (replicate (Suc (Suc (Suc n))) CHR ''x'')))"
  by (simp add: parse_rule_def MAX_PRINCIPAL_LEN_def has_valid_principal_shape_def strip_prefix_def parse_auth_path_def)

end
