(* ===== verification/Frame_Codec.thy ===== *)
theory Frame_Codec
  imports Qsh_Prelude
begin

text \<open>
  The framing of the byte streams (\<open>qsh-proto/src/frame.rs\<close>): a big-endian 32-bit length and the
  payload, with the incremental decoder, and the header of a datagram (\<open>qsh-proto/src/datagram.rs\<close>).
  Lengths are natural numbers; \<open>drain\<close> is the loop a reader runs after each push.
\<close>

section \<open>Frames\<close>

definition CONTROL_FRAME_MAX :: nat where
  "CONTROL_FRAME_MAX = 256 * 1024"

definition DATA_FRAME_MAX :: nat where
  "DATA_FRAME_MAX = 64 * 1024"

definition HEADER_LEN :: nat where
  "HEADER_LEN = 4"

datatype frame_error = Oversize nat nat | PayloadTooLarge

definition to_be_bytes :: "nat \<Rightarrow> bytes" where
  "to_be_bytes n = [of_nat (n div 2 ^ 24), of_nat (n div 2 ^ 16), of_nat (n div 2 ^ 8), of_nat n]"

definition from_be_bytes :: "byte \<Rightarrow> byte \<Rightarrow> byte \<Rightarrow> byte \<Rightarrow> nat" where
  "from_be_bytes a b c d = ((unat a * 256 + unat b) * 256 + unat c) * 256 + unat d"

definition encode_frame :: "bytes \<Rightarrow> frame_error + bytes" where
  "encode_frame payload =
     (if length payload < 2 ^ 32 then Inr (to_be_bytes (length payload) @ payload) else Inl PayloadTooLarge)"

record frame_decoder =
  buf :: bytes
  max_frame_len :: nat

definition decoder_new :: "nat \<Rightarrow> frame_decoder" where
  "decoder_new m = \<lparr>buf = [], max_frame_len = m\<rparr>"

definition decoder_push :: "bytes \<Rightarrow> frame_decoder \<Rightarrow> frame_decoder" where
  "decoder_push bs d = d\<lparr>buf := buf d @ bs\<rparr>"

definition buffered :: "frame_decoder \<Rightarrow> nat" where
  "buffered d = length (buf d)"

definition take_remaining :: "frame_decoder \<Rightarrow> frame_decoder \<times> bytes" where
  "take_remaining d = (d\<lparr>buf := []\<rparr>, buf d)"

definition next_frame :: "frame_decoder \<Rightarrow> frame_decoder \<times> (frame_error + bytes option)" where
  "next_frame d =
     (if length (buf d) < HEADER_LEN then (d, Inr None)
      else let len = from_be_bytes (buf d ! 0) (buf d ! 1) (buf d ! 2) (buf d ! 3)
           in if len > max_frame_len d then (d, Inl (Oversize len (max_frame_len d)))
              else let tot = HEADER_LEN + len
                   in if length (buf d) < tot then (d, Inr None)
                      else (d\<lparr>buf := drop tot (buf d)\<rparr>, Inr (Some (drop HEADER_LEN (take tot (buf d))))))"

lemma next_frame_shrinks: "next_frame d = (d', Inr (Some p)) \<Longrightarrow> length (buf d') < length (buf d)"
  by (auto simp: next_frame_def HEADER_LEN_def Let_def split: if_splits)

function drain :: "frame_decoder \<Rightarrow> frame_decoder \<times> bytes list \<times> frame_error option" where
  "drain d =
     (case next_frame d of
        (d', Inl e) \<Rightarrow> (d', [], Some e)
      | (d', Inr None) \<Rightarrow> (d', [], None)
      | (d', Inr (Some p)) \<Rightarrow> (let (d'', ps, e) = drain d' in (d'', p # ps, e)))"
  by pat_completeness auto
termination by (relation "measure (\<lambda>d. length (buf d))") (auto dest: next_frame_shrinks [OF sym])

declare drain.simps [simp del]

section \<open>Datagrams\<close>

definition CHANNEL_ID_LEN :: nat where
  "CHANNEL_ID_LEN = 16"

definition MAX_DATAGRAM_FRAME :: nat where
  "MAX_DATAGRAM_FRAME = 64 * 1024"

definition DATAGRAM_HEADER_LEN :: nat where
  "DATAGRAM_HEADER_LEN = CHANNEL_ID_LEN + 1"

datatype datagram_kind = ScreenUpdate | ScreenAck | Input | ScreenEcho

fun datagram_kind_byte :: "datagram_kind \<Rightarrow> byte" where
  "datagram_kind_byte ScreenUpdate = 10"
| "datagram_kind_byte ScreenAck = 11"
| "datagram_kind_byte Input = 12"
| "datagram_kind_byte ScreenEcho = 13"

definition datagram_kind_from_u8 :: "byte \<Rightarrow> datagram_kind option" where
  "datagram_kind_from_u8 v =
     (if v = 10 then Some ScreenUpdate else if v = 11 then Some ScreenAck
      else if v = 12 then Some Input else if v = 13 then Some ScreenEcho else None)"

datatype datagram_error = DatagramTruncated | DatagramTooLong | UnknownKind byte

record datagram_frame =
  channel :: bytes
  kind :: datagram_kind
  payload :: bytes

definition datagram_encode :: "datagram_frame \<Rightarrow> bytes" where
  "datagram_encode f = channel f @ [datagram_kind_byte (kind f)] @ payload f"

definition datagram_decode :: "bytes \<Rightarrow> datagram_error + datagram_frame" where
  "datagram_decode bs =
     (if length bs > MAX_DATAGRAM_FRAME then Inl DatagramTooLong
      else if length bs < DATAGRAM_HEADER_LEN then Inl DatagramTruncated
      else let k = bs ! CHANNEL_ID_LEN
           in case datagram_kind_from_u8 k of
                None \<Rightarrow> Inl (UnknownKind k)
              | Some kd \<Rightarrow> Inr \<lparr>channel = take CHANNEL_ID_LEN bs, kind = kd, payload = drop DATAGRAM_HEADER_LEN bs\<rparr>)"

section \<open>Round trips\<close>

lemma base_256:
  assumes "n < 2 ^ 32"
  shows "((n div 2 ^ 24 mod 256 * 256 + n div 2 ^ 16 mod 256) * 256 + n div 2 ^ 8 mod 256) * 256 + n mod 256 = (n :: nat)"
proof -
  define a b c where "a = n div 256" and "b = a div 256" and "c = b div 256"
  have "n div 2 ^ 8 = a" "n div 2 ^ 16 = b" "n div 2 ^ 24 = c"
    by (simp_all add: a_def b_def c_def flip: div_mult2_eq)
  moreover have "c mod 256 = c" using assms by (simp add: a_def b_def c_def flip: div_mult2_eq)
  moreover have "c * 256 + b mod 256 = b" "b * 256 + a mod 256 = a" "a * 256 + n mod 256 = n"
    by (simp_all add: a_def b_def c_def)
  ultimately show ?thesis by simp
qed

lemma be_roundtrip:
  assumes "n < 2 ^ 32"
  shows "from_be_bytes (of_nat (n div 2 ^ 24)) (of_nat (n div 2 ^ 16)) (of_nat (n div 2 ^ 8)) (of_nat n) = n"
proof -
  have u: "unat (of_nat m :: byte) = m mod 256" for m by (simp add: unat_of_nat)
  show ?thesis unfolding from_be_bytes_def u by (rule base_256 [OF assms])
qed

lemma next_frame_encoded:
  assumes "length p < 2 ^ 32" "length p \<le> max_frame_len d" "buf d = to_be_bytes (length p) @ p @ rest"
  shows "next_frame d = (d\<lparr>buf := rest\<rparr>, Inr (Some p))"
proof -
  have "from_be_bytes (buf d ! 0) (buf d ! 1) (buf d ! 2) (buf d ! 3) = length p"
    unfolding assms(3) to_be_bytes_def using be_roundtrip [OF assms(1)] by (simp add: nth_append)
  moreover have "length (to_be_bytes (length p)) = HEADER_LEN" by (simp add: to_be_bytes_def HEADER_LEN_def)
  ultimately show ?thesis using assms(2,3) by (simp add: next_frame_def)
qed

end
