(* ===== verification/Frame_Guarantees.thy ===== *)
theory Frame_Guarantees
  imports Frame_Codec "HOL-Library.Sublist"
begin

text \<open>
  What the stream framing promises: whatever pieces the transport cuts the byte stream into, the
  reader gets the payloads that were sent, refuses an over-long frame on its header alone, and never
  holds back more than one frame.  The datagram header is decoded exactly where it was encoded.
\<close>

section \<open>Feeding a decoder piece by piece\<close>

definition feed_step :: "bytes \<Rightarrow> frame_decoder \<times> bytes list \<times> frame_error option \<Rightarrow>
    frame_decoder \<times> bytes list \<times> frame_error option" where
  "feed_step c r =
     (case r of
        (d, ps, Some e) \<Rightarrow> (d, ps, Some e)
      | (d, ps, None) \<Rightarrow> (let (d', qs, e) = drain (decoder_push c d) in (d', ps @ qs, e)))"

definition feed :: "nat \<Rightarrow> bytes list \<Rightarrow> frame_decoder \<times> bytes list \<times> frame_error option" where
  "feed m chunks = fold feed_step chunks (decoder_new m, [], None)"

lemma push_simps [simp]:
  "buf (decoder_push c d) = buf d @ c" "max_frame_len (decoder_push c d) = max_frame_len d"
  by (simp_all add: decoder_push_def)

lemma push_push [simp]: "decoder_push b (decoder_push a d) = decoder_push (a @ b) d"
  by (simp add: decoder_push_def)

lemma next_frame_push_some:
  assumes "next_frame d = (d', Inr (Some p))"
  shows "next_frame (decoder_push c d) = (decoder_push c d', Inr (Some p))"
proof -
  define len where "len = from_be_bytes (buf d ! 0) (buf d ! 1) (buf d ! 2) (buf d ! 3)"
  have a: "\<not> length (buf d) < HEADER_LEN" "\<not> max_frame_len d < len" "\<not> length (buf d) < HEADER_LEN + len"
    "d' = d\<lparr>buf := drop (HEADER_LEN + len) (buf d)\<rparr>" "p = drop HEADER_LEN (take (HEADER_LEN + len) (buf d))"
    using assms by (simp_all add: next_frame_def Let_def len_def split: if_splits)
  have "from_be_bytes ((buf d @ c) ! 0) ((buf d @ c) ! 1) ((buf d @ c) ! 2) ((buf d @ c) ! 3) = len"
    using a(1) by (auto simp: len_def nth_append HEADER_LEN_def)
  then show ?thesis using a by (simp add: next_frame_def decoder_push_def Let_def)
qed

lemma next_frame_push_error:
  assumes "next_frame d = (d', Inl e)"
  shows "next_frame (decoder_push c d) = (decoder_push c d, Inl e)"
  using assms by (auto simp: next_frame_def HEADER_LEN_def Let_def nth_append split: if_splits)

lemma next_frame_total:
  "(\<exists>e. next_frame d = (d, Inl e)) \<or> next_frame d = (d, Inr None) \<or> (\<exists>d' p. next_frame d = (d', Inr (Some p)))"
  by (simp add: next_frame_def Let_def)

lemma drain_error: "next_frame d = (d', Inl e) \<Longrightarrow> drain d = (d', [], Some e)"
  by (subst drain.simps) simp

lemma drain_none: "next_frame d = (d', Inr None) \<Longrightarrow> drain d = (d', [], None)"
  by (subst drain.simps) simp

lemma drain_some:
  "next_frame d = (d', Inr (Some p)) \<Longrightarrow> drain d = (let (d'', ps, e) = drain d' in (d'', p # ps, e))"
  by (subst drain.simps) simp

lemma drain_cases [case_names error none some]:
  assumes "\<And>d e. next_frame d = (d, Inl e) \<Longrightarrow> P d" "\<And>d. next_frame d = (d, Inr None) \<Longrightarrow> P d"
    and "\<And>d d' p. next_frame d = (d', Inr (Some p)) \<Longrightarrow> P d' \<Longrightarrow> P d"
  shows "P d"
proof (induction "length (buf d)" arbitrary: d rule: less_induct)
  case less
  then show ?case using next_frame_total [of d] assms next_frame_shrinks [of d] by blast
qed

lemma drain_push:
  "drain (decoder_push c d) =
     (case drain d of
        (d', ps, Some e) \<Rightarrow> (decoder_push c d', ps, Some e)
      | (d', ps, None) \<Rightarrow> (let (d'', qs, e) = drain (decoder_push c d') in (d'', ps @ qs, e)))"
proof (induction d rule: drain_cases)
  case (error d e)
  then show ?case using drain_error [OF next_frame_push_error [OF error, of c]] drain_error [OF error] by simp
next
  case (none d)
  then show ?case using drain_none [OF none] by simp
next
  case (some d d' p)
  obtain x qs e where x: "drain d' = (x, qs, e)" by (cases "drain d'")
  show ?case
    using some x drain_some [OF some(1)] drain_some [OF next_frame_push_some [OF some(1), of c]]
    by (cases e; cases "drain (decoder_push c x)") simp_all
qed

lemma feed_drain:
  assumes "drain d = (d1, ps, e)"
  shows "snd (fold feed_step cs (d1, ps, e)) = snd (drain (decoder_push (concat cs) d)) \<and>
    (snd (snd (drain (decoder_push (concat cs) d))) = None \<longrightarrow>
       fst (fold feed_step cs (d1, ps, e)) = fst (drain (decoder_push (concat cs) d)))"
  using assms
proof (induction cs arbitrary: d d1 ps e)
  case Nil
  then show ?case by (simp add: decoder_push_def)
next
  case (Cons c cs)
  have r: "drain (decoder_push c d) = (if e = None then feed_step c (d1, ps, e) else (decoder_push c d1, ps, e))"
    using drain_push [of c d] Cons.prems by (auto simp: feed_step_def split: option.splits)
  show ?case
  proof (cases e)
    case None
    then show ?thesis using Cons.IH [of "decoder_push c d"] r by (cases "feed_step c (d1, ps, e)") auto
  next
    case (Some x)
    have stuck: "fold feed_step ds (d1, ps, Some x) = (d1, ps, Some x)" for ds
      by (induction ds) (auto simp: feed_step_def)
    show ?thesis using drain_push [of "c @ concat cs" d] Cons.prems Some stuck [of "c # cs"] by simp
  qed
qed

lemma drain_new: "drain (decoder_new m) = (decoder_new m, [], None)"
  by (rule drain_none) (simp add: next_frame_def decoder_new_def HEADER_LEN_def)

lemmas feed_whole = feed_drain [OF drain_new, folded feed_def]

section \<open>Encoded streams\<close>

lemma encode_frame_Inr: "encode_frame p = Inr b \<longleftrightarrow> length p < 2 ^ 32 \<and> b = to_be_bytes (length p) @ p"
  by (auto simp: encode_frame_def)

lemma drain_encoded:
  assumes "list_all2 (\<lambda>p b. encode_frame p = Inr b) ps bs" "list_all (\<lambda>p. length p \<le> m) ps"
  shows "drain \<lparr>buf = concat bs @ rest, max_frame_len = m\<rparr> =
    (let (d, qs, e) = drain \<lparr>buf = rest, max_frame_len = m\<rparr> in (d, ps @ qs, e))"
  using assms
proof (induction ps bs rule: list_all2_induct)
  case Nil
  then show ?case by simp
next
  case (Cons p ps b bs)
  have "next_frame \<lparr>buf = concat (b # bs) @ rest, max_frame_len = m\<rparr> =
      (\<lparr>buf = concat bs @ rest, max_frame_len = m\<rparr>, Inr (Some p))"
    using Cons.hyps(1) Cons.prems
    by (subst next_frame_encoded [where p = p and rest = "concat bs @ rest"]) (auto simp: encode_frame_Inr)
  then show ?case using Cons.IH Cons.prems by (subst drain_some) (auto split: prod.splits)
qed

lemma partial_frame_waits:
  assumes "encode_frame q = Inr b" "length q \<le> m" "strict_prefix r b"
  shows "drain \<lparr>buf = r, max_frame_len = m\<rparr> = (\<lparr>buf = r, max_frame_len = m\<rparr>, [], None)"
proof -
  obtain t where t: "b = r @ t" "t \<noteq> []" using assms(3) by (auto simp: strict_prefix_def prefix_def)
  let ?d = "\<lparr>buf = r, max_frame_len = m\<rparr>"
  have whole: "next_frame (decoder_push t ?d) = ((decoder_push t ?d)\<lparr>buf := []\<rparr>, Inr (Some q))"
    using assms(1,2) t by (intro next_frame_encoded) (auto simp: encode_frame_Inr)
  have "\<nexists>e. next_frame ?d = (?d, Inl e)"
    using next_frame_push_error [of ?d ?d _ t] whole by (auto simp del: push_simps)
  moreover have "\<nexists>d' p. next_frame ?d = (d', Inr (Some p))"
  proof
    assume "\<exists>d' p. next_frame ?d = (d', Inr (Some p))"
    then obtain d' p where "next_frame ?d = (d', Inr (Some p))" by blast
    then have "decoder_push t d' = (decoder_push t ?d)\<lparr>buf := []\<rparr>"
      using next_frame_push_some [of ?d d' p t] whole by simp
    then have "buf (decoder_push t d') = []" by simp
    then show False using t(2) by simp
  qed
  ultimately show ?thesis using next_frame_total [of ?d] by (intro drain_none) blast
qed

lemma drain_error_header:
  assumes "HEADER_LEN \<le> length r" "from_be_bytes (r ! 0) (r ! 1) (r ! 2) (r ! 3) = len" "m < len"
  shows "drain \<lparr>buf = r, max_frame_len = m\<rparr> = (\<lparr>buf = r, max_frame_len = m\<rparr>, [], Some (Oversize len m))"
  using assms by (intro drain_error) (simp add: next_frame_def)

lemma drain_leaves_less:
  "drain d = (d', ps, None) \<Longrightarrow> length (buf d') < HEADER_LEN + max_frame_len d"
proof (induction d arbitrary: ps rule: drain_cases)
  case (error d e)
  then show ?case by (simp add: drain_error)
next
  case (none d)
  then show ?case using drain_none [OF none(1)] by (auto simp: next_frame_def HEADER_LEN_def Let_def split: if_splits)
next
  case (some d d1 p)
  obtain qs where "drain d1 = (d', qs, None)"
    using some(3) drain_some [OF some(1)] by (auto split: prod.splits)
  moreover have "max_frame_len d1 = max_frame_len d"
    using some(1) by (auto simp: next_frame_def Let_def split: if_splits)
  ultimately show ?case using some(2) by simp
qed

lemma push_new [simp]: "decoder_push c (decoder_new m) = \<lparr>buf = c, max_frame_len = m\<rparr>"
  by (simp add: decoder_push_def decoder_new_def)

text \<open>
  C32. Framing is transparent to how the transport cuts the stream.  Take any payloads within the
  decoder's cap, the frames \<^const>\<open>encode_frame\<close> makes of them, any tail, and any way to cut the whole into
  chunks that are pushed and drained one after the other.  When the tail is the beginning of another
  acceptable frame, exactly the payloads come out, in order, and exactly the tail stays buffered.
  When the tail is a header that declares more than the cap, exactly the payloads come out and then
  the error naming the declared length and the cap, whether or not any payload byte follows.
\<close>

theorem frame_stream_exact:
  assumes "list_all2 (\<lambda>p b. encode_frame p = Inr b) ps bs" "list_all (\<lambda>p. length p \<le> m) ps"
    and "concat chunks = concat bs @ rest"
  shows "(encode_frame q = Inr b \<and> length q \<le> m \<and> strict_prefix rest b \<longrightarrow>
      feed m chunks = (\<lparr>buf = rest, max_frame_len = m\<rparr>, ps, None)) \<and>
    (HEADER_LEN \<le> length rest \<and> from_be_bytes (rest ! 0) (rest ! 1) (rest ! 2) (rest ! 3) = len \<and> m < len \<longrightarrow>
      snd (feed m chunks) = (ps, Some (Oversize len m)))"
  using feed_whole [of m chunks] drain_encoded [OF assms(1,2), of rest] assms(3)
  by (auto simp: partial_frame_waits drain_error_header prod_eq_iff)

text \<open>The payloads \<open>[7]\<close> and \<open>[]\<close>, cut inside the second header and followed by an over-long header or by two bytes.\<close>

theorem frame_stream_exact_witness:
  "feed 2 [[0, 0, 0, 1, 7, 0], [0, 0, 0, 0, 0]] = (\<lparr>buf = [0, 0], max_frame_len = 2\<rparr>, [[7], []], None) \<and>
   snd (feed 2 [[0, 0, 0, 1, 7, 0], [0, 0, 0, 0, 0], [0, 3, 9]]) = ([[7], []], Some (Oversize 3 2))"
proof -
  have e: "encode_frame [7] = Inr [0, 0, 0, 1, 7]" "encode_frame [] = Inr [0, 0, 0, 0]"
    by (simp_all add: encode_frame_def to_be_bytes_def)
  have "feed 2 [[0, 0, 0, 1, 7, 0], [0, 0, 0, 0, 0]] = (\<lparr>buf = [0, 0], max_frame_len = 2\<rparr>, [[7], []], None)"
    using frame_stream_exact [of "[[7], []]" "[[0, 0, 0, 1, 7], [0, 0, 0, 0]]" 2
        "[[0, 0, 0, 1, 7, 0], [0, 0, 0, 0, 0]]" "[0, 0]" "[]" "[0, 0, 0, 0]" 0] e by simp
  moreover have "snd (feed 2 [[0, 0, 0, 1, 7, 0], [0, 0, 0, 0, 0], [0, 3, 9]]) = ([[7], []], Some (Oversize 3 2))"
    using frame_stream_exact [of "[[7], []]" "[[0, 0, 0, 1, 7], [0, 0, 0, 0]]" 2
        "[[0, 0, 0, 1, 7, 0], [0, 0, 0, 0, 0], [0, 3, 9]]" "[0, 0, 0, 3, 9]" "[]" "[0, 0, 0, 0]" 3] e
    by (simp add: HEADER_LEN_def from_be_bytes_def)
  ultimately show ?thesis by blast
qed

text \<open>
  Between two pushes a decoder that reported no error holds less than one header and one largest
  payload, whatever bytes it was given.
\<close>

lemma feed_bounded:
  assumes "feed m chunks = (d, ps, None)"
  shows "buffered d < HEADER_LEN + m"
proof -
  have "drain (decoder_push (concat chunks) (decoder_new m)) = (d, ps, None)"
    using feed_whole [of m chunks] assms by (auto simp: prod_eq_iff)
  from drain_leaves_less [OF this] show ?thesis by (simp add: buffered_def)
qed

section \<open>Datagrams\<close>

lemma kind_from_u8: "datagram_kind_from_u8 v = Some k \<longleftrightarrow> datagram_kind_byte k = v"
  by (cases k) (auto simp: datagram_kind_from_u8_def)

lemma datagram_decode_encode:
  assumes "length (channel f) = CHANNEL_ID_LEN" "length (datagram_encode f) \<le> MAX_DATAGRAM_FRAME"
  shows "datagram_decode (datagram_encode f) = Inr f"
proof -
  let ?bs = "datagram_encode f"
  have "?bs ! CHANNEL_ID_LEN = datagram_kind_byte (kind f)" "DATAGRAM_HEADER_LEN \<le> length ?bs"
    "take CHANNEL_ID_LEN ?bs = channel f" "drop DATAGRAM_HEADER_LEN ?bs = payload f"
    using assms(1) by (auto simp: datagram_encode_def DATAGRAM_HEADER_LEN_def nth_append)
  then show ?thesis
    using assms(2) kind_from_u8 [of "datagram_kind_byte (kind f)" "kind f"] by (cases f) (simp add: datagram_decode_def)
qed

text \<open>
  A datagram decodes to a frame exactly when it is the encoding of that frame, the frame's
  channel id has its sixteen bytes and the datagram is within the cap: decoding inverts encoding,
  accepts nothing else, and drops no byte.
\<close>

theorem datagram_exact:
  "datagram_decode bs = Inr f \<longleftrightarrow>
     datagram_encode f = bs \<and> length (channel f) = CHANNEL_ID_LEN \<and> length bs \<le> MAX_DATAGRAM_FRAME"
proof
  assume d: "datagram_decode bs = Inr f"
  then have n: "DATAGRAM_HEADER_LEN \<le> length bs" "length bs \<le> MAX_DATAGRAM_FRAME"
    by (auto simp: datagram_decode_def split: if_splits)
  obtain k where k: "datagram_kind_byte k = bs ! CHANNEL_ID_LEN"
    "f = \<lparr>channel = take CHANNEL_ID_LEN bs, kind = k, payload = drop DATAGRAM_HEADER_LEN bs\<rparr>"
    using d n by (auto simp: datagram_decode_def Let_def kind_from_u8 split: option.splits)
  have "bs = take CHANNEL_ID_LEN bs @ [bs ! CHANNEL_ID_LEN] @ drop DATAGRAM_HEADER_LEN bs"
    using n(1) id_take_nth_drop [of CHANNEL_ID_LEN bs] by (simp add: DATAGRAM_HEADER_LEN_def)
  then show "datagram_encode f = bs \<and> length (channel f) = CHANNEL_ID_LEN \<and> length bs \<le> MAX_DATAGRAM_FRAME"
    using k n by (simp add: datagram_encode_def DATAGRAM_HEADER_LEN_def)
qed (auto simp: datagram_decode_encode)

interpretation datagram_codec: codec datagram_encode datagram_decode
  "\<lambda>f. length (channel f) = CHANNEL_ID_LEN \<and> length (datagram_encode f) \<le> MAX_DATAGRAM_FRAME"
  by unfold_locales (simp add: datagram_decode_encode)

end
