(* ===== verification/Screen_State.thy ===== *)
theory Screen_State
  imports Qsh_Prelude
begin

unbundle bit_operations_syntax

text \<open>
  The normalised terminal screen (\<open>qsh-proto/src/screen/mod.rs\<close>) and the byte-level helpers of its
  formats (\<open>screen/codec.rs\<close>): cells, rows, modes, the blank screen, the canonical bytes the state hash is
  taken over, and the readers and writers of variable-length numbers, strings, colours and cells. Text
  is a list of bytes; dimensions and lengths are natural numbers. The hash function is an argument.
\<close>

section \<open>The screen\<close>

definition MAX_DIM :: nat where
  "MAX_DIM = 2048"

definition MAX_CELLS :: nat where
  "MAX_CELLS = 2 ^ 20"

definition MAX_CELL_TEXT :: nat where
  "MAX_CELL_TEXT = 32"

definition HASH_LEN :: nat where
  "HASH_LEN = 8"

datatype color = DefaultColor | Idx byte | Rgb byte byte byte

definition WIDE :: byte where
  "WIDE = 32"

definition WIDE_CONT :: byte where
  "WIDE_CONT = 64"

definition CELL_FLAGS_ALL :: byte where
  "CELL_FLAGS_ALL = 127"

record cell =
  ctext :: bytes
  fg :: color
  bg :: color
  flags :: byte

definition cell_default :: cell where
  "cell_default = \<lparr>ctext = [], fg = DefaultColor, bg = DefaultColor, flags = 0\<rparr>"

record row =
  cells :: "cell list"
  wrapped :: bool

record modes =
  mode_flags :: byte
  mouse_mode :: byte
  mouse_encoding :: byte

definition modes_default :: modes where
  "modes_default = \<lparr>mode_flags = 0, mouse_mode = 0, mouse_encoding = 0\<rparr>"

definition MODE_FLAGS_ALL :: byte where
  "MODE_FLAGS_ALL = 31"

definition modes_is_valid :: "modes \<Rightarrow> bool" where
  "modes_is_valid m \<longleftrightarrow> mode_flags m AND NOT MODE_FLAGS_ALL = 0 \<and> mouse_mode m \<le> 4 \<and> mouse_encoding m \<le> 2"

record screen_state =
  rows :: nat
  cols :: nat
  cursor_row :: nat
  cursor_col :: nat
  modes :: modes
  grid :: "row list"

record bad_size =
  bad_rows :: nat
  bad_cols :: nat

definition size_is_valid :: "nat \<Rightarrow> nat \<Rightarrow> bool" where
  "size_is_valid r c \<longleftrightarrow> 1 \<le> r \<and> r \<le> MAX_DIM \<and> 1 \<le> c \<and> c \<le> MAX_DIM \<and> r * c \<le> MAX_CELLS"

definition blank :: "nat \<Rightarrow> nat \<Rightarrow> bad_size + screen_state" where
  "blank r c =
     (if \<not> size_is_valid r c then Inl \<lparr>bad_rows = r, bad_cols = c\<rparr>
      else Inr \<lparr>rows = r, cols = c, cursor_row = 0, cursor_col = 0, modes = modes_default,
                grid = replicate r \<lparr>cells = replicate c cell_default, wrapped = False\<rparr>\<rparr>)"

section \<open>Writers\<close>

fun put_varint :: "nat \<Rightarrow> bytes" where
  "put_varint v =
     (let low = of_nat (v mod 128); v' = v div 128
      in if v' = 0 then [low] else (low OR 0x80) # put_varint v')"

declare put_varint.simps [simp del]

definition put_string :: "bytes \<Rightarrow> bytes" where
  "put_string s = put_varint (length s) @ s"

fun color_kind :: "color \<Rightarrow> byte" where
  "color_kind DefaultColor = 0"
| "color_kind (Idx _) = 1"
| "color_kind (Rgb _ _ _) = 2"

fun put_color :: "color \<Rightarrow> bytes" where
  "put_color DefaultColor = []"
| "put_color (Idx i) = [i]"
| "put_color (Rgb r g b) = [r, g, b]"

definition put_cell :: "cell \<Rightarrow> bytes" where
  "put_cell c =
     (let has_text = ctext c \<noteq> []
      in [(flags c AND CELL_FLAGS_ALL) OR (if has_text then 0x80 else 0),
          color_kind (fg c) OR push_bit 2 (color_kind (bg c))]
         @ put_color (fg c) @ put_color (bg c) @ (if has_text then put_string (ctext c) else []))"

definition cell_is_valid :: "cell \<Rightarrow> bool" where
  "cell_is_valid c \<longleftrightarrow>
     flags c AND NOT CELL_FLAGS_ALL = 0
     \<and> \<not> (flags c AND WIDE \<noteq> 0 \<and> flags c AND WIDE_CONT \<noteq> 0)
     \<and> length (ctext c) \<le> MAX_CELL_TEXT
     \<and> \<not> has_control (ctext c)
     \<and> \<not> (flags c AND WIDE_CONT \<noteq> 0 \<and> ctext c \<noteq> [])"

definition u16_le_bytes :: "nat \<Rightarrow> bytes" where
  "u16_le_bytes v = [of_nat v, of_nat (v div 256)]"

definition put_bool :: "bool \<Rightarrow> byte" where
  "put_bool b = (if b then 1 else 0)"

definition canonical_bytes :: "screen_state \<Rightarrow> bytes" where
  "canonical_bytes s =
     concat (map u16_le_bytes [rows s, cols s, cursor_row s, cursor_col s])
     @ [mode_flags (modes s), mouse_mode (modes s), mouse_encoding (modes s)]
     @ concat (map (\<lambda>r. put_bool (wrapped r) # concat (map put_cell (cells r))) (grid s))"

definition state_hash_of :: "(bytes \<Rightarrow> bytes) \<Rightarrow> screen_state \<Rightarrow> bytes" where
  "state_hash_of blake3 s = take HASH_LEN (blake3 (canonical_bytes s))"

definition screen_is_valid :: "screen_state \<Rightarrow> bool" where
  "screen_is_valid s \<longleftrightarrow>
     size_is_valid (rows s) (cols s)
     \<and> cursor_row s < rows s
     \<and> cursor_col s < cols s
     \<and> modes_is_valid (modes s)
     \<and> length (grid s) = rows s
     \<and> list_all (\<lambda>r. length (cells r) = cols s \<and> list_all cell_is_valid (cells r)) (grid s)"

section \<open>Readers\<close>

datatype decode_error = Truncated | Trailing | Invalid string

definition finish :: "bytes \<Rightarrow> decode_error + unit" where
  "finish bs = (if bs = [] then Inr () else Inl Trailing)"

fun get_u8 :: "bytes \<Rightarrow> decode_error + byte \<times> bytes" where
  "get_u8 [] = Inl Truncated"
| "get_u8 (b # bs) = Inr (b, bs)"

definition get_take :: "nat \<Rightarrow> bytes \<Rightarrow> decode_error + bytes \<times> bytes" where
  "get_take n bs = (if length bs < n then Inl Truncated else Inr (take n bs, drop n bs))"

fun varint_loop :: "nat \<Rightarrow> nat \<Rightarrow> bytes \<Rightarrow> decode_error + nat \<times> bytes" where
  "varint_loop i v [] = (if i < 10 then Inl Truncated else Inl (Invalid ''varint is longer than 10 bytes''))"
| "varint_loop i v (b # bs) =
     (if i < 10 then
        let low = unat (b AND 0x7f)
        in if i = 9 \<and> low > 1 then Inl (Invalid ''varint overflows 64 bits'')
           else let v' = v OR push_bit (7 * i) low
                in if b AND 0x80 = 0
                   then if i > 0 \<and> b = 0 then Inl (Invalid ''varint is not the shortest form'') else Inr (v', bs)
                   else varint_loop (i + 1) v' bs
      else Inl (Invalid ''varint is longer than 10 bytes''))"

definition get_varint :: "bytes \<Rightarrow> decode_error + nat \<times> bytes" where
  "get_varint bs = varint_loop 0 0 bs"

definition get_varint_u16 :: "bytes \<Rightarrow> decode_error + nat \<times> bytes" where
  "get_varint_u16 bs =
     and_then (get_varint bs) (\<lambda>(v, bs).
     and_then (guard (v < 2 ^ 16) (Invalid ''value does not fit in 16 bits'')) (\<lambda>_. Inr (v, bs)))"

definition get_count :: "nat \<Rightarrow> bytes \<Rightarrow> decode_error + nat \<times> bytes" where
  "get_count min_bytes_each bs =
     and_then (get_varint bs) (\<lambda>(n, bs).
     and_then (guard (n \<le> length bs div max min_bytes_each 1) Truncated) (\<lambda>_. Inr (n, bs)))"

definition get_string :: "nat \<Rightarrow> bytes \<Rightarrow> decode_error + bytes \<times> bytes" where
  "get_string limit bs =
     and_then (get_varint bs) (\<lambda>(n, bs).
     and_then (guard (n \<le> limit) (Invalid ''string longer than its limit'')) (\<lambda>_.
     and_then (get_take n bs) (\<lambda>(s, bs).
     and_then (guard (utf8_bytes s) (Invalid ''string is not UTF-8'')) (\<lambda>_. Inr (s, bs)))))"

definition get_color :: "byte \<Rightarrow> bytes \<Rightarrow> decode_error + color \<times> bytes" where
  "get_color k bs =
     (if k = 0 then Inr (DefaultColor, bs)
      else if k = 1 then and_then (get_u8 bs) (\<lambda>(i, bs). Inr (Idx i, bs))
      else if k = 2 then and_then (get_take 3 bs) (\<lambda>(b, bs). Inr (Rgb (b ! 0) (b ! 1) (b ! 2), bs))
      else Inl (Invalid ''unknown colour kind''))"

definition get_text :: "bytes \<Rightarrow> decode_error + bytes \<times> bytes" where
  "get_text bs =
     and_then (get_varint bs) (\<lambda>(n, bs).
     and_then (guard (\<not> (n = 0 \<or> n > MAX_CELL_TEXT)) (Invalid ''cell text length is out of range'')) (\<lambda>_.
     and_then (get_take n bs) (\<lambda>(s, bs).
     and_then (guard (utf8_bytes s) (Invalid ''cell text is not UTF-8'')) (\<lambda>_.
     and_then (guard (\<not> has_control s) (Invalid ''cell text has a control character'')) (\<lambda>_. Inr (s, bs))))))"

definition get_cell :: "bytes \<Rightarrow> decode_error + cell \<times> bytes" where
  "get_cell bs =
     and_then (get_u8 bs) (\<lambda>(b0, bs).
     and_then (get_u8 bs) (\<lambda>(b1, bs).
     let fl = b0 AND CELL_FLAGS_ALL; has_text = b0 AND 0x80 \<noteq> 0
     in and_then (guard (b1 AND 0xf0 = 0) (Invalid ''reserved colour bits'')) (\<lambda>_.
        and_then (guard (\<not> (fl AND WIDE \<noteq> 0 \<and> fl AND WIDE_CONT \<noteq> 0)) (Invalid ''cell is both wide and a continuation'')) (\<lambda>_.
        and_then (guard (\<not> (has_text \<and> fl AND WIDE_CONT \<noteq> 0)) (Invalid ''continuation cell has text'')) (\<lambda>_.
        and_then (get_color (b1 AND 3) bs) (\<lambda>(f, bs).
        and_then (get_color (drop_bit 2 b1 AND 3) bs) (\<lambda>(g, bs).
        and_then (if has_text then get_text bs else Inr ([], bs)) (\<lambda>(t, bs).
        Inr (\<lparr>ctext = t, fg = f, bg = g, flags = fl\<rparr>, bs)))))))))"

end
