(* ===== verification/Screen_Fields.thy ===== *)
theory Screen_Fields
  imports Screen_State
begin

unbundle bit_operations_syntax

text \<open>
  The fields of the screen formats are canonical: each reader of \<open>Screen_State\<close> accepts exactly the bytes
  its writer makes. Numbers first (shortest form, 64 bits), then strings, colours and cells.
\<close>

section \<open>Numbers\<close>

lemma or_push_bit_nat: "v < 2 ^ n \<Longrightarrow> v OR push_bit n w = v + w * 2 ^ n" for v w n :: nat
proof -
  assume v: "v < 2 ^ n"
  have "v + push_bit n w = v OR push_bit n w"
  proof (rule disjunctive_add)
    fix k
    have "take_bit n v = v" using v by (simp add: take_bit_nat_eq_self)
    then have "bit v k \<Longrightarrow> k < n" by (metis bit_take_bit_iff)
    then show "\<not> bit v k \<or> \<not> bit (push_bit n w) k" by (auto simp: bit_push_bit_iff_nat)
  qed
  then show ?thesis by (simp add: push_bit_nat_def)
qed

lemma low_bits: "unat (b AND 0x7f) = unat b mod 128" for b :: byte
proof -
  have "b AND 0x7f = take_bit 7 b" by (simp add: take_bit_eq_mask mask_eq_exp_minus_1)
  moreover have "unat (take_bit 7 b) = take_bit 7 (unat b)" by (rule unsigned_take_bit_eq)
  ultimately show ?thesis by (simp add: take_bit_eq_mod)
qed

lemma top_bit: "b AND 0x80 = 0 \<longleftrightarrow> unat b < 128" for b :: byte
proof -
  have "b AND 0x80 = 0 \<longleftrightarrow> \<not> bit b 7" using and_exp_eq_0_iff_not_bit [of b 7] by simp
  also have "\<dots> \<longleftrightarrow> even (unat b div 128)"
    using bit_unsigned_iff [of b 7, where 'a = nat] by (simp add: bit_iff_odd)
  also have "\<dots> \<longleftrightarrow> unat b < 128" using unat_byte [of b] 
  proof -
    have "unat b div 128 = 0 \<or> unat b div 128 = 1" using unat_byte [of b] by linarith
    then show ?thesis by (auto simp: div_eq_0_iff)
  qed
  finally show ?thesis .
qed

lemma unat_low: "m < 256 \<Longrightarrow> unat (of_nat m :: byte) = m"
  by (simp add: unat_of_nat)

lemma cont_byte: "m < 128 \<Longrightarrow> unat (of_nat m OR 0x80 :: byte) = m + 128"
proof -
  assume m: "m < 128"
  then have "(of_nat m :: byte) AND 0x80 = 0" by (simp add: top_bit unat_low)
  then have "of_nat m OR 0x80 = (of_nat m + 0x80 :: byte)" by (rule disjunctive_add_eq_or [symmetric])
  also have "\<dots> = of_nat (m + 128)" by simp
  finally show ?thesis using m by (simp only: unat_low)
qed

lemma byte_split: "of_nat (unat b mod 128) OR 0x80 = b" if "128 \<le> unat b" for b :: byte
proof -
  have "unat b mod 128 + 128 = unat b" using that unat_byte [of b] by (simp add: le_mod_geq)
  moreover have "unat (of_nat (unat b mod 128) OR 0x80 :: byte) = unat b mod 128 + 128"
    by (rule cont_byte) simp
  ultimately have "unat (of_nat (unat b mod 128) OR 0x80 :: byte) = unat b" by simp
  then show ?thesis by (simp only: word_unat_eq_iff)
qed

declare varint_loop.simps(2) [simp del]

lemma varint_loop_step:
  assumes "v < 2 ^ (7 * i)" "i < 10"
  shows "varint_loop i v (b # bs) =
    (let low = unat b mod 128
     in if i = 9 \<and> low > 1 then Inl (Invalid ''varint overflows 64 bits'')
        else if unat b < 128
             then if i > 0 \<and> b = 0 then Inl (Invalid ''varint is not the shortest form'')
                  else Inr (v + low * 2 ^ (7 * i), bs)
             else varint_loop (i + 1) (v + low * 2 ^ (7 * i)) bs)"
  unfolding varint_loop.simps or_push_bit_nat [OF assms(1)] low_bits top_bit Let_def using assms(2) by simp

lemma acc_bound: "v < 2 ^ (7 * i) \<Longrightarrow> v + (n mod 128) * 2 ^ (7 * i) < 2 ^ (7 * (i + 1))" for v n :: nat
proof -
  assume v: "v < 2 ^ (7 * i)"
  have "v + (n mod 128) * 2 ^ (7 * i) < 2 ^ (7 * i) + (n mod 128) * 2 ^ (7 * i)" using v by simp
  also have "\<dots> = (1 + n mod 128) * 2 ^ (7 * i)" by simp
  also have "\<dots> \<le> 128 * 2 ^ (7 * i)"
  proof (rule mult_right_mono)
    have "n mod 128 < 128" by simp
    then show "1 + n mod 128 \<le> 128" by linarith
  qed simp
  also have "\<dots> = 2 ^ (7 * (i + 1))" by (simp add: power_add)
  finally show ?thesis .
qed

lemma varint_put:
  assumes "i < 10" "acc < 2 ^ (7 * i)" "n * 2 ^ (7 * i) < 2 ^ 64" "i = 0 \<or> 0 < n"
  shows "varint_loop i acc (put_varint n @ rest) = Inr (acc + n * 2 ^ (7 * i), rest)"
  using assms
proof (induction n arbitrary: i acc rule: less_induct)
  case (less n)
  have last: "n \<le> 1" if "i = 9"
  proof -
    have "n * 2 ^ 63 < 2 * 2 ^ 63" using less.prems(3) that by simp
    then show ?thesis by (simp only: mult_less_cancel2) simp
  qed
  show ?case
  proof (cases "n < 128")
    case True
    then have "put_varint n = [of_nat n]" by (simp add: put_varint.simps)
    moreover have "(of_nat n :: byte) = 0 \<longleftrightarrow> n = 0" using True unat_low [of n] by (auto simp: word_unat_eq_iff)
    ultimately show ?thesis
      using True less.prems last by (cases "i = 9") (auto simp: varint_loop_step unat_low Let_def)
  next
    case False
    then have d: "n div 128 \<noteq> 0" "n div 128 < n" by (simp_all add: div_eq_0_iff)
    then have p: "put_varint n = (of_nat (n mod 128) OR 0x80) # put_varint (n div 128)"
      by (subst put_varint.simps) (simp add: Let_def)
    have i: "i < 9" using False last less.prems(1) by (cases "i = 9") auto
    have n: "n = n div 128 * 128 + n mod 128" by simp
    have e: "n * 2 ^ (7 * i) = n mod 128 * 2 ^ (7 * i) + n div 128 * 2 ^ (7 * (i + 1))"
      by (subst n) (simp only: power_add distrib_right distrib_left mult.assoc, simp)
    have "varint_loop i acc (put_varint n @ rest) =
        varint_loop (i + 1) (acc + n mod 128 * 2 ^ (7 * i)) (put_varint (n div 128) @ rest)"
      using i less.prems(2) by (simp add: p varint_loop_step cont_byte Let_def)
    also have "\<dots> = Inr (acc + n mod 128 * 2 ^ (7 * i) + n div 128 * 2 ^ (7 * (i + 1)), rest)"
      using i d e less.prems(2,3) acc_bound [OF less.prems(2)] by (intro less.IH) auto
    finally show ?thesis using e by simp
  qed
qed

lemma put_of_varint:
  assumes "varint_loop i acc bs = Inr (w, rest)" "acc < 2 ^ (7 * i)"
  shows "\<exists>n. w = acc + n * 2 ^ (7 * i) \<and> bs = put_varint n @ rest \<and> w < 2 ^ 64 \<and> (i = 0 \<or> 0 < n)"
  using assms
proof (induction bs arbitrary: i acc)
  case Nil
  then show ?case by (simp split: if_splits)
next
  case (Cons b bs)
  have i: "i < 10" using Cons.prems(1) by (simp add: varint_loop.simps(2) split: if_splits)
  let ?low = "unat b mod 128"
  have nine: "\<not> (i = 9 \<and> ?low > 1)" using Cons.prems i by (auto simp: varint_loop_step Let_def)
  have b64: "acc + ?low * 2 ^ (7 * i) < 2 ^ 64"
  proof (cases "i = 9")
    case True
    then have "?low * 2 ^ (7 * i) \<le> 1 * 2 ^ 63" using nine by (intro mult_mono) auto
    then show ?thesis using Cons.prems(2) True by simp
  next
    case False
    then have "(2::nat) ^ (7 * (i + 1)) \<le> 2 ^ 63" using i by (intro power_increasing) auto
    then show ?thesis using acc_bound [OF Cons.prems(2), of "unat b"] by simp
  qed
  show ?case
  proof (cases "unat b < 128")
    case True
    then have "w = acc + unat b * 2 ^ (7 * i)" "bs = rest" "i = 0 \<or> b \<noteq> 0"
      using Cons.prems i nine by (auto simp: varint_loop_step Let_def split: if_splits)
    moreover have "put_varint (unat b) = [b]" using True by (simp add: put_varint.simps)
    moreover have "b \<noteq> 0 \<Longrightarrow> 0 < unat b" by (metis unat_eq_zero gr0I)
    ultimately show ?thesis using b64 True by (intro exI [of _ "unat b"]) auto
  next
    case False
    then have "varint_loop (i + 1) (acc + ?low * 2 ^ (7 * i)) bs = Inr (w, rest)"
      using Cons.prems i nine by (simp add: varint_loop_step Let_def split: if_splits)
    from Cons.IH [OF this acc_bound [OF Cons.prems(2)]]
    obtain n where n: "w = acc + ?low * 2 ^ (7 * i) + n * 2 ^ (7 * (i + 1))" "bs = put_varint n @ rest" "w < 2 ^ 64" "0 < n"
      by auto
    have "put_varint (128 * n + ?low) = b # put_varint n"
      using n(4) False byte_split [of b] by (subst put_varint.simps) (simp add: Let_def)
    moreover have "?low * 2 ^ (7 * i) + n * 2 ^ (7 * (i + 1)) = (128 * n + ?low) * 2 ^ (7 * i)"
      by (simp only: power_add distrib_right distrib_left, simp)
    ultimately show ?thesis using n by (intro exI [of _ "128 * n + ?low"]) auto
  qed
qed

lemma get_varint_exact: "get_varint bs = Inr (v, rest) \<longleftrightarrow> v < 2 ^ 64 \<and> bs = put_varint v @ rest"
  using varint_put [of 0 0 v rest] put_of_varint [of 0 0 bs v rest] by (auto simp: get_varint_def)

section \<open>Strings, colours and cells\<close>

lemma le_imp_Suc_Suc: "\<not> k < 2 \<Longrightarrow> Suc (Suc (k - 2)) = k"
  by simp

lemma two_bits:
  fixes b :: byte
  assumes "b AND 0xf0 = 0"
  shows "(b AND 3) OR push_bit 2 (drop_bit 2 b AND 3) = b"
proof (rule bit_word_eqI)
  fix k assume k: "k < LENGTH(8)"
  have m: "(3 :: byte) = mask 2" "(0xf0 :: byte) = push_bit 4 (mask 4)" by (simp_all add: mask_eq_exp_minus_1 push_bit_eq_mult)
  have "\<not> bit (b AND 0xf0) k" using assms by simp
  then show "bit ((b AND 3) OR push_bit 2 (drop_bit 2 b AND 3)) k = bit b k"
    using k by (cases "k < 2") (auto simp: m bit_simps le_imp_Suc_Suc)
qed

lemma flag_bits:
  fixes b :: byte
  shows "(b AND 127) OR (if b AND 0x80 \<noteq> 0 then 0x80 else 0) = b"
proof (rule bit_word_eqI)
  fix k assume k: "k < LENGTH(8)"
  have m: "(127 :: byte) = mask 7" by (simp add: mask_eq_exp_minus_1)
  have h: "bit (0x80 :: byte) k \<longleftrightarrow> k = 7" using bit_exp_iff [of 7 k, where ?'a = "8 word"] k by auto
  have t: "b AND 0x80 \<noteq> 0 \<longleftrightarrow> bit b 7" using and_exp_eq_0_iff_not_bit [of b 7] by simp
  have "bit ((b AND 127) OR x) k \<longleftrightarrow> (k \<noteq> 7 \<and> bit b k) \<or> bit x k" for x
    using k by (auto simp: m bit_simps)
  then show "bit ((b AND 127) OR (if b AND 0x80 \<noteq> 0 then 0x80 else 0)) k = bit b k"
    using h t by auto
qed

lemma flags_kept:
  fixes f :: byte
  assumes "f AND NOT 127 = 0"
  shows "f AND 127 = f" "((f AND 127) OR 0x80) AND 127 = f" "((f AND 127) OR 0x80) AND 0x80 \<noteq> 0" "f AND 0x80 = 0"
proof -
  show f: "f AND 127 = f"
  proof (rule bit_word_eqI)
    fix k assume k: "k < LENGTH(8)"
    have m: "(127 :: byte) = mask 7" by (simp add: mask_eq_exp_minus_1)
    have "\<not> bit (f AND NOT 127) k" using assms by simp
    then show "bit (f AND 127) k = bit f k" using k by (auto simp: m bit_simps)
  qed
  have "(f AND 127) AND 0x80 = 0" by (simp add: and.assoc)
  then show "f AND 0x80 = 0" using f by simp
  show "((f AND 127) OR 0x80) AND 127 = f" using f by (simp add: bit.conj_disj_distrib2)
  show "((f AND 127) OR 0x80) AND 0x80 \<noteq> 0" by (simp add: bit.conj_disj_distrib2 and.assoc)
qed

definition cell_ok :: "cell \<Rightarrow> bool" where
  "cell_ok c \<longleftrightarrow> cell_is_valid c \<and> utf8_bytes (ctext c)"

lemma get_take_exact: "get_take n bs = Inr (s, rest) \<longleftrightarrow> length s = n \<and> bs = s @ rest"
  by (auto simp: get_take_def)

lemma get_u8_exact: "get_u8 bs = Inr (b, rest) \<longleftrightarrow> bs = b # rest"
  by (cases bs) auto

lemma get_varint_u16_exact: "get_varint_u16 bs = Inr (v, rest) \<longleftrightarrow> v < 2 ^ 16 \<and> bs = put_varint v @ rest"
  by (auto simp: get_varint_u16_def and_then_Inr get_varint_exact)

lemma get_count_exact:
  "0 < k \<Longrightarrow> get_count k bs = Inr (n, rest) \<longleftrightarrow> n < 2 ^ 64 \<and> k * n \<le> length rest \<and> bs = put_varint n @ rest"
proof -
  assume "0 < k"
  then have "max k 1 = k" "n \<le> length rest div k \<longleftrightarrow> k * n \<le> length rest" for rest :: bytes and n
    by (simp_all add: less_eq_div_iff_mult_less_eq mult.commute)
  then show ?thesis by (auto simp: get_count_def and_then_Inr get_varint_exact)
qed

lemma get_string_exact:
  assumes "m < 2 ^ 64"
  shows "get_string m bs = Inr (s, rest) \<longleftrightarrow> length s \<le> m \<and> utf8_bytes s \<and> bs = put_string s @ rest"
  using assms by (auto simp: get_string_def and_then_Inr get_varint_exact get_take_exact put_string_def)

lemma get_text_exact:
  "get_text bs = Inr (s, rest) \<longleftrightarrow>
     s \<noteq> [] \<and> length s \<le> MAX_CELL_TEXT \<and> utf8_bytes s \<and> \<not> has_control s \<and> bs = put_string s @ rest"
  by (auto simp: get_text_def and_then_Inr get_varint_exact get_take_exact put_string_def MAX_CELL_TEXT_def)

lemma get_color_exact:
  "get_color k bs = Inr (c, rest) \<longleftrightarrow> color_kind c = k \<and> bs = put_color c @ rest"
proof -
  have three: "length xs = 3 \<longleftrightarrow> (\<exists>a b c. xs = [a, b, c])" for xs :: bytes
    by (auto simp: numeral_3_eq_3 length_Suc_conv)
  show ?thesis
    by (cases c) (auto simp: get_color_def and_then_Inr get_u8_exact get_take_exact three)
qed


lemma color_bits:
  "(color_kind f OR push_bit 2 (color_kind g)) AND 0xf0 = 0"
  "(color_kind f OR push_bit 2 (color_kind g)) AND 3 = color_kind f"
  "drop_bit 2 (color_kind f OR push_bit 2 (color_kind g)) AND 3 = color_kind g"
  by (cases f; cases g; simp)+

lemma get_cell_bytes:
  "get_cell (b0 # b1 # bs) = Inr (c, rest) \<longleftrightarrow>
     b1 AND 0xf0 = 0 \<and> flags c = b0 AND 127
     \<and> \<not> (flags c AND WIDE \<noteq> 0 \<and> flags c AND WIDE_CONT \<noteq> 0)
     \<and> \<not> (b0 AND 0x80 \<noteq> 0 \<and> flags c AND WIDE_CONT \<noteq> 0)
     \<and> color_kind (fg c) = b1 AND 3 \<and> color_kind (bg c) = drop_bit 2 b1 AND 3
     \<and> (if b0 AND 0x80 \<noteq> 0
        then ctext c \<noteq> [] \<and> length (ctext c) \<le> MAX_CELL_TEXT \<and> utf8_bytes (ctext c) \<and> \<not> has_control (ctext c)
        else ctext c = [])
     \<and> bs = put_color (fg c) @ put_color (bg c) @ (if b0 AND 0x80 \<noteq> 0 then put_string (ctext c) else []) @ rest"
proof -
  have "get_cell (b0 # b1 # bs) = Inr (c, rest) \<longleftrightarrow>
      b1 AND 0xf0 = 0
      \<and> \<not> ((b0 AND 127) AND WIDE \<noteq> 0 \<and> (b0 AND 127) AND WIDE_CONT \<noteq> 0)
      \<and> \<not> (b0 AND 0x80 \<noteq> 0 \<and> (b0 AND 127) AND WIDE_CONT \<noteq> 0)
      \<and> (\<exists>f r1 g r2 t. get_color (b1 AND 3) bs = Inr (f, r1) \<and> get_color (drop_bit 2 b1 AND 3) r1 = Inr (g, r2)
           \<and> (if b0 AND 0x80 \<noteq> 0 then get_text r2 else Inr ([], r2)) = Inr (t, rest)
           \<and> c = \<lparr>ctext = t, fg = f, bg = g, flags = b0 AND 127\<rparr>)"
    unfolding get_cell_def get_u8.simps and_then.simps prod.case Let_def and_then_Inr guard_Inr CELL_FLAGS_ALL_def split_paired_Ex
    by blast
  then show ?thesis
    unfolding get_color_exact
    by (cases c; cases "b0 AND 0x80 = 0") (simp add: get_text_exact; blast)+
qed

lemma get_cell_exact: "get_cell bs = Inr (c, rest) \<longleftrightarrow> cell_ok c \<and> bs = put_cell c @ rest"
proof
  assume g: "get_cell bs = Inr (c, rest)"
  then obtain b0 b1 r where bs: "bs = b0 # b1 # r" by (auto simp: get_cell_def and_then_Inr get_u8_exact)
  note b = g [unfolded bs get_cell_bytes]
  have f: "flags c = b0 AND 127" and k: "b1 AND 0xf0 = 0" "color_kind (fg c) = b1 AND 3"
    "color_kind (bg c) = drop_bit 2 b1 AND 3"
    using b by blast+
  have t: "b0 AND 0x80 \<noteq> 0 \<longleftrightarrow> ctext c \<noteq> []" using b by (auto split: if_splits)
  have n: "flags c AND NOT 127 = 0" unfolding f by (simp add: and.assoc)
  have b0: "(flags c AND 127) OR (if ctext c \<noteq> [] then 0x80 else 0) = b0"
    unfolding f and.assoc and.idem t [symmetric] by (rule flag_bits)
  have b1: "color_kind (fg c) OR push_bit 2 (color_kind (bg c)) = b1"
    unfolding k(2,3) by (rule two_bits [OF k(1)])
  have e: "utf8_bytes []" "\<not> has_control []" by (simp_all add: utf8_bytes_def utf8_valid.simps)
  have w: "\<not> (flags c AND WIDE \<noteq> 0 \<and> flags c AND WIDE_CONT \<noteq> 0)" "\<not> (ctext c \<noteq> [] \<and> flags c AND WIDE_CONT \<noteq> 0)"
    using b unfolding t by blast+
  have x: "ctext c \<noteq> [] \<Longrightarrow> length (ctext c) \<le> MAX_CELL_TEXT \<and> utf8_bytes (ctext c) \<and> \<not> has_control (ctext c)"
    using b unfolding t by simp
  have "cell_ok c"
    using n e w x unfolding cell_ok_def cell_is_valid_def CELL_FLAGS_ALL_def by (cases "ctext c = []") simp_all
  moreover have "bs = put_cell c @ rest"
    using b t unfolding bs put_cell_def CELL_FLAGS_ALL_def Let_def b0 b1 by (cases "ctext c = []") simp_all
  ultimately show "cell_ok c \<and> bs = put_cell c @ rest" by blast
next
  assume c: "cell_ok c \<and> bs = put_cell c @ rest"
  then have v: "flags c AND NOT 127 = 0" by (simp add: cell_ok_def cell_is_valid_def CELL_FLAGS_ALL_def)
  have bs: "bs = ((flags c AND 127) OR (if ctext c \<noteq> [] then 0x80 else 0))
      # (color_kind (fg c) OR push_bit 2 (color_kind (bg c)))
      # put_color (fg c) @ put_color (bg c) @ (if ctext c \<noteq> [] then put_string (ctext c) else []) @ rest"
    using c by (simp add: put_cell_def CELL_FLAGS_ALL_def Let_def)
  show "get_cell bs = Inr (c, rest)"
    unfolding bs get_cell_bytes color_bits using c flags_kept [OF v]
    by (cases "ctext c = []") (simp_all add: cell_ok_def cell_is_valid_def)
qed

interpretation cell_field: wire_field put_cell get_cell cell_ok
  by unfold_locales (simp_all add: get_cell_exact)

lemma put_cell_length: "2 \<le> length (put_cell c)"
  by (simp add: put_cell_def Let_def)

end
