(* ===== verification/Screen_Update.thy ===== *)
theory Screen_Update
  imports Screen_State
begin

unbundle bit_operations_syntax

text \<open>
  Screen differences and updates (\<open>qsh-proto/src/screen/diff.rs\<close>): computing the difference of two
  screens, applying it, the effects outside the grid, and the encodings. An outer \<open>None\<close> is an index
  out of range, where the code would panic.
\<close>

section \<open>Differences\<close>

definition MAX_TITLE_BYTES :: nat where
  "MAX_TITLE_BYTES = 1024"

definition MAX_CLIPBOARD_BYTES :: nat where
  "MAX_CLIPBOARD_BYTES = 64 * 1024"

definition MAX_HYPERLINK_PARAMS :: nat where
  "MAX_HYPERLINK_PARAMS = 256"

definition MAX_HYPERLINK_URI :: nat where
  "MAX_HYPERLINK_URI = 2048"

definition MAX_EFFECTS :: nat where
  "MAX_EFFECTS = 64"

definition MAX_UPDATE_BYTES :: nat where
  "MAX_UPDATE_BYTES = 1024 * 1024"

definition MERGE_GAP :: nat where
  "MERGE_GAP = 4"

definition MAX_SELECTION_BYTES :: nat where
  "MAX_SELECTION_BYTES = 8"

datatype apply_error = BadSize | BadHeader | OutOfRange | HashMismatch

record run =
  run_col :: nat
  run_cells :: "cell list"

record row_change =
  ch_row :: nat
  ch_wrapped :: bool
  ch_runs :: "run list"

record screen_diff =
  d_rows :: nat
  d_cols :: nat
  d_cursor_row :: nat
  d_cursor_col :: nat
  d_modes :: modes
  d_changes :: "row_change list"

function merge_end :: "cell list \<Rightarrow> cell list \<Rightarrow> nat \<Rightarrow> nat \<Rightarrow> nat" where
  "merge_end old new k e =
     (if k < length new \<and> k - e \<le> MERGE_GAP
      then merge_end old new (k + 1) (if old ! k \<noteq> new ! k then k + 1 else e)
      else e)"
  by pat_completeness auto
termination by (relation "measure (\<lambda>(old, new, k, e). length new - k)") auto

declare merge_end.simps [simp del]

lemma merge_end_le: "e \<le> merge_end old new k e" if "e \<le> k"
  using that
proof (induction old new k e rule: merge_end.induct)
  case (1 old new k e)
  show ?case
  proof (cases "k < length new \<and> k - e \<le> MERGE_GAP")
    case True
    then show ?thesis using 1 by (subst merge_end.simps) (auto dest: Suc_leD)
  next
    case False
    then show ?thesis by (subst merge_end.simps) auto
  qed
qed

function runs_from :: "cell list \<Rightarrow> cell list \<Rightarrow> nat \<Rightarrow> run list" where
  "runs_from old new c =
     (if c < length new then
        if old ! c = new ! c then runs_from old new (c + 1)
        else let e = merge_end old new (c + 1) (c + 1)
             in \<lparr>run_col = c mod 2 ^ 16, run_cells = take (e - c) (drop c new)\<rparr> # runs_from old new e
      else [])"
  by pat_completeness auto
termination
proof (relation "measure (\<lambda>(old, new, c). length new - c)")
  fix old new :: "cell list" and c e
  assume "c < length new" "e = merge_end old new (c + 1) (c + 1)"
  then show "((old, new, e), old, new, c) \<in> measure (\<lambda>(old, new, c). length new - c)"
    using merge_end_le [of "c + 1" "c + 1" old new] by auto
qed auto

declare runs_from.simps [simp del]

text \<open>The scan reads the old row at every column of the new one.\<close>

definition row_runs :: "cell list \<Rightarrow> cell list \<Rightarrow> run list option" where
  "row_runs old new = (if length old < length new then None else Some (runs_from old new 0))"

fun row_changes :: "nat \<Rightarrow> (row \<times> row) list \<Rightarrow> row_change list option" where
  "row_changes r [] = Some []"
| "row_changes r ((old, row) # rs) =
     (case row_runs (cells old) (cells row) of
        None \<Rightarrow> None
      | Some runs \<Rightarrow>
          (case row_changes (r + 1) rs of
             None \<Rightarrow> None
           | Some chs \<Rightarrow>
               Some (if runs \<noteq> [] \<or> wrapped old \<noteq> wrapped row
                     then \<lparr>ch_row = r mod 2 ^ 16, ch_wrapped = wrapped row, ch_runs = runs\<rparr> # chs else chs)))"

definition diff_between :: "screen_state \<Rightarrow> screen_state \<Rightarrow> (bad_size + screen_diff) option" where
  "diff_between base new =
     (case (if rows base = rows new \<and> cols base = cols new then Inr base else blank (rows new) (cols new)) of
        Inl e \<Rightarrow> Some (Inl e)
      | Inr b \<Rightarrow>
          (case row_changes 0 (zip (grid b) (grid new)) of
             None \<Rightarrow> None
           | Some chs \<Rightarrow>
               Some (Inr \<lparr>d_rows = rows new, d_cols = cols new, d_cursor_row = cursor_row new,
                          d_cursor_col = cursor_col new, d_modes = modes new, d_changes = chs\<rparr>)))"

fun apply_runs :: "nat \<Rightarrow> nat \<Rightarrow> run list \<Rightarrow> cell list \<Rightarrow> (apply_error + cell list) option" where
  "apply_runs cs next_free [] row = Some (Inr row)"
| "apply_runs cs next_free (r # rs) row =
     (let st = run_col r; en = st + length (run_cells r)
      in if run_cells r = [] \<or> st < next_free \<or> en > cs \<or> \<not> list_all cell_is_valid (run_cells r)
         then Some (Inl OutOfRange)
         else if en > length row then None
         else apply_runs cs en rs (take st row @ run_cells r @ drop en row))"

fun apply_changes :: "nat \<Rightarrow> nat \<Rightarrow> nat option \<Rightarrow> row_change list \<Rightarrow> row list \<Rightarrow> (apply_error + row list) option" where
  "apply_changes rs cs lst [] g = Some (Inr g)"
| "apply_changes rs cs lst (ch # chs) g =
     (if ch_row ch \<ge> rs \<or> (case lst of Some l \<Rightarrow> ch_row ch \<le> l | None \<Rightarrow> False) then Some (Inl OutOfRange)
      else if ch_row ch \<ge> length g then None
      else case apply_runs cs 0 (ch_runs ch) (cells (g ! ch_row ch)) of
             None \<Rightarrow> None
           | Some (Inl e) \<Rightarrow> Some (Inl e)
           | Some (Inr row) \<Rightarrow>
               apply_changes rs cs (Some (ch_row ch)) chs (g[ch_row ch := \<lparr>cells = row, wrapped = ch_wrapped ch\<rparr>]))"

definition diff_apply :: "screen_diff \<Rightarrow> screen_state \<Rightarrow> (apply_error + screen_state) option" where
  "diff_apply d base =
     (if \<not> size_is_valid (d_rows d) (d_cols d) then Some (Inl BadSize)
      else if d_cursor_row d \<ge> d_rows d \<or> d_cursor_col d \<ge> d_cols d \<or> \<not> modes_is_valid (d_modes d)
      then Some (Inl BadHeader)
      else case (if rows base = d_rows d \<and> cols base = d_cols d then Inr base else blank (d_rows d) (d_cols d)) of
             Inl _ \<Rightarrow> Some (Inl BadSize)
           | Inr b \<Rightarrow>
               (case apply_changes (d_rows d) (d_cols d) None (d_changes d) (grid b) of
                  None \<Rightarrow> None
                | Some (Inl e) \<Rightarrow> Some (Inl e)
                | Some (Inr g) \<Rightarrow>
                    Some (Inr (b\<lparr>cursor_row := d_cursor_row d, cursor_col := d_cursor_col d,
                                 modes := d_modes d, grid := g\<rparr>))))"

section \<open>Encoding of differences\<close>

definition put_run :: "run \<Rightarrow> bytes" where
  "put_run r = put_varint (run_col r) @ put_varint (length (run_cells r)) @ concat (map put_cell (run_cells r))"

definition put_change :: "row_change \<Rightarrow> bytes" where
  "put_change ch =
     put_varint (ch_row ch) @ [put_bool (ch_wrapped ch)] @ put_varint (length (ch_runs ch))
     @ concat (map put_run (ch_runs ch))"

definition put_diff :: "screen_diff \<Rightarrow> bytes" where
  "put_diff d =
     concat (map put_varint [d_rows d, d_cols d, d_cursor_row d, d_cursor_col d])
     @ [mode_flags (d_modes d), mouse_mode (d_modes d), mouse_encoding (d_modes d)]
     @ put_varint (length (d_changes d)) @ concat (map put_change (d_changes d))"

definition diff_encode :: "screen_diff \<Rightarrow> bytes" where
  "diff_encode d = put_diff d"

fun get_runs :: "nat \<Rightarrow> nat \<Rightarrow> nat \<Rightarrow> bytes \<Rightarrow> decode_error + run list \<times> bytes" where
  "get_runs cs 0 next_free bs = Inr ([], bs)"
| "get_runs cs (Suc n) next_free bs =
     and_then (get_varint_u16 bs) (\<lambda>(c, bs).
     and_then (get_count 2 bs) (\<lambda>(n_cells, bs).
     and_then (guard (\<not> (n_cells = 0 \<or> c < next_free \<or> c + n_cells > cs))
                 (Invalid ''run is empty, overlapping or off the row'')) (\<lambda>_.
     and_then (get_n get_cell n_cells bs) (\<lambda>(xs, bs).
     and_then (get_runs cs n (c + n_cells) bs) (\<lambda>(rs, bs).
     Inr (\<lparr>run_col = c, run_cells = xs\<rparr> # rs, bs))))))"

definition get_wrapped :: "bytes \<Rightarrow> decode_error + bool \<times> bytes" where
  "get_wrapped bs =
     and_then (get_u8 bs) (\<lambda>(b, bs).
       if b = 0 then Inr (False, bs) else if b = 1 then Inr (True, bs)
       else Inl (Invalid ''wrap flag is not 0 or 1''))"

fun get_changes :: "nat \<Rightarrow> nat \<Rightarrow> nat \<Rightarrow> nat option \<Rightarrow> bytes \<Rightarrow> decode_error + row_change list \<times> bytes" where
  "get_changes rs cs 0 lst bs = Inr ([], bs)"
| "get_changes rs cs (Suc n) lst bs =
     and_then (get_varint_u16 bs) (\<lambda>(r, bs).
     and_then (guard (\<not> (r \<ge> rs \<or> (case lst of Some l \<Rightarrow> r \<le> l | None \<Rightarrow> False)))
                 (Invalid ''changed rows are not ascending'')) (\<lambda>_.
     and_then (get_wrapped bs) (\<lambda>(w, bs).
     and_then (get_count 4 bs) (\<lambda>(n_runs, bs).
     and_then (guard (n_runs \<le> cs) (Invalid ''more runs than columns'')) (\<lambda>_.
     and_then (get_runs cs n_runs 0 bs) (\<lambda>(xs, bs).
     and_then (get_changes rs cs n (Some r) bs) (\<lambda>(chs, bs).
     Inr (\<lparr>ch_row = r, ch_wrapped = w, ch_runs = xs\<rparr> # chs, bs))))))))"

definition get_diff :: "bytes \<Rightarrow> decode_error + screen_diff \<times> bytes" where
  "get_diff bs =
     and_then (get_varint_u16 bs) (\<lambda>(rs, bs).
     and_then (get_varint_u16 bs) (\<lambda>(cs, bs).
     and_then (guard (size_is_valid rs cs) (Invalid ''screen size out of range'')) (\<lambda>_.
     and_then (get_varint_u16 bs) (\<lambda>(cr, bs).
     and_then (get_varint_u16 bs) (\<lambda>(cc, bs).
     and_then (guard (\<not> (cr \<ge> rs \<or> cc \<ge> cs)) (Invalid ''cursor outside the screen'')) (\<lambda>_.
     and_then (get_u8 bs) (\<lambda>(f, bs).
     and_then (get_u8 bs) (\<lambda>(mm, bs).
     and_then (get_u8 bs) (\<lambda>(me, bs).
     let m = \<lparr>mode_flags = f, mouse_mode = mm, mouse_encoding = me\<rparr>
     in and_then (guard (modes_is_valid m) (Invalid ''mode value out of range'')) (\<lambda>_.
        and_then (get_count 3 bs) (\<lambda>(n, bs).
        and_then (guard (n \<le> rs) (Invalid ''more changed rows than rows'')) (\<lambda>_.
        and_then (get_changes rs cs n None bs) (\<lambda>(chs, bs).
        Inr (\<lparr>d_rows = rs, d_cols = cs, d_cursor_row = cr, d_cursor_col = cc, d_modes = m, d_changes = chs\<rparr>, bs))))))))))))))"

definition diff_decode :: "bytes \<Rightarrow> decode_error + screen_diff" where
  "diff_decode bs = and_then (get_diff bs) (\<lambda>(d, bs). and_then (finish bs) (\<lambda>_. Inr d))"

section \<open>Effects\<close>

datatype effect = Title bytes | Bell | Clipboard bytes bytes | Hyperlink bytes bytes

definition plain_text :: "bytes \<Rightarrow> nat \<Rightarrow> bool" where
  "plain_text s limit \<longleftrightarrow> length s \<le> limit \<and> \<not> has_control s"

definition is_ascii_alphanumeric :: "byte \<Rightarrow> bool" where
  "is_ascii_alphanumeric b \<longleftrightarrow> (48 \<le> b \<and> b \<le> 57) \<or> (65 \<le> b \<and> b \<le> 90) \<or> (97 \<le> b \<and> b \<le> 122)"

definition base64_text :: "bytes \<Rightarrow> bool" where
  "base64_text s \<longleftrightarrow> length s \<le> MAX_CLIPBOARD_BYTES
     \<and> list_all (\<lambda>b. is_ascii_alphanumeric b \<or> b = 43 \<or> b = 47 \<or> b = 61) s"

definition selection_text :: "bytes \<Rightarrow> bool" where
  "selection_text s \<longleftrightarrow> length s \<le> MAX_SELECTION_BYTES
     \<and> list_all (\<lambda>b. b \<in> set (map of_char ''cpqs01234567'')) s"

fun effect_is_valid :: "effect \<Rightarrow> bool" where
  "effect_is_valid (Title t) = plain_text t MAX_TITLE_BYTES"
| "effect_is_valid Bell = True"
| "effect_is_valid (Clipboard selection data) = (selection_text selection \<and> base64_text data)"
| "effect_is_valid (Hyperlink params uri) = (plain_text params MAX_HYPERLINK_PARAMS \<and> plain_text uri MAX_HYPERLINK_URI)"

fun put_effect :: "effect \<Rightarrow> bytes" where
  "put_effect (Title t) = 1 # put_string t"
| "put_effect Bell = [2]"
| "put_effect (Clipboard selection data) = 3 # put_string selection @ put_string data"
| "put_effect (Hyperlink params uri) = 4 # put_string params @ put_string uri"

definition get_effect_body :: "byte \<Rightarrow> bytes \<Rightarrow> decode_error + effect \<times> bytes" where
  "get_effect_body k bs =
     (if k = 1 then and_then (get_string MAX_TITLE_BYTES bs) (\<lambda>(t, bs). Inr (Title t, bs))
      else if k = 2 then Inr (Bell, bs)
      else if k = 3 then
        and_then (get_string MAX_SELECTION_BYTES bs) (\<lambda>(s, bs).
        and_then (get_string MAX_CLIPBOARD_BYTES bs) (\<lambda>(d, bs). Inr (Clipboard s d, bs)))
      else if k = 4 then
        and_then (get_string MAX_HYPERLINK_PARAMS bs) (\<lambda>(p, bs).
        and_then (get_string MAX_HYPERLINK_URI bs) (\<lambda>(u, bs). Inr (Hyperlink p u, bs)))
      else Inl (Invalid ''unknown effect kind''))"

definition get_effect :: "bytes \<Rightarrow> decode_error + effect \<times> bytes" where
  "get_effect bs =
     and_then (get_u8 bs) (\<lambda>(k, bs).
     and_then (get_effect_body k bs) (\<lambda>(e, bs).
     and_then (guard (effect_is_valid e) (Invalid ''effect text breaks its rules'')) (\<lambda>_. Inr (e, bs))))"

section \<open>Updates\<close>

record screen_update =
  base_num :: nat
  new_num :: nat
  output_seq :: nat
  diff :: screen_diff
  effects :: "effect list"
  state_hash :: bytes

definition update_apply :: "(bytes \<Rightarrow> bytes) \<Rightarrow> screen_update \<Rightarrow> screen_state \<Rightarrow> (apply_error + screen_state) option" where
  "update_apply blake3 u base =
     (case diff_apply (diff u) base of
        None \<Rightarrow> None
      | Some (Inl e) \<Rightarrow> Some (Inl e)
      | Some (Inr s) \<Rightarrow> Some (if state_hash_of blake3 s = state_hash u then Inr s else Inl HashMismatch))"

definition update_encode :: "screen_update \<Rightarrow> bytes" where
  "update_encode u =
     put_varint (base_num u) @ put_varint (new_num u) @ put_varint (output_seq u) @ state_hash u
     @ put_varint (length (effects u)) @ concat (map put_effect (effects u)) @ put_diff (diff u)"

definition update_decode :: "bytes \<Rightarrow> decode_error + screen_update" where
  "update_decode bytes =
     and_then (guard (length bytes \<le> MAX_UPDATE_BYTES) (Invalid ''update is larger than the cap'')) (\<lambda>_.
     and_then (get_varint bytes) (\<lambda>(b, bs).
     and_then (get_varint bs) (\<lambda>(n, bs).
     and_then (guard (\<not> n \<le> b) (Invalid ''new_num is not greater than base_num'')) (\<lambda>_.
     and_then (get_varint bs) (\<lambda>(sq, bs).
     and_then (get_take HASH_LEN bs) (\<lambda>(h, bs).
     and_then (get_count 1 bs) (\<lambda>(n_effects, bs).
     and_then (guard (n_effects \<le> MAX_EFFECTS) (Invalid ''too many effects'')) (\<lambda>_.
     and_then (get_n get_effect n_effects bs) (\<lambda>(es, bs).
     and_then (get_diff bs) (\<lambda>(d, bs).
     and_then (finish bs) (\<lambda>_.
     Inr \<lparr>base_num = b, new_num = n, output_seq = sq, diff = d, effects = es, state_hash = h\<rparr>)))))))))))"

end
