(* ===== verification/Screen_Codec.thy ===== *)
theory Screen_Codec
  imports Screen_Fields Screen_Update
begin

text \<open>
  The formats of screen differences and updates are canonical (\<open>qsh-proto/src/screen/diff.rs\<close>): the
  decoders accept exactly the encodings of values that keep the rules of the format.
\<close>

section \<open>Differences\<close>

lemma concat_length: "(\<And>x. k \<le> length (f x)) \<Longrightarrow> k * length xs \<le> length (concat (map f xs))"
proof (induction xs)
  case (Cons x xs)
  then show ?case using Cons.prems [of x] by (auto simp: algebra_simps intro: add_mono)
qed simp

lemma put_varint_length: "1 \<le> length (put_varint v)"
  by (subst put_varint.simps) (simp add: Let_def)

fun run_list_ok :: "nat \<Rightarrow> nat \<Rightarrow> run list \<Rightarrow> bool" where
  "run_list_ok cs nf [] = True"
| "run_list_ok cs nf (r # rs) \<longleftrightarrow>
     run_col r < 2 ^ 16 \<and> run_cells r \<noteq> [] \<and> nf \<le> run_col r \<and> run_col r + length (run_cells r) \<le> cs
     \<and> list_all cell_ok (run_cells r) \<and> run_list_ok cs (run_col r + length (run_cells r)) rs"

lemma pos2: "0 < (2 :: nat)" "0 < (3 :: nat)" "0 < (4 :: nat)"
  by simp_all

lemma runs_ok_length: "run_list_ok cs nf rs \<Longrightarrow> nf \<le> cs \<Longrightarrow> length rs + nf \<le> cs"
proof (induction rs arbitrary: nf)
  case (Cons r rs)
  then have "length rs + (run_col r + length (run_cells r)) \<le> cs" by simp
  moreover have "nf \<le> run_col r" using Cons.prems by simp
  moreover have "1 \<le> length (run_cells r)" using Cons.prems by (cases "run_cells r") simp_all
  ultimately show ?case by simp
qed simp

lemma put_run_length: "run_cells r \<noteq> [] \<Longrightarrow> 4 \<le> length (put_run r)"
proof -
  assume "run_cells r \<noteq> []"
  then have "2 * 1 \<le> 2 * length (run_cells r)" by (cases "run_cells r") auto
  also have "\<dots> \<le> length (concat (map put_cell (run_cells r)))" by (rule concat_length [OF put_cell_length])
  finally show ?thesis
    using put_varint_length [of "run_col r"] put_varint_length [of "length (run_cells r)"] by (simp add: put_run_def)
qed

lemma runs_length: "run_list_ok cs nf rs \<Longrightarrow> 4 * length rs \<le> length (concat (map put_run rs))"
proof (induction rs arbitrary: nf)
  case (Cons r rs)
  then show ?case using put_run_length [of r] by (auto intro: add_mono)
qed simp

lemma get_runs_exact:
  assumes "cs < 2 ^ 64"
  shows "get_runs cs n nf bs = Inr (rs, rest) \<longleftrightarrow> length rs = n \<and> run_list_ok cs nf rs \<and> bs = concat (map put_run rs) @ rest"
proof (induction n arbitrary: nf bs rs)
  case 0
  then show ?case by auto
next
  case (Suc n)
  have "get_runs cs (Suc n) nf bs = Inr (rs, rest) \<longleftrightarrow>
     (\<exists>c r1 k r2 xs r3 ys. get_varint_u16 bs = Inr (c, r1) \<and> get_count 2 r1 = Inr (k, r2)
        \<and> \<not> (k = 0 \<or> c < nf \<or> c + k > cs) \<and> get_n get_cell k r2 = Inr (xs, r3)
        \<and> get_runs cs n (c + k) r3 = Inr (ys, rest) \<and> rs = \<lparr>run_col = c, run_cells = xs\<rparr> # ys)"
    unfolding get_runs.simps and_then_Inr split_paired_Ex prod.case guard_Inr by blast
  also have "\<dots> \<longleftrightarrow> (\<exists>c xs ys. rs = \<lparr>run_col = c, run_cells = xs\<rparr> # ys \<and> c < 2 ^ 16 \<and> xs \<noteq> [] \<and> nf \<le> c \<and> c + length xs \<le> cs
        \<and> list_all cell_ok xs \<and> length ys = n \<and> run_list_ok cs (c + length xs) ys
        \<and> bs = put_run \<lparr>run_col = c, run_cells = xs\<rparr> @ concat (map put_run ys) @ rest)"
    (is "?L \<longleftrightarrow> ?R")
  proof
    assume ?L
    then show ?R
      unfolding get_varint_u16_exact get_count_exact [OF pos2(1)] cell_field.get_n_exact Suc.IH
      by (fastforce simp: put_run_def)
  next
    assume ?R
    then obtain c xs ys where x: "rs = \<lparr>run_col = c, run_cells = xs\<rparr> # ys" "c < 2 ^ 16" "xs \<noteq> []" "nf \<le> c" "c + length xs \<le> cs"
      "list_all cell_ok xs" "length ys = n" "run_list_ok cs (c + length xs) ys"
      "bs = put_run \<lparr>run_col = c, run_cells = xs\<rparr> @ concat (map put_run ys) @ rest" by blast
    have p: "put_run \<lparr>run_col = c, run_cells = xs\<rparr> = put_varint c @ put_varint (length xs) @ concat (map put_cell xs)"
      by (simp add: put_run_def)
    have "2 * length xs \<le> length (concat (map put_cell xs))" by (rule concat_length [OF put_cell_length])
    then have "get_varint_u16 bs = Inr (c, put_varint (length xs) @ concat (map put_cell xs) @ concat (map put_run ys) @ rest)"
      "get_count 2 (put_varint (length xs) @ concat (map put_cell xs) @ concat (map put_run ys) @ rest) =
         Inr (length xs, concat (map put_cell xs) @ concat (map put_run ys) @ rest)"
      "get_n get_cell (length xs) (concat (map put_cell xs) @ concat (map put_run ys) @ rest) = Inr (xs, concat (map put_run ys) @ rest)"
      "get_runs cs n (c + length xs) (concat (map put_run ys) @ rest) = Inr (ys, rest)"
      using x assms by (auto simp: get_varint_u16_exact get_count_exact cell_field.get_n_exact Suc.IH p)
    then show ?L using x by (metis add.commute leD length_greater_0_conv less_irrefl_nat)
  qed
  also have "\<dots> \<longleftrightarrow> length rs = Suc n \<and> run_list_ok cs nf rs \<and> bs = concat (map put_run rs) @ rest"
  proof (cases rs)
    case (Cons r ys)
    then show ?thesis by (cases r) auto
  qed simp
  finally show ?case .
qed

fun changes_ok :: "nat \<Rightarrow> nat \<Rightarrow> nat option \<Rightarrow> row_change list \<Rightarrow> bool" where
  "changes_ok rs cs lst [] = True"
| "changes_ok rs cs lst (ch # chs) \<longleftrightarrow>
     ch_row ch < 2 ^ 16 \<and> ch_row ch < rs \<and> (case lst of Some l \<Rightarrow> l < ch_row ch | None \<Rightarrow> True)
     \<and> run_list_ok cs 0 (ch_runs ch) \<and> changes_ok rs cs (Some (ch_row ch)) chs"

lemma changes_ok_length:
  "changes_ok rs cs lst chs \<Longrightarrow> (case lst of Some l \<Rightarrow> l < rs | None \<Rightarrow> True) \<Longrightarrow>
     length chs + (case lst of Some l \<Rightarrow> Suc l | None \<Rightarrow> 0) \<le> rs"
proof (induction chs arbitrary: lst)
  case (Cons ch chs)
  then have "length chs + Suc (ch_row ch) \<le> rs" using Cons.IH [of "Some (ch_row ch)"] by simp
  then show ?case using Cons.prems by (auto split: option.splits)
qed (auto split: option.splits)

lemma put_change_length: "3 \<le> length (put_change ch)"
  using put_varint_length [of "ch_row ch"] put_varint_length [of "length (ch_runs ch)"] by (simp add: put_change_def)

lemma get_wrapped_exact: "get_wrapped bs = Inr (w, rest) \<longleftrightarrow> bs = put_bool w # rest"
  by (cases bs) (auto simp: get_wrapped_def put_bool_def)

lemma get_changes_exact:
  assumes "cs < 2 ^ 64"
  shows "get_changes rs cs n lst bs = Inr (chs, rest) \<longleftrightarrow>
    length chs = n \<and> changes_ok rs cs lst chs \<and> bs = concat (map put_change chs) @ rest"
proof (induction n arbitrary: lst bs chs)
  case 0
  then show ?case by auto
next
  case (Suc n)
  have "get_changes rs cs (Suc n) lst bs = Inr (chs, rest) \<longleftrightarrow>
     (\<exists>r r1 w r2 k r3 xs r4 ys. get_varint_u16 bs = Inr (r, r1)
        \<and> \<not> (r \<ge> rs \<or> (case lst of Some l \<Rightarrow> r \<le> l | None \<Rightarrow> False))
        \<and> get_wrapped r1 = Inr (w, r2) \<and> get_count 4 r2 = Inr (k, r3) \<and> k \<le> cs \<and> get_runs cs k 0 r3 = Inr (xs, r4)
        \<and> get_changes rs cs n (Some r) r4 = Inr (ys, rest) \<and> chs = \<lparr>ch_row = r, ch_wrapped = w, ch_runs = xs\<rparr> # ys)"
    unfolding get_changes.simps and_then_Inr split_paired_Ex prod.case guard_Inr by blast
  also have "\<dots> \<longleftrightarrow> (\<exists>r w xs ys. chs = \<lparr>ch_row = r, ch_wrapped = w, ch_runs = xs\<rparr> # ys \<and> r < 2 ^ 16 \<and> r < rs
        \<and> (case lst of Some l \<Rightarrow> l < r | None \<Rightarrow> True) \<and> run_list_ok cs 0 xs \<and> length ys = n \<and> changes_ok rs cs (Some r) ys
        \<and> bs = put_change \<lparr>ch_row = r, ch_wrapped = w, ch_runs = xs\<rparr> @ concat (map put_change ys) @ rest)"
    (is "?L \<longleftrightarrow> ?R")
  proof
    assume ?L
    then show ?R
      unfolding get_varint_u16_exact get_wrapped_exact get_count_exact [OF pos2(3)] get_runs_exact [OF assms] Suc.IH
      by (fastforce simp: put_change_def split: option.splits)
  next
    assume ?R
    then obtain r w xs ys where x: "chs = \<lparr>ch_row = r, ch_wrapped = w, ch_runs = xs\<rparr> # ys" "r < 2 ^ 16" "r < rs"
      "case lst of Some l \<Rightarrow> l < r | None \<Rightarrow> True" "run_list_ok cs 0 xs" "length ys = n" "changes_ok rs cs (Some r) ys"
      "bs = put_change \<lparr>ch_row = r, ch_wrapped = w, ch_runs = xs\<rparr> @ concat (map put_change ys) @ rest" by blast
    have p: "put_change \<lparr>ch_row = r, ch_wrapped = w, ch_runs = xs\<rparr> =
        put_varint r @ put_bool w # put_varint (length xs) @ concat (map put_run xs)"
      by (simp add: put_change_def)
    have n: "length xs \<le> cs" using runs_ok_length [OF x(5)] by simp
    have "4 * length xs \<le> length (concat (map put_run xs))" by (rule runs_length [OF x(5)])
    then have g: "get_varint_u16 bs = Inr (r, put_bool w # put_varint (length xs) @ concat (map put_run xs) @ concat (map put_change ys) @ rest)"
      "get_wrapped (put_bool w # put_varint (length xs) @ concat (map put_run xs) @ concat (map put_change ys) @ rest) =
         Inr (w, put_varint (length xs) @ concat (map put_run xs) @ concat (map put_change ys) @ rest)"
      "get_count 4 (put_varint (length xs) @ concat (map put_run xs) @ concat (map put_change ys) @ rest) =
         Inr (length xs, concat (map put_run xs) @ concat (map put_change ys) @ rest)"
      "get_runs cs (length xs) 0 (concat (map put_run xs) @ concat (map put_change ys) @ rest) = Inr (xs, concat (map put_change ys) @ rest)"
      "get_changes rs cs n (Some r) (concat (map put_change ys) @ rest) = Inr (ys, rest)"
      using x n assms by (auto simp: get_varint_u16_exact get_wrapped_exact get_count_exact get_runs_exact [OF assms] Suc.IH p)
    moreover have "\<not> (r \<ge> rs \<or> (case lst of Some l \<Rightarrow> r \<le> l | None \<Rightarrow> False))" using x(3,4) by (auto split: option.splits)
    ultimately show ?L using x(1) n by blast
  qed
  also have "\<dots> \<longleftrightarrow> length chs = Suc n \<and> changes_ok rs cs lst chs \<and> bs = concat (map put_change chs) @ rest"
  proof (cases chs)
    case (Cons ch ys)
    then show ?thesis by (cases ch) (auto split: option.splits)
  qed simp
  finally show ?case .
qed

definition diff_ok :: "screen_diff \<Rightarrow> bool" where
  "diff_ok d \<longleftrightarrow> size_is_valid (d_rows d) (d_cols d) \<and> d_cursor_row d < d_rows d \<and> d_cursor_col d < d_cols d
     \<and> modes_is_valid (d_modes d) \<and> changes_ok (d_rows d) (d_cols d) None (d_changes d)"

lemma get_diff_exact: "get_diff bs = Inr (d, rest) \<longleftrightarrow> diff_ok d \<and> bs = put_diff d @ rest"
proof
  assume "get_diff bs = Inr (d, rest)"
  then obtain rs cs cr cc f mm me n chs r1 r2 r3 r4 r5 r6 where
    x: "get_varint_u16 bs = Inr (rs, r1)" "get_varint_u16 r1 = Inr (cs, r2)" "size_is_valid rs cs"
    "get_varint_u16 r2 = Inr (cr, r3)" "get_varint_u16 r3 = Inr (cc, r4)" "\<not> (cr \<ge> rs \<or> cc \<ge> cs)"
    "r4 = f # mm # me # r5" "modes_is_valid \<lparr>mode_flags = f, mouse_mode = mm, mouse_encoding = me\<rparr>"
    "get_count 3 r5 = Inr (n, r6)" "get_changes rs cs n None r6 = Inr (chs, rest)"
    "d = \<lparr>d_rows = rs, d_cols = cs, d_cursor_row = cr, d_cursor_col = cc,
          d_modes = \<lparr>mode_flags = f, mouse_mode = mm, mouse_encoding = me\<rparr>, d_changes = chs\<rparr>"
    unfolding get_diff_def and_then_Inr split_paired_Ex prod.case guard_Inr Let_def get_u8_exact by blast
  then have "cs < 2 ^ 64" by (simp add: size_is_valid_def MAX_DIM_def)
  then show "diff_ok d \<and> bs = put_diff d @ rest"
    using x by (auto simp: get_varint_u16_exact get_count_exact get_changes_exact diff_ok_def put_diff_def)
next
  assume d: "diff_ok d \<and> bs = put_diff d @ rest"
  let ?m = "d_modes d" and ?n = "length (d_changes d)"
  define r6 where "r6 = concat (map put_change (d_changes d)) @ rest"
  define r5 where "r5 = put_varint ?n @ r6"
  define r4 where "r4 = mode_flags ?m # mouse_mode ?m # mouse_encoding ?m # r5"
  have b: "d_rows d < 2 ^ 16" "d_cols d < 2 ^ 16" "d_cursor_row d < 2 ^ 16" "d_cursor_col d < 2 ^ 16"
    using d by (auto simp: diff_ok_def size_is_valid_def MAX_DIM_def)
  then have c: "d_cols d < 2 ^ 64" by simp
  have n: "?n \<le> d_rows d" using changes_ok_length [of "d_rows d" "d_cols d" None "d_changes d"] d by (simp add: diff_ok_def)
  have "3 * ?n \<le> length r6"
    using concat_length [of 3 put_change "d_changes d", OF put_change_length] by (simp add: r6_def)
  then have k: "get_count 3 r5 = Inr (?n, r6)" using n b by (simp add: get_count_exact r5_def)
  have ch: "get_changes (d_rows d) (d_cols d) ?n None r6 = Inr (d_changes d, rest)"
    using d by (simp add: get_changes_exact [OF c] diff_ok_def r6_def)
  have m: "\<lparr>mode_flags = mode_flags ?m, mouse_mode = mouse_mode ?m, mouse_encoding = mouse_encoding ?m\<rparr> = ?m"
    by (cases ?m) simp
  have bs: "bs = put_varint (d_rows d) @ put_varint (d_cols d) @ put_varint (d_cursor_row d) @ put_varint (d_cursor_col d) @ r4"
    using d by (simp add: put_diff_def r4_def r5_def r6_def)
  have u: "get_varint_u16 (put_varint v @ r) = Inr (v, r)" if "v < 2 ^ 16" for v r
    using that by (simp add: get_varint_u16_exact)
  show "get_diff bs = Inr (d, rest)"
    unfolding get_diff_def bs
    using d n b by (simp add: u m r4_def k ch Let_def guard_def diff_ok_def not_le)
qed

lemma get_effect_exact:
  "get_effect bs = Inr (e, rest) \<longleftrightarrow>
     effect_is_valid e \<and> (case e of Title t \<Rightarrow> utf8_bytes t | Bell \<Rightarrow> True | Clipboard s d \<Rightarrow> utf8_bytes s \<and> utf8_bytes d
       | Hyperlink p u \<Rightarrow> utf8_bytes p \<and> utf8_bytes u) \<and> bs = put_effect e @ rest"
proof -
  have lims: "MAX_TITLE_BYTES < 2 ^ 64" "MAX_SELECTION_BYTES < 2 ^ 64" "MAX_CLIPBOARD_BYTES < 2 ^ 64"
    "MAX_HYPERLINK_PARAMS < 2 ^ 64" "MAX_HYPERLINK_URI < 2 ^ 64"
    by (simp_all add: MAX_TITLE_BYTES_def MAX_SELECTION_BYTES_def MAX_CLIPBOARD_BYTES_def MAX_HYPERLINK_PARAMS_def MAX_HYPERLINK_URI_def)
  note str = lims [THEN get_string_exact]
  have "get_effect (k # b) = Inr (e, rest) \<longleftrightarrow> effect_is_valid e \<and> get_effect_body k b = Inr (e, rest)" for k b
    unfolding get_effect_def get_u8.simps and_then.simps prod.case and_then_Inr split_paired_Ex guard_Inr by auto
  moreover have "get_effect_body k b = Inr (e, rest) \<longleftrightarrow>
      (case e of
         Title t \<Rightarrow> k = 1 \<and> get_string MAX_TITLE_BYTES b = Inr (t, rest)
       | Bell \<Rightarrow> k = 2 \<and> b = rest
       | Clipboard s d \<Rightarrow> k = 3 \<and> (\<exists>r. get_string MAX_SELECTION_BYTES b = Inr (s, r) \<and> get_string MAX_CLIPBOARD_BYTES r = Inr (d, rest))
       | Hyperlink p u \<Rightarrow> k = 4 \<and> (\<exists>r. get_string MAX_HYPERLINK_PARAMS b = Inr (p, r) \<and> get_string MAX_HYPERLINK_URI r = Inr (u, rest)))" for k b
    unfolding get_effect_body_def by (cases e) (auto simp: and_then_Inr)
  ultimately show ?thesis
    by (cases bs; cases e)
      (auto simp: str plain_text_def selection_text_def base64_text_def get_effect_def)
qed

fun effect_utf8 :: "effect \<Rightarrow> bool" where
  "effect_utf8 (Title t) = utf8_bytes t"
| "effect_utf8 Bell = True"
| "effect_utf8 (Clipboard s d) = (utf8_bytes s \<and> utf8_bytes d)"
| "effect_utf8 (Hyperlink p u) = (utf8_bytes p \<and> utf8_bytes u)"

definition effect_ok :: "effect \<Rightarrow> bool" where
  "effect_ok e \<longleftrightarrow> effect_is_valid e \<and> effect_utf8 e"

interpretation effect_field: wire_field put_effect get_effect effect_ok
proof unfold_locales
  fix e rest bs
  have "effect_ok e \<longleftrightarrow> effect_is_valid e \<and> (case e of Title t \<Rightarrow> utf8_bytes t | Bell \<Rightarrow> True
      | Clipboard s d \<Rightarrow> utf8_bytes s \<and> utf8_bytes d | Hyperlink p u \<Rightarrow> utf8_bytes p \<and> utf8_bytes u)"
    by (cases e) (simp_all add: effect_ok_def)
  then show "effect_ok e \<Longrightarrow> get_effect (put_effect e @ rest) = Inr (e, rest)"
    "get_effect bs = Inr (e, rest) \<Longrightarrow> effect_ok e \<and> bs = put_effect e @ rest"
    by (simp_all add: get_effect_exact)
qed

interpretation diff_field: wire_field put_diff get_diff diff_ok
  by unfold_locales (simp_all add: get_diff_exact)

definition update_ok :: "screen_update \<Rightarrow> bool" where
  "update_ok u \<longleftrightarrow> base_num u < new_num u \<and> new_num u < 2 ^ 64 \<and> output_seq u < 2 ^ 64
     \<and> length (state_hash u) = HASH_LEN \<and> length (effects u) \<le> MAX_EFFECTS \<and> list_all effect_ok (effects u) \<and> diff_ok (diff u)"

lemma put_effect_length: "1 \<le> length (put_effect e)"
  by (cases e) simp_all

lemma update_decode_encode:
  assumes "update_ok u" "length (update_encode u) \<le> MAX_UPDATE_BYTES"
  shows "update_decode (update_encode u) = Inr u"
proof -
  define r3 where "r3 = put_diff (diff u) @ []"
  define r2 where "r2 = concat (map put_effect (effects u)) @ r3"
  have v: "get_varint (put_varint v @ r) = Inr (v, r)" if "v < 2 ^ 64" for v r
    using that by (simp add: get_varint_exact)
  have b: "base_num u < 2 ^ 64" "new_num u < 2 ^ 64" "output_seq u < 2 ^ 64" "\<not> new_num u \<le> base_num u"
    using assms(1) by (auto simp: update_ok_def)
  have "length (effects u) \<le> length r2"
    using concat_length [of 1 put_effect "effects u", OF put_effect_length] by (simp add: r2_def)
  then have c: "get_count 1 (put_varint (length (effects u)) @ r2) = Inr (length (effects u), r2)"
    using assms(1) by (simp add: get_count_exact update_ok_def MAX_EFFECTS_def)
  have e: "get_n get_effect (length (effects u)) r2 = Inr (effects u, r3)"
    using assms(1) by (simp add: effect_field.get_n_exact update_ok_def r2_def)
  have d: "get_diff r3 = Inr (diff u, [])" using assms(1) by (simp add: diff_field.exact update_ok_def r3_def)
  have t: "get_take HASH_LEN (state_hash u @ r) = Inr (state_hash u, r)" for r
    using assms(1) by (simp add: get_take_exact update_ok_def)
  have enc: "update_encode u = put_varint (base_num u) @ put_varint (new_num u) @ put_varint (output_seq u) @ state_hash u
      @ put_varint (length (effects u)) @ r2"
    by (simp add: update_encode_def r2_def r3_def)
  show ?thesis
    unfolding update_decode_def using assms b
    by (simp add: enc guard_def v t c [unfolded One_nat_def] e d finish_def update_ok_def)
qed

lemma update_encode_decode:
  assumes "update_decode bs = Inr u"
  shows "update_encode u = bs \<and> update_ok u \<and> length bs \<le> MAX_UPDATE_BYTES"
proof -
  obtain b n sq h k es d r1 r2 r3 r4 r5 r6 where x: "length bs \<le> MAX_UPDATE_BYTES" "get_varint bs = Inr (b, r1)"
    "get_varint r1 = Inr (n, r2)" "\<not> n \<le> b" "get_varint r2 = Inr (sq, r3)" "get_take HASH_LEN r3 = Inr (h, r4)"
    "get_count 1 r4 = Inr (k, r5)" "k \<le> MAX_EFFECTS" "get_n get_effect k r5 = Inr (es, r6)" "get_diff r6 = Inr (d, [])"
    "u = \<lparr>base_num = b, new_num = n, output_seq = sq, diff = d, effects = es, state_hash = h\<rparr>"
    using assms unfolding update_decode_def and_then_Inr split_paired_Ex prod.case guard_Inr finish_def
    by (auto split: if_splits)
  then show ?thesis
    by (auto simp: update_encode_def update_ok_def get_varint_exact get_take_exact get_count_exact effect_field.get_n_exact diff_field.exact)
qed

text \<open>
  C16. The update format is canonical and its decoder exact. Bytes decode to an update exactly when they
  are its encoding, within the size cap, and the update keeps the rules of the format: a newer number than
  its base, 64-bit numbers, at most 64 effects that obey their limits, a hash of eight bytes, and a
  difference with an accepted size, a cursor inside it, ascending rows in range and, in each, ascending
  non-overlapping non-empty runs of valid cells. So no two byte strings mean the same update, and every
  update that keeps the rules survives the wire.
\<close>

theorem screen_update_exact:
  "update_decode bs = Inr u \<longleftrightarrow> update_encode u = bs \<and> update_ok u \<and> length bs \<le> MAX_UPDATE_BYTES"
  using update_decode_encode update_encode_decode by blast

interpretation update_codec: codec update_encode update_decode
  "\<lambda>u. update_ok u \<and> length (update_encode u) \<le> MAX_UPDATE_BYTES"
  by unfold_locales (simp add: update_decode_encode)

end
