(* ===== verification/Screen_Diff.thy ===== *)
theory Screen_Diff
  imports Screen_Codec
begin

text \<open>
  Differences are exact: the difference the host computes turns its base into its new screen, whatever
  their sizes, and fits the wire format; a difference of any origin, applied to a valid screen, panics
  nowhere and leaves a valid screen of the size it declares.
\<close>

section \<open>One row\<close>

lemma merge_end_bound: "e \<le> length new \<Longrightarrow> merge_end old new k e \<le> length new"
proof (induction old new k e rule: merge_end.induct)
  case (1 old new k e)
  then show ?case by (subst merge_end.simps) (auto simp: Suc_le_eq)
qed

lemma merge_end_range: "c < length new \<Longrightarrow> c < merge_end old new (c + 1) (c + 1) \<and> merge_end old new (c + 1) (c + 1) \<le> length new"
  using merge_end_le [of "c + 1" "c + 1" old new] merge_end_bound [of "c + 1" new old "c + 1"] by simp

lemma splice_run:
  "c \<le> e \<Longrightarrow> e \<le> length new \<Longrightarrow> take c new @ take (e - c) (drop c new) @ ys = take e new @ ys"
  using take_add [of c "e - c" new] by (simp flip: append_assoc)

lemma splice_same:
  assumes "c < length new" "length old = length new" "old ! c = new ! c"
  shows "take (c + 1) new @ drop (c + 1) old = take c new @ drop c old"
  using assms by (simp add: take_Suc_conv_app_nth Cons_nth_drop_Suc [symmetric])

lemma runs_from_apply:
  assumes "length old = cs" "length new = cs" "cs \<le> MAX_DIM" "list_all cell_is_valid new" "nf \<le> c" "c \<le> cs"
  shows "apply_runs cs nf (runs_from old new c) (take c new @ drop c old) = Some (Inr new)
    \<and> (list_all cell_ok new \<longrightarrow> run_list_ok cs nf (runs_from old new c))"
  using assms
proof (induction old new c arbitrary: nf rule: runs_from.induct)
  case (1 old new c)
  consider "c = cs" | "c < cs" "old ! c = new ! c" | "c < cs" "old ! c \<noteq> new ! c" using "1.prems" by linarith
  then show ?case
  proof cases
    case 1
    then show ?thesis using "1.prems" by (subst (1 2) runs_from.simps) simp
  next
    case 2
    then have r: "runs_from old new c = runs_from old new (c + 1)" using "1.prems" by (subst runs_from.simps) simp
    show ?thesis unfolding r using "1.IH"(1) [of nf] 2 "1.prems" splice_same [of c new old] by simp
  next
    case 3
    define e where "e = merge_end old new (c + 1) (c + 1)"
    have e: "c < e" "e \<le> cs" using merge_end_range [of c new old] 3 "1.prems" by (simp_all add: e_def)
    have c16: "c mod 2 ^ 16 = c" "c < 2 ^ 16" using 3 "1.prems" by (simp_all add: MAX_DIM_def)
    have r: "runs_from old new c = \<lparr>run_col = c, run_cells = take (e - c) (drop c new)\<rparr> # runs_from old new e"
      using 3 "1.prems" c16 by (subst runs_from.simps) (simp add: e_def Let_def)
    have sub: "list_all P (take (e - c) (drop c new))" if "list_all P new" for P
      using that by (auto simp: list_all_iff dest!: in_set_takeD in_set_dropD)
    have IH: "apply_runs cs e (runs_from old new e) (take e new @ drop e old) = Some (Inr new)
        \<and> (list_all cell_ok new \<longrightarrow> run_list_ok cs e (runs_from old new e))"
      using "1.IH"(2) [of e e] 3 e "1.prems" by (simp add: e_def)
    have sp: "take c new @ take (e - c) (drop c new) @ drop e old = take e new @ drop e old"
      using e "1.prems" by (simp add: splice_run)
    show ?thesis
      unfolding r using IH e 3 c16 sub "1.prems" by (simp add: Let_def sp)
  qed
qed

lemma row_roundtrip:
  assumes "length old = cs" "length new = cs" "cs \<le> MAX_DIM" "list_all cell_is_valid new"
  shows "row_runs old new = Some (runs_from old new 0)" "apply_runs cs 0 (runs_from old new 0) old = Some (Inr new)"
    "list_all cell_ok new \<Longrightarrow> run_list_ok cs 0 (runs_from old new 0)" "runs_from old new 0 = [] \<Longrightarrow> old = new"
  using assms runs_from_apply [of old cs new 0 0] by (auto simp: row_runs_def)

section \<open>The grid\<close>

definition row_fits :: "nat \<Rightarrow> row \<Rightarrow> bool" where
  "row_fits cs r \<longleftrightarrow> length (cells r) = cs \<and> list_all cell_is_valid (cells r)"

lemma grid_roundtrip:
  assumes "length olds = length news" "list_all (row_fits cs) olds" "list_all (row_fits cs) news" "cs \<le> MAX_DIM"
    "length pre + length news = rs" "rs \<le> MAX_DIM" "case lst of Some l \<Rightarrow> l < length pre | None \<Rightarrow> True"
  shows "\<exists>chs. row_changes (length pre) (zip olds news) = Some chs
    \<and> apply_changes rs cs lst chs (pre @ olds) = Some (Inr (pre @ news))
    \<and> (list_all (\<lambda>r. list_all cell_ok (cells r)) news \<longrightarrow> changes_ok rs cs lst chs)"
  using assms
proof (induction olds news arbitrary: pre lst rule: list_induct2)
  case Nil
  then show ?case by simp
next
  case (Cons old olds new news)
  have fit: "length (cells old) = cs" "length (cells new) = cs" "list_all cell_is_valid (cells new)"
    using Cons.prems by (simp_all add: row_fits_def)
  note row = row_roundtrip [OF fit(1,2) \<open>cs \<le> MAX_DIM\<close> fit(3)]
  let ?runs = "runs_from (cells old) (cells new) 0" and ?r = "length pre"
  have r16: "?r mod 2 ^ 16 = ?r" "?r < 2 ^ 16" using Cons.prems by (simp_all add: MAX_DIM_def)
  have IH: "\<exists>chs. row_changes (?r + 1) (zip olds news) = Some chs
      \<and> apply_changes rs cs l chs ((pre @ [new]) @ olds) = Some (Inr ((pre @ [new]) @ news))
      \<and> (list_all (\<lambda>r. list_all cell_ok (cells r)) news \<longrightarrow> changes_ok rs cs l chs)"
    if "case l of Some l \<Rightarrow> l < ?r + 1 | None \<Rightarrow> True" for l
    using Cons.IH [of "pre @ [new]" l] Cons.prems that by (cases l) simp_all
  show ?case
  proof (cases "?runs \<noteq> [] \<or> wrapped old \<noteq> wrapped new")
    case True
    obtain chs where chs: "row_changes (?r + 1) (zip olds news) = Some chs"
      "apply_changes rs cs (Some ?r) chs ((pre @ [new]) @ olds) = Some (Inr ((pre @ [new]) @ news))"
      "list_all (\<lambda>r. list_all cell_ok (cells r)) news \<Longrightarrow> changes_ok rs cs (Some ?r) chs"
      using IH [of "Some ?r"] by auto
    have n: "\<lparr>cells = cells new, wrapped = wrapped new\<rparr> = new" by (cases new) simp
    have "row_changes ?r (zip (old # olds) (new # news)) = Some (\<lparr>ch_row = ?r, ch_wrapped = wrapped new, ch_runs = ?runs\<rparr> # chs)"
      using True chs(1) r16 row(1) by simp
    moreover have "apply_changes rs cs lst (\<lparr>ch_row = ?r, ch_wrapped = wrapped new, ch_runs = ?runs\<rparr> # chs) (pre @ old # olds)
        = Some (Inr (pre @ new # news))"
      using chs(2) row(2) Cons.prems by (auto simp: n split: option.splits)
    moreover have "changes_ok rs cs lst (\<lparr>ch_row = ?r, ch_wrapped = wrapped new, ch_runs = ?runs\<rparr> # chs)"
      if "list_all (\<lambda>r. list_all cell_ok (cells r)) (new # news)"
      using chs(3) row(3) r16(2) that Cons.prems by (auto split: option.splits)
    ultimately show ?thesis by blast
  next
    case False
    then have "old = new" using row(4) by (cases old; cases new) simp
    obtain chs where chs: "row_changes (?r + 1) (zip olds news) = Some chs"
      "apply_changes rs cs lst chs ((pre @ [new]) @ olds) = Some (Inr ((pre @ [new]) @ news))"
      "list_all (\<lambda>r. list_all cell_ok (cells r)) news \<Longrightarrow> changes_ok rs cs lst chs"
      using IH [of lst] Cons.prems by (auto split: option.splits)
    have "row_changes ?r (zip (old # olds) (new # news)) = Some chs" using False chs(1) row(1) by simp
    then show ?thesis using chs \<open>old = new\<close> by auto
  qed
qed

section \<open>The screen\<close>

definition screen_ok :: "screen_state \<Rightarrow> bool" where
  "screen_ok s \<longleftrightarrow> screen_is_valid s \<and> list_all (\<lambda>r. list_all cell_ok (cells r)) (grid s)"

lemma screen_valid_fits: "screen_is_valid s \<Longrightarrow> list_all (row_fits (cols s)) (grid s) \<and> length (grid s) = rows s
    \<and> rows s \<le> MAX_DIM \<and> cols s \<le> MAX_DIM"
  by (auto simp: screen_is_valid_def row_fits_def size_is_valid_def list_all_iff)

lemma cell_default_ok: "cell_is_valid cell_default" "cell_ok cell_default"
  by (simp_all add: cell_ok_def cell_is_valid_def cell_default_def utf8_bytes_def utf8_valid.simps)

lemma blank_Inr: "size_is_valid r c \<Longrightarrow> \<exists>b. blank r c = Inr b \<and> screen_ok b \<and> rows b = r \<and> cols b = c"
  by (auto simp: blank_def screen_ok_def screen_is_valid_def modes_default_def modes_is_valid_def cell_default_ok
      size_is_valid_def list_all_iff)

lemma base_or_blank:
  assumes "screen_is_valid base" "size_is_valid r c"
  obtains b where "(if rows base = r \<and> cols base = c then Inr base else blank r c) = Inr b" "screen_is_valid b"
    "rows b = r" "cols b = c"
  using assms blank_Inr [of r c] by (cases "rows base = r \<and> cols base = c") (auto simp: screen_ok_def)

lemma diff_apply_on:
  assumes "size_is_valid (d_rows d) (d_cols d)" "d_cursor_row d < d_rows d" "d_cursor_col d < d_cols d" "modes_is_valid (d_modes d)"
    and "(if rows base = d_rows d \<and> cols base = d_cols d then Inr base else blank (d_rows d) (d_cols d)) = Inr b"
  shows "diff_apply d base =
    (case apply_changes (d_rows d) (d_cols d) None (d_changes d) (grid b) of
       None \<Rightarrow> None
     | Some (Inl e) \<Rightarrow> Some (Inl e)
     | Some (Inr g) \<Rightarrow> Some (Inr (b\<lparr>cursor_row := d_cursor_row d, cursor_col := d_cursor_col d, modes := d_modes d, grid := g\<rparr>)))"
  unfolding diff_apply_def assms(5) using assms(1-4) by simp

lemma between_apply:
  assumes "screen_is_valid base" "screen_is_valid new"
  shows "\<exists>d. diff_between base new = Some (Inr d) \<and> diff_apply d base = Some (Inr new) \<and> (screen_ok new \<longrightarrow> diff_ok d)
    \<and> d_rows d = rows new \<and> d_cols d = cols new"
proof -
  have sz: "size_is_valid (rows new) (cols new)" using assms(2) by (simp add: screen_is_valid_def)
  obtain b where b: "(if rows base = rows new \<and> cols base = cols new then Inr base else blank (rows new) (cols new)) = Inr b"
    "screen_is_valid b" "rows b = rows new" "cols b = cols new"
    by (rule base_or_blank [OF assms(1) sz])
  obtain chs where chs: "row_changes 0 (zip (grid b) (grid new)) = Some chs"
    "apply_changes (rows new) (cols new) None chs (grid b) = Some (Inr (grid new))"
    "screen_ok new \<Longrightarrow> changes_ok (rows new) (cols new) None chs"
    using grid_roundtrip [of "grid b" "grid new" "cols new" "[]" "rows new" None]
      screen_valid_fits [OF b(2)] screen_valid_fits [OF assms(2)] b(3,4) by (auto simp: screen_ok_def)
  let ?d = "\<lparr>d_rows = rows new, d_cols = cols new, d_cursor_row = cursor_row new, d_cursor_col = cursor_col new,
    d_modes = modes new, d_changes = chs\<rparr>"
  have "diff_between base new = Some (Inr ?d)" using b(1) chs(1) by (simp add: diff_between_def)
  moreover have "b\<lparr>cursor_row := cursor_row new, cursor_col := cursor_col new, modes := modes new, grid := grid new\<rparr> = new"
    using b(3,4) by (cases b; cases new) simp
  then have "diff_apply ?d base = Some (Inr new)"
    using assms(2) sz chs(2)
    by (subst diff_apply_on [where b = b]) (simp_all only: screen_diff.select_convs b(1), simp_all add: screen_is_valid_def)
  moreover have "screen_ok new \<longrightarrow> diff_ok ?d"
    using assms(2) sz chs(3) by (auto simp: diff_ok_def screen_is_valid_def)
  ultimately show ?thesis by fastforce
qed

section \<open>Differences from the network\<close>

lemma apply_runs_keeps:
  assumes "length row = cs" "list_all cell_is_valid row"
  shows "case apply_runs cs nf rs row of None \<Rightarrow> False | Some (Inl e) \<Rightarrow> e = OutOfRange
    | Some (Inr row') \<Rightarrow> length row' = cs \<and> list_all cell_is_valid row'"
  using assms
proof (induction rs arbitrary: nf row)
  case (Cons r rs)
  show ?case
  proof (cases "run_cells r = [] \<or> run_col r < nf \<or> run_col r + length (run_cells r) > cs \<or> \<not> list_all cell_is_valid (run_cells r)")
    case True
    then show ?thesis by (simp add: Let_def)
  next
    case False
    let ?en = "run_col r + length (run_cells r)"
    let ?row = "take (run_col r) row @ run_cells r @ drop ?en row"
    have "length ?row = cs" "list_all cell_is_valid ?row"
      using False Cons.prems by (auto simp: list_all_iff dest: in_set_takeD in_set_dropD)
    from Cons.IH [OF this, of ?en] show ?thesis using False Cons.prems by (simp add: Let_def)
  qed
qed simp

lemma apply_changes_keeps:
  assumes "length g = rs" "list_all (row_fits cs) g"
  shows "case apply_changes rs cs lst chs g of None \<Rightarrow> False | Some (Inl e) \<Rightarrow> e = OutOfRange
    | Some (Inr g') \<Rightarrow> length g' = rs \<and> list_all (row_fits cs) g'"
  using assms
proof (induction chs arbitrary: lst g)
  case (Cons ch chs)
  show ?case
  proof (cases "ch_row ch \<ge> rs \<or> (case lst of Some l \<Rightarrow> ch_row ch \<le> l | None \<Rightarrow> False)")
    case True
    then show ?thesis by simp
  next
    case False
    then have r: "ch_row ch < length g" using Cons.prems by auto
    then have f: "length (cells (g ! ch_row ch)) = cs" "list_all cell_is_valid (cells (g ! ch_row ch))"
      using Cons.prems by (auto simp: list_all_length row_fits_def)
    note k = apply_runs_keeps [OF f, of 0 "ch_runs ch"]
    show ?thesis
    proof (cases "apply_runs cs 0 (ch_runs ch) (cells (g ! ch_row ch))")
      case None
      then show ?thesis using k by simp
    next
      case (Some x)
      show ?thesis
      proof (cases x)
        case (Inl e)
        then show ?thesis using False Some k r by simp
      next
        case (Inr row')
        let ?g = "g[ch_row ch := \<lparr>cells = row', wrapped = ch_wrapped ch\<rparr>]"
        have "length ?g = rs" "list_all (row_fits cs) ?g"
          using Cons.prems k Some Inr by (auto simp: list_all_iff row_fits_def dest!: subsetD [OF set_update_subset_insert])
        from Cons.IH [OF this, of "Some (ch_row ch)"] show ?thesis using False Some Inr r by simp
      qed
    qed
  qed
qed simp

lemma diff_apply_keeps:
  assumes "screen_is_valid base"
  shows "case diff_apply d base of None \<Rightarrow> False | Some (Inl e) \<Rightarrow> e \<noteq> HashMismatch
    | Some (Inr s) \<Rightarrow> screen_is_valid s \<and> rows s = d_rows d \<and> cols s = d_cols d"
proof (cases "size_is_valid (d_rows d) (d_cols d) \<and> d_cursor_row d < d_rows d \<and> d_cursor_col d < d_cols d \<and> modes_is_valid (d_modes d)")
  case True
  obtain b where b: "(if rows base = d_rows d \<and> cols base = d_cols d then Inr base else blank (d_rows d) (d_cols d)) = Inr b"
    "screen_is_valid b" "rows b = d_rows d" "cols b = d_cols d"
    using True by (blast intro: base_or_blank [OF assms, of "d_rows d" "d_cols d"])
  have "length (grid b) = d_rows d" "list_all (row_fits (d_cols d)) (grid b)"
    using screen_valid_fits [OF b(2)] b(3,4) by simp_all
  note k = apply_changes_keeps [OF this, of None "d_changes d"]
  have "diff_apply d base =
    (case apply_changes (d_rows d) (d_cols d) None (d_changes d) (grid b) of
       None \<Rightarrow> None
     | Some (Inl e) \<Rightarrow> Some (Inl e)
     | Some (Inr g) \<Rightarrow> Some (Inr (b\<lparr>cursor_row := d_cursor_row d, cursor_col := d_cursor_col d, modes := d_modes d, grid := g\<rparr>)))"
    using True by (intro diff_apply_on b(1)) auto
  then show ?thesis using k True b(3,4)
    by (auto simp: screen_is_valid_def row_fits_def [abs_def] split: option.splits sum.splits)
next
  case False
  then show ?thesis by (auto simp: diff_apply_def not_le)
qed

section \<open>Properties\<close>

text \<open>
  C15. Computing a difference and applying it is the identity, through the wire: for two valid screens
  of any sizes the host's difference exists, the client decodes from its encoding the same difference,
  and applying that to the base gives exactly the new screen: every cell, wrap flag, cursor position
  and mode.
\<close>

theorem screen_diff_exact:
  assumes "screen_is_valid base" "screen_ok new"
  shows "\<exists>d. diff_between base new = Some (Inr d) \<and> diff_decode (diff_encode d) = Inr d
    \<and> diff_apply d base = Some (Inr new)"
proof -
  obtain d where d: "diff_between base new = Some (Inr d)" "diff_apply d base = Some (Inr new)" "diff_ok d"
    using between_apply [of base new] assms by (auto simp: screen_ok_def)
  moreover have "diff_decode (diff_encode d) = Inr d"
    using d(3) diff_field.get_put [of d "[]"] by (simp add: diff_decode_def diff_encode_def finish_def)
  ultimately show ?thesis by blast
qed

definition sample_base :: screen_state where
  "sample_base = \<lparr>rows = 1, cols = 2, cursor_row = 0, cursor_col = 0, modes = modes_default,
     grid = [\<lparr>cells = [cell_default, cell_default], wrapped = False\<rparr>]\<rparr>"

definition sample_new :: screen_state where
  "sample_new = sample_base\<lparr>cursor_col := 1, grid := [\<lparr>cells = [cell_default\<lparr>ctext := [104]\<rparr>, cell_default], wrapped = True\<rparr>]\<rparr>"

lemmas sample_simps = sample_base_def sample_new_def screen_ok_def screen_is_valid_def size_is_valid_def MAX_DIM_def
  MAX_CELLS_def modes_is_valid_def modes_default_def cell_ok_def cell_is_valid_def cell_default_def MAX_CELL_TEXT_def
  utf8_bytes_def

theorem screen_diff_exact_witness:
  "screen_is_valid sample_base \<and> screen_ok sample_new
   \<and> (\<exists>d. diff_between sample_base sample_new = Some (Inr d) \<and> diff_decode (diff_encode d) = Inr d
      \<and> diff_apply d sample_base = Some (Inr sample_new))"
proof -
  have "screen_is_valid sample_base" "screen_ok sample_new" by (simp_all add: sample_simps utf8_valid.simps in_range_def)
  then show ?thesis using screen_diff_exact by blast
qed

text \<open>
  C19. A difference of any origin is safe: applied to a valid screen it panics nowhere, however its
  rows, columns and runs are chosen, and it either is refused, never as a hash mismatch, or gives a
  valid screen of exactly the declared size.
\<close>

theorem screen_diff_safe:
  assumes "screen_is_valid base"
  shows "(\<exists>e. diff_apply d base = Some (Inl e) \<and> e \<noteq> HashMismatch)
    \<or> (\<exists>s. diff_apply d base = Some (Inr s) \<and> screen_is_valid s \<and> rows s = d_rows d \<and> cols s = d_cols d)"
  using diff_apply_keeps [OF assms, of d] by (auto split: option.splits sum.splits)

theorem screen_diff_safe_witness:
  "screen_is_valid sample_base
   \<and> ((\<exists>e. diff_apply \<lparr>d_rows = 1, d_cols = 2, d_cursor_row = 0, d_cursor_col = 0, d_modes = modes_default,
              d_changes = [\<lparr>ch_row = 9, ch_wrapped = False, ch_runs = []\<rparr>]\<rparr> sample_base = Some (Inl e) \<and> e \<noteq> HashMismatch)
     \<or> (\<exists>s. diff_apply \<lparr>d_rows = 1, d_cols = 2, d_cursor_row = 0, d_cursor_col = 0, d_modes = modes_default,
              d_changes = [\<lparr>ch_row = 9, ch_wrapped = False, ch_runs = []\<rparr>]\<rparr> sample_base = Some (Inr s)
            \<and> screen_is_valid s \<and> rows s = 1 \<and> cols s = 2))"
proof -
  have "screen_is_valid sample_base" by (simp add: sample_simps)
  then show ?thesis using screen_diff_safe [of sample_base
      "\<lparr>d_rows = 1, d_cols = 2, d_cursor_row = 0, d_cursor_col = 0, d_modes = modes_default,
        d_changes = [\<lparr>ch_row = 9, ch_wrapped = False, ch_runs = []\<rparr>]\<rparr>"] by simp
qed

end
