(* ===== verification/Utf8_Chars.thy ===== *)
theory Utf8_Chars
  imports Qsh_Prelude
begin

text \<open>
  The characters of a text: \<open>String::from_utf8_lossy\<close> followed by \<open>chars\<close>. A character is its UTF-8
  encoding, so \<open>len_utf8\<close> is the length and \<open>is_control\<close> is \<^const>\<open>has_control\<close>. On the bytes of a \<open>str\<close>
  nothing is replaced, and the function is \<open>chars\<close> itself.
\<close>

definition byte_at :: "nat \<Rightarrow> bytes \<Rightarrow> byte" where
  "byte_at i bs = (if i < length bs then bs ! i else 0)"

definition byte_in :: "byte \<Rightarrow> byte \<Rightarrow> byte \<Rightarrow> bool" where
  "byte_in lo hi b \<longleftrightarrow> lo \<le> b \<and> b \<le> hi"

definition cont_byte :: "byte \<Rightarrow> bool" where
  "cont_byte b = byte_in 0x80 0xBF b"

text \<open>The first two bytes of a sequence of three, and of four.\<close>

definition lead3 :: "byte \<Rightarrow> byte \<Rightarrow> bool" where
  "lead3 a b \<longleftrightarrow> byte_in 0xE0 0xE0 a \<and> byte_in 0xA0 0xBF b \<or> byte_in 0xE1 0xEC a \<and> cont_byte b
     \<or> byte_in 0xED 0xED a \<and> byte_in 0x80 0x9F b \<or> byte_in 0xEE 0xEF a \<and> cont_byte b"

definition lead4 :: "byte \<Rightarrow> byte \<Rightarrow> bool" where
  "lead4 a b \<longleftrightarrow> byte_in 0xF0 0xF0 a \<and> byte_in 0x90 0xBF b \<or> byte_in 0xF1 0xF3 a \<and> cont_byte b
     \<or> byte_in 0xF4 0xF4 a \<and> byte_in 0x80 0x8F b"

text \<open>The sequence at the front: whether it is well formed, and its length; an ill-formed one is the longest
  prefix of a well-formed one, and at least a byte.\<close>

definition utf8_step :: "bytes \<Rightarrow> bool \<times> nat" where
  "utf8_step bs =
     (let a = byte_at 0 bs; b = byte_at 1 bs; c = byte_at 2 bs; d = byte_at 3 bs
      in if a \<le> 0x7F then (True, 1)
         else if byte_in 0xC2 0xDF a then (if cont_byte b then (True, 2) else (False, 1))
         else if byte_in 0xE0 0xEF a then
           (if \<not> lead3 a b then (False, 1) else if \<not> cont_byte c then (False, 2) else (True, 3))
         else if byte_in 0xF0 0xF4 a then
           (if \<not> lead4 a b then (False, 1) else if \<not> cont_byte c then (False, 2)
            else if \<not> cont_byte d then (False, 3) else (True, 4))
         else (False, 1))"

lemma utf8_step_pos: "0 < snd (utf8_step bs)"
  by (simp add: utf8_step_def Let_def)

definition REPLACEMENT :: bytes where
  "REPLACEMENT = [0xEF, 0xBF, 0xBD]"

function chars_lossy :: "bytes \<Rightarrow> bytes list" where
  "chars_lossy bs =
     (if bs = [] then []
      else let (ok, k) = utf8_step bs in (if ok then take k bs else REPLACEMENT) # chars_lossy (drop k bs))"
  by pat_completeness auto
termination
proof (relation "measure length")
  fix bs :: bytes and x ok k
  assume "bs \<noteq> []" "x = utf8_step bs" "(ok, k) = x"
  then have "0 < k" "0 < length bs" using utf8_step_pos [of bs] by (metis snd_conv, simp)
  then show "(drop k bs, bs) \<in> measure length" by simp
qed simp

declare chars_lossy.simps [simp del]

section \<open>Well-formed characters\<close>

lemmas byte_order = byte_in_def cont_byte_def word_le_nat_alt word_less_nat_alt

lemma in_range_byte: "in_range lo hi (char_of (unat (b :: byte))) \<longleftrightarrow> lo \<le> unat b \<and> unat b \<le> hi"
  using unat_byte [of b] by (simp add: in_range_def of_char_of)

lemma byte_classes:
  "in_range 0 127 (char_of (unat a)) \<longleftrightarrow> a \<le> 0x7F"
  "in_range 194 223 (char_of (unat a)) \<longleftrightarrow> byte_in 0xC2 0xDF a"
  "tail_byte (char_of (unat a)) \<longleftrightarrow> cont_byte a"
  "in_range 224 224 (char_of (unat a)) \<and> in_range 160 191 (char_of (unat b)) \<or> in_range 225 236 (char_of (unat a)) \<and> cont_byte b
     \<or> in_range 237 237 (char_of (unat a)) \<and> in_range 128 159 (char_of (unat b))
     \<or> in_range 238 239 (char_of (unat a)) \<and> cont_byte b \<longleftrightarrow> lead3 a b"
  "in_range 240 240 (char_of (unat a)) \<and> in_range 144 191 (char_of (unat b)) \<or> in_range 241 243 (char_of (unat a)) \<and> cont_byte b
     \<or> in_range 244 244 (char_of (unat a)) \<and> in_range 128 143 (char_of (unat b)) \<longleftrightarrow> lead4 a b"
  by (simp_all add: in_range_byte tail_byte_def byte_order lead3_def lead4_def)

lemma lead_classes:
  "byte_in 0xC2 0xDF a \<Longrightarrow> \<not> a \<le> 0x7F"
  "lead3 a b \<Longrightarrow> \<not> a \<le> 0x7F \<and> \<not> byte_in 0xC2 0xDF a \<and> byte_in 0xE0 0xEF a"
  "lead4 a b \<Longrightarrow> \<not> a \<le> 0x7F \<and> \<not> byte_in 0xC2 0xDF a \<and> \<not> byte_in 0xE0 0xEF a \<and> byte_in 0xF0 0xF4 a \<and> \<not> lead3 a b"
  by (auto simp: lead3_def lead4_def byte_order)

inductive utf8_seq :: "bytes \<Rightarrow> bool" where
  one: "a \<le> 0x7F \<Longrightarrow> utf8_seq [a]"
| two: "byte_in 0xC2 0xDF a \<Longrightarrow> cont_byte b \<Longrightarrow> utf8_seq [a, b]"
| three: "lead3 a b \<Longrightarrow> cont_byte c \<Longrightarrow> utf8_seq [a, b, c]"
| four: "lead4 a b \<Longrightarrow> cont_byte c \<Longrightarrow> cont_byte d \<Longrightarrow> utf8_seq [a, b, c, d]"

lemma cont_at: "cont_byte (byte_at i bs) \<Longrightarrow> i < length bs"
  by (auto simp: byte_at_def cont_byte_def byte_in_def split: if_splits)

lemma utf8_step_seq:
  assumes "bs \<noteq> []" "utf8_step bs = (True, k)"
  shows "utf8_seq (take k bs)"
proof -
  have k: "k \<le> length bs" using assms cont_at [of 1 bs] cont_at [of 2 bs] cont_at [of 3 bs]
    by (auto simp: utf8_step_def Let_def Suc_le_eq split: if_splits)
  have "k = 1 \<and> byte_at 0 bs \<le> 0x7F \<or> k = 2 \<and> byte_in 0xC2 0xDF (byte_at 0 bs) \<and> cont_byte (byte_at 1 bs)
      \<or> k = 3 \<and> lead3 (byte_at 0 bs) (byte_at 1 bs) \<and> cont_byte (byte_at 2 bs)
      \<or> k = 4 \<and> lead4 (byte_at 0 bs) (byte_at 1 bs) \<and> cont_byte (byte_at 2 bs) \<and> cont_byte (byte_at 3 bs)"
    using assms(2) by (auto simp: utf8_step_def Let_def split: if_splits)
  moreover have "take 1 bs = [byte_at 0 bs]" if "1 \<le> length bs" using that by (cases bs) (simp_all add: byte_at_def)
  moreover have "take 2 bs = [byte_at 0 bs, byte_at 1 bs]" if "2 \<le> length bs"
    using that by (cases bs; cases "tl bs") (simp_all add: byte_at_def)
  moreover have "take 3 bs = [byte_at 0 bs, byte_at 1 bs, byte_at 2 bs]" if "3 \<le> length bs"
    using that by (cases bs; cases "tl bs"; cases "tl (tl bs)") (simp_all add: byte_at_def)
  moreover have "take 4 bs = [byte_at 0 bs, byte_at 1 bs, byte_at 2 bs, byte_at 3 bs]" if "4 \<le> length bs"
    using that by (cases bs; cases "tl bs"; cases "tl (tl bs)"; cases "tl (tl (tl bs))") (simp_all add: byte_at_def)
  ultimately show ?thesis using k by (auto intro: utf8_seq.intros)
qed

lemma utf8_bytes_seq: "utf8_seq c \<Longrightarrow> utf8_bytes (c @ rest) = utf8_bytes rest"
  by (induction c rule: utf8_seq.induct)
    (simp_all add: utf8_bytes_def utf8_valid.simps [of "char_of (unat _) # _ @ _"] utf8_valid.simps [of "char_of (unat _) # _"]
      byte_classes lead_classes)

lemma utf8_bytes_split:
  assumes "utf8_bytes bs" "bs \<noteq> []"
  obtains c rest where "bs = c @ rest" "utf8_seq c"
proof -
  obtain a s1 where 1: "bs = a # s1" using assms(2) by (cases bs) auto
  note v = assms(1) [unfolded utf8_bytes_def 1 list.map, simplified utf8_valid.simps [of "char_of (unat a) # _"] list.case byte_classes]
  show ?thesis
  proof (cases "a \<le> 0x7F")
    case True
    then show ?thesis using that [of "[a]" s1] 1 by (simp add: one)
  next
    case a: False
    then obtain b s2 where 2: "s1 = b # s2" using v by (cases s1) simp_all
    show ?thesis
    proof (cases "byte_in 0xC2 0xDF a \<and> cont_byte b")
      case True
      then show ?thesis using that [of "[a, b]" s2] 1 2 by (simp add: two)
    next
      case b: False
      then obtain c s3 where 3: "s2 = c # s3" using v a 2 by (cases s2) (simp_all add: byte_classes split: if_splits)
      show ?thesis
      proof (cases "cont_byte c \<and> lead3 a b")
        case True
        then show ?thesis using that [of "[a, b, c]" s3] 1 2 3 by (simp add: three)
      next
        case c: False
        then obtain d s4 where 4: "s3 = d # s4" using v a b 2 3 by (cases s3) (simp_all add: byte_classes split: if_splits)
        then have "cont_byte c \<and> cont_byte d \<and> lead4 a b" using v a b c 2 3 by (simp add: byte_classes split: if_splits)
        then show ?thesis using that [of "[a, b, c, d]" s4] 1 2 3 4 by (simp add: four)
      qed
    qed
  qed
qed

lemma utf8_step_append: "utf8_seq c \<Longrightarrow> utf8_step (c @ rest) = (True, length c)"
  by (induction c rule: utf8_seq.induct) (simp_all add: utf8_step_def byte_at_def lead_classes)

lemma has_control_seq: "utf8_seq c \<Longrightarrow> has_control (c @ rest) \<longleftrightarrow> has_control c \<or> has_control rest"
  by (induction c rule: utf8_seq.induct) (auto simp: byte_order)

lemma chars_lossy_wf: "c \<in> set (chars_lossy bs) \<Longrightarrow> utf8_seq c"
proof (induction bs rule: chars_lossy.induct)
  case (1 bs)
  obtain ok k where st: "utf8_step bs = (ok, k)" by fastforce
  have r: "utf8_seq REPLACEMENT" unfolding REPLACEMENT_def by (rule three) (simp_all add: lead3_def byte_in_def cont_byte_def)
  have "bs \<noteq> []" using "1.prems" by (auto simp: chars_lossy.simps)
  then have "c = (if ok then take k bs else REPLACEMENT) \<or> c \<in> set (chars_lossy (drop k bs))"
    using "1.prems" st by (subst (asm) chars_lossy.simps) auto
  then show ?case using 1 st r utf8_step_seq \<open>bs \<noteq> []\<close> by (auto split: if_splits)
qed

lemma utf8_seqs_concat: "\<forall>c \<in> set cs. utf8_seq c \<Longrightarrow> utf8_bytes (concat cs)"
  by (induction cs) (simp_all add: utf8_bytes_seq, simp add: utf8_bytes_def utf8_valid.simps)

lemma has_control_concat: "\<forall>c \<in> set cs. utf8_seq c \<Longrightarrow> has_control (concat cs) \<longleftrightarrow> (\<exists>c \<in> set cs. has_control c)"
  by (induction cs) (auto simp: has_control_seq)

lemma chars_of_str: "utf8_bytes bs \<Longrightarrow> concat (chars_lossy bs) = bs"
proof (induction bs rule: chars_lossy.induct)
  case (1 bs)
  show ?case
  proof (cases "bs = []")
    case False
    obtain ok k where st: "utf8_step bs = (ok, k)" by fastforce
    then have ok using utf8_bytes_split [OF "1.prems" False] utf8_step_append by (metis fst_conv)
    then have "utf8_bytes (drop k bs)" using utf8_bytes_seq [OF utf8_step_seq [OF False], of k "drop k bs"] st "1.prems" by simp
    then show ?thesis using 1 False st \<open>ok\<close> by (subst chars_lossy.simps) simp
  qed (simp add: chars_lossy.simps)
qed

end
