(* ===== verification/Screen_Emulator.thy ===== *)
theory Screen_Emulator
  imports Screen_Diff Utf8_Chars
begin

unbundle bit_operations_syntax

text \<open>
  What surrounds the terminal emulator of a session: the filter in front of it (\<open>Vs16Filter\<close>), the
  collector of its callbacks (\<open>qsh-core/src/screen/collector.rs\<close>) and the conversion of its screen into
  the normalised state (\<open>convert_cell\<close> and \<open>state_of\<close> of \<open>screen/mod.rs\<close>). The emulator itself, the crate
  \<open>vt100\<close>, is an argument: the record \<open>vt100\<close> holds the operations the code calls, and processing
  input returns the callbacks it makes, in order.
\<close>

section \<open>The emulator's interface\<close>

datatype vt_color = VtDefault | VtIdx byte | VtRgb byte byte byte

record vt_cell =
  vc_contents :: bytes
  vc_fg :: vt_color
  vc_bg :: vt_color
  vc_bold :: bool
  vc_dim :: bool
  vc_italic :: bool
  vc_underline :: bool
  vc_inverse :: bool
  vc_wide :: bool
  vc_wide_cont :: bool

datatype mouse_protocol_mode = MouseNone | Press | PressRelease | ButtonMotion | AnyMotion

datatype mouse_protocol_encoding = EncDefault | EncUtf8 | EncSgr

record vt_screen =
  vs_rows :: nat
  vs_cols :: nat
  vs_cell :: "nat \<Rightarrow> nat \<Rightarrow> vt_cell option"
  vs_wrapped :: "nat \<Rightarrow> bool"
  vs_cursor_row :: nat
  vs_cursor_col :: nat
  vs_alternate :: bool
  vs_hide_cursor :: bool
  vs_app_cursor :: bool
  vs_app_keypad :: bool
  vs_bracketed_paste :: bool
  vs_mouse_mode :: mouse_protocol_mode
  vs_mouse_encoding :: mouse_protocol_encoding

text \<open>The callbacks, with what they are passed; a scrolled-off row with its formatted text, if it can be formatted.\<close>

datatype vt_event =
    AudibleBell
  | SetWindowTitle bytes
  | CopyToClipboard bytes bytes
  | UnhandledOsc "bytes list"
  | UnhandledCsi vt_screen "byte option" "byte option" "nat list list" char
  | OnScroll "bytes option" bool

record 'e vt100 =
  vt_new :: "nat \<Rightarrow> nat \<Rightarrow> 'e"
  vt_process :: "bytes \<Rightarrow> 'e \<Rightarrow> 'e \<times> vt_event list"
  vt_set_size :: "nat \<Rightarrow> nat \<Rightarrow> 'e \<Rightarrow> 'e \<times> vt_event list"
  vt_screen :: "'e \<Rightarrow> vt_screen"

section \<open>The selector filter\<close>

definition VS16_SEQ :: bytes where
  "VS16_SEQ = [0xEF, 0xB8, 0x8F]"

record vs16_filter =
  vs16_held :: bytes
  vs16_held_len :: nat

definition vs16_default :: vs16_filter where
  "vs16_default = \<lparr>vs16_held = [0, 0], vs16_held_len = 0\<rparr>"

fun vs16_loop :: "bytes \<Rightarrow> nat \<Rightarrow> bytes \<Rightarrow> bytes \<Rightarrow> bytes \<times> nat \<times> bytes" where
  "vs16_loop [] have' pending out = (out, have', pending)"
| "vs16_loop (b # data) have' pending out =
     (if b = VS16_SEQ ! have' then
        if have' = 2 then vs16_loop data 0 pending (out @ [0])
        else vs16_loop data (have' + 1) (pending[have' := b]) out
      else let out = out @ take have' pending
           in if b = VS16_SEQ ! 0 then vs16_loop data 1 (pending[0 := b]) out
              else vs16_loop data 0 pending (out @ [b]))"

definition vs16_run :: "bytes \<Rightarrow> vs16_filter \<Rightarrow> bytes \<times> vs16_filter" where
  "vs16_run data f =
     (if vs16_held_len f = 0 \<and> VS16_SEQ ! 0 \<notin> set data then (data, f)
      else let (out, have', pending) = vs16_loop data (vs16_held_len f) (vs16_held f) []
           in (out, f\<lparr>vs16_held := pending, vs16_held_len := have'\<rparr>))"

section \<open>The collector\<close>

definition MAX_ANSWER_BYTES :: nat where
  "MAX_ANSWER_BYTES = 4096"

type_synonym rgb = "byte \<times> byte \<times> byte"

record collector =
  col_answers :: bytes
  col_effects :: "effect list"
  col_effects_dropped :: nat
  col_history :: "bytes list"
  col_history_bytes :: nat
  col_history_max_rows :: nat
  col_history_max_bytes :: nat
  col_history_skipped :: nat
  col_history_full :: bool
  col_fg :: "rgb option"
  col_bg :: "rgb option"

definition collector_new :: "nat \<Rightarrow> nat \<Rightarrow> collector" where
  "collector_new history_max_rows history_max_bytes =
     \<lparr>col_answers = [], col_effects = [], col_effects_dropped = 0, col_history = [], col_history_bytes = 0,
      col_history_max_rows = history_max_rows, col_history_max_bytes = history_max_bytes, col_history_skipped = 0,
      col_history_full = False, col_fg = None, col_bg = None\<rparr>"

definition answer :: "bytes \<Rightarrow> collector \<Rightarrow> collector" where
  "answer bs c =
     (if length (col_answers c) + length bs \<le> MAX_ANSWER_BYTES then c\<lparr>col_answers := col_answers c @ bs\<rparr> else c)"

definition drop_effect :: "collector \<Rightarrow> collector" where
  "drop_effect c = c\<lparr>col_effects_dropped := col_effects_dropped c + 1\<rparr>"

definition push_effect :: "effect \<Rightarrow> collector \<Rightarrow> collector" where
  "push_effect e c =
     (if \<not> effect_is_valid e then drop_effect c
      else if e = Bell \<and> col_effects c \<noteq> [] \<and> last (col_effects c) = Bell then c
      else if length (col_effects c) \<ge> MAX_EFFECTS then drop_effect c
      else c\<lparr>col_effects := col_effects c @ [e]\<rparr>)"

definition push_history :: "bytes \<Rightarrow> collector \<Rightarrow> collector" where
  "push_history line c =
     (if col_history_bytes c + length line > col_history_max_bytes c
      then c\<lparr>col_history_full := True, col_history_skipped := col_history_skipped c + 1\<rparr>
      else let c = c\<lparr>col_history_bytes := col_history_bytes c + length line, col_history := col_history c @ [line]\<rparr>
           in if length (col_history c) \<ge> col_history_max_rows c then c\<lparr>col_history_full := True\<rparr> else c)"

text \<open>Formatting: string literals, the escape character, decimal and two-digit hexadecimal numbers.\<close>

definition lit :: "string \<Rightarrow> bytes" where
  "lit s = map of_char s"

definition ESC :: byte where
  "ESC = 0x1B"

definition hex_digit :: "nat \<Rightarrow> byte" where
  "hex_digit d = of_nat (if d < 10 then 48 + d else 87 + d)"

definition hex2 :: "byte \<Rightarrow> bytes" where
  "hex2 b = [hex_digit (unat b div 16), hex_digit (unat b mod 16)]"

definition color_answer :: "nat \<Rightarrow> rgb option \<Rightarrow> collector \<Rightarrow> collector" where
  "color_answer ps color c =
     (case color of
        None \<Rightarrow> c
      | Some (r, g, b) \<Rightarrow>
          answer ([ESC] @ lit '']'' @ lit (nat_string ps) @ lit '';rgb:'' @ hex2 r @ hex2 r @ lit ''/'' @ hex2 g @ hex2 g
            @ lit ''/'' @ hex2 b @ hex2 b @ [ESC, 0x5C]) c)"

fun clean_chars :: "nat \<Rightarrow> bytes list \<Rightarrow> bytes \<Rightarrow> bytes" where
  "clean_chars limit [] out = out"
| "clean_chars limit (c # cs) out =
     (if has_control c then clean_chars limit cs out
      else if length out + length c > limit then out
      else clean_chars limit cs (out @ c))"

definition clean_text :: "bytes \<Rightarrow> nat \<Rightarrow> bytes" where
  "clean_text bs limit = clean_chars limit (chars_lossy bs) []"

definition private_mode_state :: "vt_screen \<Rightarrow> nat \<Rightarrow> bool option" where
  "private_mode_state s mode =
     (if mode = 1 then Some (vs_app_cursor s)
      else if mode = 9 then Some (vs_mouse_mode s = Press)
      else if mode = 25 then Some (\<not> vs_hide_cursor s)
      else if mode = 47 \<or> mode = 1049 then Some (vs_alternate s)
      else if mode = 1000 then Some (vs_mouse_mode s = PressRelease)
      else if mode = 1002 then Some (vs_mouse_mode s = ButtonMotion)
      else if mode = 1003 then Some (vs_mouse_mode s = AnyMotion)
      else if mode = 1005 then Some (vs_mouse_encoding s = EncUtf8)
      else if mode = 1006 then Some (vs_mouse_encoding s = EncSgr)
      else if mode = 2004 then Some (vs_bracketed_paste s)
      else None)"

fun first_param :: "nat list list \<Rightarrow> nat option" where
  "first_param ((x # _) # _) = Some x"
| "first_param _ = None"

definition copy_to_clipboard :: "bytes \<Rightarrow> bytes \<Rightarrow> collector \<Rightarrow> collector" where
  "copy_to_clipboard ty data c =
     (if \<not> (utf8_bytes ty \<and> utf8_bytes data) then drop_effect c
      else if length data > MAX_CLIPBOARD_BYTES then drop_effect c
      else push_effect (Clipboard ty data) c)"

text \<open>\<open>join\<close> with a semicolon.\<close>

fun join_semi :: "bytes list \<Rightarrow> bytes" where
  "join_semi [] = []"
| "join_semi [x] = x"
| "join_semi (x # y # xs) = x @ lit '';'' @ join_semi (y # xs)"

definition hyperlink :: "bytes \<Rightarrow> bytes list \<Rightarrow> collector \<Rightarrow> collector" where
  "hyperlink link_params uri c =
     (let uri = join_semi uri
      in if length link_params > MAX_HYPERLINK_PARAMS \<or> length uri > MAX_HYPERLINK_URI then drop_effect c
         else if \<not> (utf8_bytes link_params \<and> utf8_bytes uri) then drop_effect c
         else push_effect (Hyperlink link_params uri) c)"

definition unhandled_osc :: "bytes list \<Rightarrow> collector \<Rightarrow> collector" where
  "unhandled_osc params c =
     (case params of
        k # link_params # u # us \<Rightarrow> if k = lit ''8'' then hyperlink link_params (u # us) c else c
      | [k, q] \<Rightarrow>
          if k = lit ''10'' \<and> q = lit ''?'' then color_answer 10 (col_fg c) c
          else if k = lit ''11'' \<and> q = lit ''?'' then color_answer 11 (col_bg c) c
          else c
      | _ \<Rightarrow> c)"

definition unhandled_csi :: "vt_screen \<Rightarrow> byte option \<Rightarrow> byte option \<Rightarrow> nat list list \<Rightarrow> char \<Rightarrow> collector \<Rightarrow> collector" where
  "unhandled_csi s i1 i2 params ch c =
     (let first = first_param params
      in if i1 = None \<and> i2 = None \<and> ch = CHR ''c'' \<and> (first = None \<or> first = Some 0)
         then answer ([ESC] @ lit ''[?62;22c'') c
         else if i1 = Some (of_char (CHR ''>'')) \<and> i2 = None \<and> ch = CHR ''c'' \<and> (first = None \<or> first = Some 0)
         then answer ([ESC] @ lit ''[>0;0;0c'') c
         else if i1 = None \<and> i2 = None \<and> ch = CHR ''n'' \<and> first = Some 5
         then answer ([ESC] @ lit ''[0n'') c
         else if (i1 = None \<or> i1 = Some (of_char (CHR ''?''))) \<and> i2 = None \<and> ch = CHR ''n'' \<and> first = Some 6
         then let row = min (vs_cursor_row s) (vs_rows s - 1) + 1; col = min (vs_cursor_col s) (vs_cols s - 1) + 1
              in answer ([ESC] @ lit ''['' @ lit (if i1 \<noteq> None then ''?'' else []) @ lit (nat_string row) @ lit '';''
                   @ lit (nat_string col) @ lit ''R'') c
         else if i1 = Some (of_char (CHR ''?'')) \<and> i2 = Some (of_char (CHR ''$'')) \<and> ch = CHR ''p'' \<and> length params = 1
         then (case first of
                 None \<Rightarrow> c
               | Some mode \<Rightarrow>
                   (case private_mode_state s mode of
                      None \<Rightarrow> c
                    | Some is_set \<Rightarrow>
                        answer ([ESC] @ lit ''[?'' @ lit (nat_string mode) @ lit '';''
                          @ lit (nat_string (if is_set then 1 else 2)) @ lit ''$y'') c))
         else c)"

definition on_scroll :: "bytes option \<Rightarrow> bool \<Rightarrow> collector \<Rightarrow> collector" where
  "on_scroll line alternate_screen c =
     (if alternate_screen then c
      else if col_history_full c \<or> col_history_max_rows c = 0
      then c\<lparr>col_history_skipped := col_history_skipped c + 1\<rparr>
      else case line of Some l \<Rightarrow> push_history l c | None \<Rightarrow> c)"

fun collect :: "vt_event \<Rightarrow> collector \<Rightarrow> collector" where
  "collect AudibleBell c = push_effect Bell c"
| "collect (SetWindowTitle title) c = push_effect (Title (clean_text title MAX_TITLE_BYTES)) c"
| "collect (CopyToClipboard ty data) c = copy_to_clipboard ty data c"
| "collect (UnhandledOsc params) c = unhandled_osc params c"
| "collect (UnhandledCsi s i1 i2 params ch) c = unhandled_csi s i1 i2 params ch c"
| "collect (OnScroll line alternate) c = on_scroll line alternate c"

section \<open>The screen as a normalised state\<close>

fun convert_color :: "vt_color \<Rightarrow> color" where
  "convert_color VtDefault = DefaultColor"
| "convert_color (VtIdx i) = Idx i"
| "convert_color (VtRgb r g b) = Rgb r g b"

definition BOLD :: byte where
  "BOLD = 1"

definition DIM :: byte where
  "DIM = 2"

definition ITALIC :: byte where
  "ITALIC = 4"

definition UNDERLINE :: byte where
  "UNDERLINE = 8"

definition INVERSE :: byte where
  "INVERSE = 16"

definition ALT_SCREEN :: byte where
  "ALT_SCREEN = 1"

definition CURSOR_HIDDEN :: byte where
  "CURSOR_HIDDEN = 2"

definition APP_CURSOR :: byte where
  "APP_CURSOR = 4"

definition APP_KEYPAD :: byte where
  "APP_KEYPAD = 8"

definition BRACKETED_PASTE :: byte where
  "BRACKETED_PASTE = 16"

text \<open>\<open>flags |= bit\<close> for each pair whose condition holds.\<close>

fun or_flags :: "(bool \<times> byte) list \<Rightarrow> byte" where
  "or_flags [] = 0"
| "or_flags ((on, m) # xs) = (if on then m OR or_flags xs else or_flags xs)"

fun cell_text :: "bytes list \<Rightarrow> bytes \<Rightarrow> bytes" where
  "cell_text [] t = t"
| "cell_text (c # cs) t = (if has_control c \<or> length t + length c > MAX_CELL_TEXT then t else cell_text cs (t @ c))"

definition convert_cell :: "vt_cell \<Rightarrow> cell" where
  "convert_cell x =
     (let f = or_flags [(vc_bold x, BOLD), (vc_dim x, DIM), (vc_italic x, ITALIC), (vc_underline x, UNDERLINE), (vc_inverse x, INVERSE)];
          (t, f) = (if vc_wide_cont x then ([], f OR WIDE_CONT)
                    else (cell_text (chars_lossy (vc_contents x)) [], if vc_wide x then f OR WIDE else f))
      in \<lparr>ctext = t, fg = convert_color (vc_fg x), bg = convert_color (vc_bg x), flags = f\<rparr>)"

fun mouse_mode_byte :: "mouse_protocol_mode \<Rightarrow> byte" where
  "mouse_mode_byte MouseNone = 0"
| "mouse_mode_byte Press = 1"
| "mouse_mode_byte PressRelease = 2"
| "mouse_mode_byte ButtonMotion = 3"
| "mouse_mode_byte AnyMotion = 4"

fun mouse_encoding_byte :: "mouse_protocol_encoding \<Rightarrow> byte" where
  "mouse_encoding_byte EncDefault = 0"
| "mouse_encoding_byte EncUtf8 = 1"
| "mouse_encoding_byte EncSgr = 2"

definition state_of :: "vt_screen \<Rightarrow> screen_state" where
  "state_of s =
     \<lparr>rows = vs_rows s, cols = vs_cols s,
      cursor_row = min (vs_cursor_row s) (vs_rows s - 1), cursor_col = min (vs_cursor_col s) (vs_cols s - 1),
      modes =
        \<lparr>mode_flags = or_flags [(vs_alternate s, ALT_SCREEN), (vs_hide_cursor s, CURSOR_HIDDEN), (vs_app_cursor s, APP_CURSOR),
                                (vs_app_keypad s, APP_KEYPAD), (vs_bracketed_paste s, BRACKETED_PASTE)],
         mouse_mode = mouse_mode_byte (vs_mouse_mode s), mouse_encoding = mouse_encoding_byte (vs_mouse_encoding s)\<rparr>,
      grid = map (\<lambda>r. \<lparr>cells = map (\<lambda>c. case vs_cell s r c of Some x \<Rightarrow> convert_cell x | None \<Rightarrow> cell_default) [0..<vs_cols s],
                       wrapped = vs_wrapped s r\<rparr>) [0..<vs_rows s]\<rparr>"

end
