(* ===== verification/Emulator_Guarantees.thy ===== *)
theory Emulator_Guarantees
  imports Screen_Emulator
begin

unbundle bit_operations_syntax

text \<open>
  What the code around the emulator guarantees, whatever the emulator does: the filter's output holds no
  variation selector, however the input is cut into feeds; the screen state is always valid; and the
  collector stays within its bounds and holds only effects that fit the wire.
\<close>

section \<open>The selector filter\<close>

text \<open>The reference: one pass over the whole stream.\<close>

function replace_vs16 :: "bytes \<Rightarrow> bytes" where
  "replace_vs16 bs =
     (if bs = [] then []
      else if take 3 bs = VS16_SEQ then 0 # replace_vs16 (drop 3 bs)
      else hd bs # replace_vs16 (tl bs))"
  by pat_completeness auto
termination by (relation "measure length") (auto simp: neq_Nil_conv)

declare replace_vs16.simps [simp del]

lemma replace_vs16_Nil [simp]: "replace_vs16 [] = []"
  by (simp add: replace_vs16.simps)

lemma replace_vs16_skip: "b \<noteq> 0xEF \<Longrightarrow> replace_vs16 (b # bs) = b # replace_vs16 bs"
  by (subst replace_vs16.simps) (simp add: VS16_SEQ_def)

lemma replace_vs16_hit: "replace_vs16 (0xEF # 0xB8 # 0x8F # bs) = 0 # replace_vs16 bs"
  by (subst replace_vs16.simps) (simp add: VS16_SEQ_def)

lemma replace_vs16_miss1: "b \<noteq> 0xB8 \<Longrightarrow> replace_vs16 (0xEF # b # bs) = 0xEF # replace_vs16 (b # bs)"
  by (subst replace_vs16.simps) (simp add: VS16_SEQ_def)

lemma replace_vs16_miss2: "b \<noteq> 0x8F \<Longrightarrow> replace_vs16 (0xEF # 0xB8 # b # bs) = 0xEF # 0xB8 # replace_vs16 (b # bs)"
  by (subst replace_vs16.simps) (simp add: VS16_SEQ_def replace_vs16_skip)

lemma replace_vs16_short: "replace_vs16 [0xEF] = [0xEF]" "replace_vs16 [0xEF, 0xB8] = [0xEF, 0xB8]"
  by (simp_all add: replace_vs16.simps VS16_SEQ_def)

lemma vs16_loop_steps:
  "vs16_loop (0xEF # d) 0 [p, q] out = vs16_loop d 1 [0xEF, q] out"
  "b \<noteq> 0xEF \<Longrightarrow> vs16_loop (b # d) 0 [p, q] out = vs16_loop d 0 [p, q] (out @ [b])"
  "vs16_loop (0xB8 # d) 1 [p, q] out = vs16_loop d 2 [p, 0xB8] out"
  "vs16_loop (0xEF # d) 1 [p, q] out = vs16_loop d 1 [0xEF, q] (out @ [p])"
  "b \<noteq> 0xEF \<Longrightarrow> b \<noteq> 0xB8 \<Longrightarrow> vs16_loop (b # d) 1 [p, q] out = vs16_loop d 0 [p, q] (out @ [p, b])"
  "vs16_loop (0x8F # d) 2 [p, q] out = vs16_loop d 0 [p, q] (out @ [0])"
  "vs16_loop (0xEF # d) 2 [p, q] out = vs16_loop d 1 [0xEF, q] (out @ [p, q])"
  "b \<noteq> 0xEF \<Longrightarrow> b \<noteq> 0x8F \<Longrightarrow> vs16_loop (b # d) 2 [p, q] out = vs16_loop d 0 [p, q] (out @ [p, q, b])"
  by (simp_all add: VS16_SEQ_def Let_def) (simp add: numeral_2_eq_2)

text \<open>What the filter holds after \<open>n\<close> bytes of the sequence.\<close>

definition holds_prefix :: "nat \<Rightarrow> bytes \<Rightarrow> bool" where
  "holds_prefix n pending \<longleftrightarrow>
     (\<exists>p q. pending = [p, q] \<and> (n = 0 \<or> n = 1 \<and> p = 0xEF \<or> n = 2 \<and> p = 0xEF \<and> q = 0xB8))"

lemma take_VS16_SEQ: "take 0 VS16_SEQ = []" "take 1 VS16_SEQ = [0xEF]" "take 2 VS16_SEQ = [0xEF, 0xB8]"
  by (simp_all add: VS16_SEQ_def)

lemma vs16_loop_stream:
  assumes "holds_prefix n pending"
  shows "\<exists>out' n' pending'. vs16_loop data n pending out = (out', n', pending') \<and> holds_prefix n' pending'
    \<and> out' @ replace_vs16 (take n' VS16_SEQ @ rest) = out @ replace_vs16 (take n VS16_SEQ @ data @ rest)"
  using assms
proof (induction data arbitrary: n pending out)
  case (Cons b data)
  note IH = Cons.IH [unfolded holds_prefix_def]
  obtain p q where pq: "pending = [p, q]" "n = 0 \<or> n = 1 \<and> p = 0xEF \<or> n = 2 \<and> p = 0xEF \<and> q = 0xB8"
    using Cons.prems by (auto simp: holds_prefix_def)
  have goal: ?case if "vs16_loop (b # data) n pending out = vs16_loop data m ps (out @ out1)" "holds_prefix m ps"
      "replace_vs16 (take n VS16_SEQ @ b # data @ rest) = out1 @ replace_vs16 (take m VS16_SEQ @ data @ rest)" for m ps out1
    using Cons.IH [OF that(2), of "out @ out1"] that(1,3) by simp
  consider "n = 0" | "n = 1" "p = 0xEF" | "n = 2" "p = 0xEF" "q = 0xB8" using pq(2) by blast
  then show ?case
  proof cases
    case n: 1
    show ?thesis
    proof (cases "b = 0xEF")
      case True
      show ?thesis by (rule goal [of 1 "[0xEF, q]" "[]"]) (simp_all only: n pq(1) True vs16_loop_steps take_VS16_SEQ holds_prefix_def, simp_all)
    next
      case False
      show ?thesis
        by (rule goal [of 0 "[p, q]" "[b]"])
          (simp_all only: n pq(1) vs16_loop_steps(2) [OF False] take_VS16_SEQ holds_prefix_def, simp_all add: replace_vs16_skip [OF False])
    qed
  next
    case n: 2
    consider "b = 0xB8" | "b = 0xEF" | "b \<noteq> 0xB8" "b \<noteq> 0xEF" by blast
    then show ?thesis
    proof cases
      case 1
      show ?thesis by (rule goal [of 2 "[p, 0xB8]" "[]"]) (simp_all only: n pq(1) 1 vs16_loop_steps take_VS16_SEQ holds_prefix_def, simp_all)
    next
      case 2
      show ?thesis
        by (rule goal [of 1 "[0xEF, q]" "[p]"])
          (simp_all only: n pq(1) 2 vs16_loop_steps take_VS16_SEQ holds_prefix_def, simp_all add: replace_vs16_miss1)
    next
      case 3
      show ?thesis
        by (rule goal [of 0 "[p, q]" "[p, b]"])
          (simp_all only: n pq(1) vs16_loop_steps(5) [OF 3(2,1)] take_VS16_SEQ holds_prefix_def,
           simp_all add: replace_vs16_miss1 [OF 3(1)] replace_vs16_skip [OF 3(2)])
    qed
  next
    case n: 3
    consider "b = 0x8F" | "b = 0xEF" | "b \<noteq> 0x8F" "b \<noteq> 0xEF" by blast
    then show ?thesis
    proof cases
      case 1
      show ?thesis
        by (rule goal [of 0 "[p, q]" "[0]"])
          (simp_all only: n pq(1) 1 vs16_loop_steps take_VS16_SEQ holds_prefix_def, simp_all add: replace_vs16_hit)
    next
      case 2
      show ?thesis
        by (rule goal [of 1 "[0xEF, q]" "[p, q]"])
          (simp_all only: n pq(1) 2 vs16_loop_steps take_VS16_SEQ holds_prefix_def, simp_all add: replace_vs16_miss2)
    next
      case 3
      show ?thesis
        by (rule goal [of 0 "[p, q]" "[p, q, b]"])
          (simp_all only: n pq(1) vs16_loop_steps(8) [OF 3(2,1)] take_VS16_SEQ holds_prefix_def,
           simp_all add: replace_vs16_miss2 [OF 3(1)] replace_vs16_skip [OF 3(2)])
    qed
  qed
qed simp

definition vs16_wf :: "vs16_filter \<Rightarrow> bool" where
  "vs16_wf f = holds_prefix (vs16_held_len f) (vs16_held f)"

lemma replace_vs16_plain: "0xEF \<notin> set bs \<Longrightarrow> replace_vs16 (bs @ rest) = bs @ replace_vs16 rest"
  by (induction bs) (auto simp: replace_vs16_skip)

lemma vs16_run_stream:
  assumes "vs16_wf f" "vs16_run data f = (out, f')"
  shows "vs16_wf f' \<and> out @ replace_vs16 (take (vs16_held_len f') VS16_SEQ @ rest)
    = replace_vs16 (take (vs16_held_len f) VS16_SEQ @ data @ rest)"
proof (cases "vs16_held_len f = 0 \<and> VS16_SEQ ! 0 \<notin> set data")
  case True
  then show ?thesis using assms by (simp add: vs16_run_def VS16_SEQ_def replace_vs16_plain)
next
  case False
  then show ?thesis
    using assms vs16_loop_stream [of "vs16_held_len f" "vs16_held f" data "[]" rest]
    by (auto simp: vs16_run_def vs16_wf_def)
qed

fun vs16_feeds :: "bytes list \<Rightarrow> vs16_filter \<Rightarrow> bytes list \<times> vs16_filter" where
  "vs16_feeds [] f = ([], f)"
| "vs16_feeds (d # ds) f = (let (out, f) = vs16_run d f; (outs, f) = vs16_feeds ds f in (out # outs, f))"

lemma vs16_feeds_stream:
  assumes "vs16_wf f" "vs16_feeds ds f = (outs, f')"
  shows "vs16_wf f' \<and> concat outs @ replace_vs16 (take (vs16_held_len f') VS16_SEQ @ rest)
    = replace_vs16 (take (vs16_held_len f) VS16_SEQ @ concat ds @ rest)"
  using assms
proof (induction ds arbitrary: f outs f')
  case (Cons d ds)
  obtain o1 f1 where 1: "vs16_run d f = (o1, f1)" by fastforce
  obtain os f2 where 2: "vs16_feeds ds f1 = (os, f2)" by fastforce
  have s: "vs16_wf f1" "o1 @ replace_vs16 (take (vs16_held_len f1) VS16_SEQ @ concat ds @ rest)
      = replace_vs16 (take (vs16_held_len f) VS16_SEQ @ d @ concat ds @ rest)"
    using vs16_run_stream [OF Cons.prems(1) 1, of "concat ds @ rest"] by simp_all
  show ?case using Cons.IH [OF s(1) 2] Cons.prems(2) 1 2 s(2) by auto
qed simp

lemma replace_vs16_free: "replace_vs16 bs \<noteq> pre @ VS16_SEQ @ post"
proof (induction bs arbitrary: pre rule: replace_vs16.induct)
  case (1 bs)
  show ?case
  proof
    assume a: "replace_vs16 bs = pre @ VS16_SEQ @ post"
    then have ne: "bs \<noteq> []" by (auto simp: VS16_SEQ_def)
    show False
    proof (cases "take 3 bs = VS16_SEQ")
      case True
      then have "0 # replace_vs16 (drop 3 bs) = pre @ VS16_SEQ @ post" using a ne by (simp add: replace_vs16.simps [of bs])
      then show False using "1.IH"(1) [OF ne True] by (cases pre) (auto simp: VS16_SEQ_def)
    next
      case False
      then have r: "hd bs # replace_vs16 (tl bs) = pre @ VS16_SEQ @ post" using a ne by (simp add: replace_vs16.simps [of bs])
      show False
      proof (cases pre)
        case Nil
        then have h: "hd bs = 0xEF" "replace_vs16 (tl bs) = 0xB8 # 0x8F # post" using r by (simp_all add: VS16_SEQ_def)
        have f: "\<exists>xs. ys = b # xs \<and> replace_vs16 xs = zs" if "replace_vs16 ys = b # zs" "b \<noteq> 0" for ys b zs
          using that by (subst (asm) replace_vs16.simps) (cases ys; auto split: if_splits)
        obtain xs where xs: "tl bs = 0xB8 # xs" "replace_vs16 xs = 0x8F # post" using f [OF h(2)] by auto
        then obtain zs where "xs = 0x8F # zs" using f [OF xs(2)] by auto
        then show False using False h(1) xs(1) ne by (cases bs) (auto simp: VS16_SEQ_def)
      next
        case (Cons x pre')
        then show False using r "1.IH"(2) [OF ne False, of pre'] by simp
      qed
    qed
  qed
qed

section \<open>The screen state\<close>

lemma or_flags_outside: "\<forall>(on, m) \<in> set xs. m AND k = 0 \<Longrightarrow> or_flags xs AND k = 0"
  by (induction xs rule: or_flags.induct) (auto simp: bit.conj_disj_distrib2)

lemma cell_text_prefix:
  "\<exists>k. cell_text cs t = t @ concat (take k cs) \<and> (\<forall>c \<in> set (take k cs). \<not> has_control c)
     \<and> (length t \<le> MAX_CELL_TEXT \<longrightarrow> length (cell_text cs t) \<le> MAX_CELL_TEXT)"
proof (induction cs arbitrary: t)
  case (Cons c cs)
  show ?case
  proof (cases "has_control c \<or> length t + length c > MAX_CELL_TEXT")
    case True
    then show ?thesis by (intro exI [of _ 0]) simp
  next
    case False
    then obtain k where "cell_text cs (t @ c) = (t @ c) @ concat (take k cs)" "\<forall>c \<in> set (take k cs). \<not> has_control c"
        "length (cell_text cs (t @ c)) \<le> MAX_CELL_TEXT"
      using Cons.IH [of "t @ c"] by auto
    then show ?thesis using False by (intro exI [of _ "Suc k"]) simp
  qed
qed simp

lemma cell_text_ok: "utf8_bytes (cell_text (chars_lossy bs) []) \<and> \<not> has_control (cell_text (chars_lossy bs) [])
    \<and> length (cell_text (chars_lossy bs) []) \<le> MAX_CELL_TEXT"
proof -
  obtain k where k: "cell_text (chars_lossy bs) [] = concat (take k (chars_lossy bs))"
      "\<forall>c \<in> set (take k (chars_lossy bs)). \<not> has_control c" "length (cell_text (chars_lossy bs) []) \<le> MAX_CELL_TEXT"
    using cell_text_prefix [of "chars_lossy bs" "[]"] by auto
  have "\<forall>c \<in> set (take k (chars_lossy bs)). utf8_seq c" by (auto dest: in_set_takeD intro: chars_lossy_wf)
  then show ?thesis using k utf8_seqs_concat has_control_concat by metis
qed

lemma style_flags:
  fixes x :: vt_cell
  defines "f \<equiv> or_flags [(vc_bold x, BOLD), (vc_dim x, DIM), (vc_italic x, ITALIC), (vc_underline x, UNDERLINE), (vc_inverse x, INVERSE)]"
  shows "f AND NOT CELL_FLAGS_ALL = 0" "f AND WIDE = 0" "f AND WIDE_CONT = 0"
  unfolding f_def
  by (intro or_flags_outside; simp add: BOLD_def DIM_def ITALIC_def UNDERLINE_def INVERSE_def CELL_FLAGS_ALL_def WIDE_def WIDE_CONT_def)+

lemma wide_flags: "WIDE AND NOT CELL_FLAGS_ALL = 0" "WIDE_CONT AND NOT CELL_FLAGS_ALL = 0" "WIDE AND WIDE_CONT = 0" "WIDE_CONT AND WIDE = 0"
  by (simp_all add: CELL_FLAGS_ALL_def WIDE_def WIDE_CONT_def)

lemma convert_cell_ok: "cell_ok (convert_cell x)"
proof -
  note f = style_flags [of x]
  have "utf8_bytes []" by (simp add: utf8_bytes_def utf8_valid.simps)
  then show ?thesis using cell_text_ok [of "vc_contents x"] f wide_flags
    by (auto simp: convert_cell_def cell_ok_def cell_is_valid_def bit.conj_disj_distrib2 Let_def)
qed

lemma state_of_modes: "modes_is_valid (modes (state_of s))"
proof -
  have "or_flags [(vs_alternate s, ALT_SCREEN), (vs_hide_cursor s, CURSOR_HIDDEN), (vs_app_cursor s, APP_CURSOR),
      (vs_app_keypad s, APP_KEYPAD), (vs_bracketed_paste s, BRACKETED_PASTE)] AND NOT MODE_FLAGS_ALL = 0"
    by (intro or_flags_outside)
      (simp add: ALT_SCREEN_def CURSOR_HIDDEN_def APP_CURSOR_def APP_KEYPAD_def BRACKETED_PASTE_def MODE_FLAGS_ALL_def)
  then show ?thesis
    by (cases "vs_mouse_mode s"; cases "vs_mouse_encoding s") (simp_all add: state_of_def modes_is_valid_def)
qed

lemma state_of_ok:
  assumes "size_is_valid (vs_rows s) (vs_cols s)"
  shows "screen_ok (state_of s)"
proof -
  have cell: "cell_is_valid (convert_cell x)" for x using convert_cell_ok by (simp add: cell_ok_def)
  have "cursor_row (state_of s) < rows (state_of s)" "cursor_col (state_of s) < cols (state_of s)"
    using assms by (auto simp: state_of_def size_is_valid_def)
  moreover have "list_all (\<lambda>r. list_all cell_ok (cells r)) (grid (state_of s))"
    by (auto simp: state_of_def list_all_iff convert_cell_ok cell_default_ok split: option.splits)
  moreover have "list_all (\<lambda>r. length (cells r) = cols (state_of s) \<and> list_all cell_is_valid (cells r)) (grid (state_of s))"
    by (auto simp: state_of_def list_all_iff cell cell_default_ok split: option.splits)
  moreover have "length (grid (state_of s)) = rows (state_of s)" "rows (state_of s) = vs_rows s" "cols (state_of s) = vs_cols s"
    by (simp_all add: state_of_def)
  ultimately show ?thesis using assms state_of_modes [of s] by (simp add: screen_ok_def screen_is_valid_def)
qed

section \<open>The collector\<close>

lemma clean_chars_selects:
  "\<exists>ds. clean_chars limit cs out = out @ concat ds \<and> set ds \<subseteq> set cs \<and> (\<forall>d \<in> set ds. \<not> has_control d)
     \<and> (length out \<le> limit \<longrightarrow> length (clean_chars limit cs out) \<le> limit)"
proof (induction cs arbitrary: out)
  case (Cons c cs)
  show ?case
  proof (cases "has_control c \<or> length out + length c > limit")
    case True
    show ?thesis
    proof (cases "has_control c")
      case c: True
      then show ?thesis using Cons.IH [of out] by (auto intro: set_mp)
    next
      case False
      then show ?thesis using True by (intro exI [of _ "[]"]) simp
    qed
  next
    case False
    then obtain ds where "clean_chars limit cs (out @ c) = (out @ c) @ concat ds" "set ds \<subseteq> set cs" "\<forall>d \<in> set ds. \<not> has_control d"
        "length (clean_chars limit cs (out @ c)) \<le> limit"
      using Cons.IH [of "out @ c"] by auto
    then show ?thesis using False by (intro exI [of _ "c # ds"]) auto
  qed
qed simp

lemma clean_text_ok: "utf8_bytes (clean_text bs limit) \<and> plain_text (clean_text bs limit) limit"
proof -
  obtain ds where ds: "clean_text bs limit = concat ds" "set ds \<subseteq> set (chars_lossy bs)" "\<forall>d \<in> set ds. \<not> has_control d"
      "length (clean_text bs limit) \<le> limit"
    using clean_chars_selects [of limit "chars_lossy bs" "[]"] by (auto simp: clean_text_def)
  then have "\<forall>c \<in> set ds. utf8_seq c" using chars_lossy_wf by blast
  then show ?thesis using ds utf8_seqs_concat has_control_concat unfolding plain_text_def by metis
qed

definition collector_ok :: "collector \<Rightarrow> bool" where
  "collector_ok c \<longleftrightarrow> length (col_answers c) \<le> MAX_ANSWER_BYTES
     \<and> length (col_effects c) \<le> MAX_EFFECTS \<and> list_all effect_ok (col_effects c)
     \<and> col_history_bytes c = sum_list (map length (col_history c)) \<and> col_history_bytes c \<le> col_history_max_bytes c
     \<and> length (col_history c) \<le> col_history_max_rows c
     \<and> (\<not> col_history_full c \<longrightarrow> col_history_max_rows c = 0 \<or> length (col_history c) < col_history_max_rows c)"

lemma collector_new_ok: "collector_ok (collector_new r b)"
  by (auto simp: collector_ok_def collector_new_def)

lemma answer_ok: "collector_ok c \<Longrightarrow> collector_ok (answer bs c)"
  by (simp add: collector_ok_def answer_def)

lemma drop_effect_ok: "collector_ok c \<Longrightarrow> collector_ok (drop_effect c)"
  by (simp add: collector_ok_def drop_effect_def)

lemma push_effect_ok: "effect_utf8 e \<Longrightarrow> collector_ok c \<Longrightarrow> collector_ok (push_effect e c)"
  by (auto simp: push_effect_def drop_effect_ok) (simp_all add: collector_ok_def effect_ok_def)

lemma push_history_ok:
  "collector_ok c \<Longrightarrow> \<not> col_history_full c \<Longrightarrow> col_history_max_rows c \<noteq> 0 \<Longrightarrow> collector_ok (push_history l c)"
  by (auto simp: collector_ok_def push_history_def Let_def)

lemma on_scroll_ok: "collector_ok c \<Longrightarrow> collector_ok (on_scroll l alt c)"
  by (auto simp: on_scroll_def push_history_ok split: option.splits) (simp_all add: collector_ok_def)

lemma color_answer_ok: "collector_ok c \<Longrightarrow> collector_ok (color_answer ps col c)"
  by (auto simp: color_answer_def answer_ok split: option.splits)

lemma unhandled_osc_ok: "collector_ok c \<Longrightarrow> collector_ok (unhandled_osc params c)"
  by (auto simp: unhandled_osc_def hyperlink_def Let_def drop_effect_ok push_effect_ok color_answer_ok split: list.splits)

lemma unhandled_csi_ok: "collector_ok c \<Longrightarrow> collector_ok (unhandled_csi s i1 i2 params ch c)"
  by (simp add: unhandled_csi_def Let_def answer_ok split: option.split)

text \<open>The limits of the history never change.\<close>

definition history_limits :: "collector \<Rightarrow> nat \<times> nat" where
  "history_limits c = (col_history_max_rows c, col_history_max_bytes c)"

lemma history_limits_ops [simp]:
  "history_limits (answer bs c) = history_limits c"
  "history_limits (push_effect e c) = history_limits c"
  "history_limits (drop_effect c) = history_limits c"
  "history_limits (push_history l c) = history_limits c"
  by (simp_all add: history_limits_def answer_def push_effect_def drop_effect_def push_history_def Let_def)

lemma history_limits_collect [simp]: "history_limits (collect e c) = history_limits c"
proof (cases e)
  case (UnhandledOsc params)
  then show ?thesis by (simp add: unhandled_osc_def hyperlink_def color_answer_def Let_def split: list.split option.split)
next
  case (UnhandledCsi s i1 i2 params ch)
  then show ?thesis by (simp add: unhandled_csi_def Let_def split: option.split)
next
  case (OnScroll l alt)
  then show ?thesis by (simp add: on_scroll_def split: option.split) (simp add: history_limits_def)
qed (simp_all add: copy_to_clipboard_def)

lemma history_limits_fold: "history_limits (fold collect evs c) = history_limits c"
  by (induction evs arbitrary: c) simp_all

interpretation collecting: machine collect collector_ok
proof
  fix c x
  assume "collector_ok c"
  then show "collector_ok (collect x c)"
    using clean_text_ok
    by (cases x) (auto simp: copy_to_clipboard_def drop_effect_ok push_effect_ok unhandled_osc_ok unhandled_csi_ok on_scroll_ok)
qed

section \<open>Properties\<close>

text \<open>
  C22. The filter in front of the emulator does not depend on how the output is cut into feeds: the bytes
  it lets through, followed by the at most two it still holds, are the whole stream with every U+FE0F
  replaced by NUL in one pass, and what it lets through never contains U+FE0F.
\<close>

theorem vs16_filter_exact:
  "\<exists>outs f. vs16_feeds ds vs16_default = (outs, f) \<and> vs16_held_len f \<le> 2
     \<and> concat outs @ take (vs16_held_len f) (vs16_held f) = replace_vs16 (concat ds)
     \<and> (\<nexists>pre post. concat outs = pre @ VS16_SEQ @ post)"
proof -
  obtain outs f where f: "vs16_feeds ds vs16_default = (outs, f)" by fastforce
  have "vs16_wf vs16_default" by (simp add: vs16_wf_def vs16_default_def holds_prefix_def)
  note run = vs16_feeds_stream [OF this f, of "[]"]
  then have w: "holds_prefix (vs16_held_len f) (vs16_held f)" by (simp add: vs16_wf_def)
  have "replace_vs16 (take (vs16_held_len f) VS16_SEQ) = take (vs16_held_len f) (vs16_held f)"
    using w by (auto simp: holds_prefix_def VS16_SEQ_def replace_vs16_short)
  then have r: "concat outs @ take (vs16_held_len f) (vs16_held f) = replace_vs16 (concat ds)"
    using run by (simp add: vs16_default_def)
  have "concat outs \<noteq> pre @ VS16_SEQ @ post" for pre post
    using r replace_vs16_free [of "concat ds" pre "post @ take (vs16_held_len f) (vs16_held f)"] by auto
  moreover have "vs16_held_len f \<le> 2" using w by (auto simp: holds_prefix_def)
  ultimately show ?thesis using f r by blast
qed

text \<open>
  C23. The collector is bounded whatever the terminal program writes: after any sequence of callbacks the
  answers hold at most 4096 bytes, the effects are at most 64 and each is a valid one the wire format
  accepts, and the history stays within its row and byte limits.
\<close>

theorem collector_bounded:
  "let c = fold collect evs (collector_new r b)
   in length (col_answers c) \<le> MAX_ANSWER_BYTES \<and> length (col_effects c) \<le> MAX_EFFECTS
      \<and> list_all (\<lambda>e. get_effect (put_effect e @ rest) = Inr (e, rest)) (col_effects c)
      \<and> length (col_history c) \<le> r \<and> sum_list (map length (col_history c)) \<le> b"
proof -
  have "collector_ok (fold collect evs (collector_new r b))" by (rule collecting.run_inv [OF collector_new_ok])
  moreover have "history_limits (fold collect evs (collector_new r b)) = (r, b)"
    by (simp add: history_limits_fold) (simp add: history_limits_def collector_new_def)
  ultimately show ?thesis
    by (auto simp: Let_def collector_ok_def history_limits_def list_all_iff effect_field.exact)
qed

end
