(* ===== verification/Screen_Parts.thy ===== *)
theory Screen_Parts
  imports Screen_Codec
begin

text \<open>
  Splitting an encoded update into parts and putting the parts together
  (\<open>qsh-proto/src/screen/parts.rs\<close>, \<open>qsh-proto/src/wire.rs\<close>): the strict reassembler of the ordered
  stream and the tolerant one of the datagram carrier. A push returns its result, \<open>Inl\<close> the refusal,
  and the reassembler after it.
\<close>

section \<open>Parts\<close>

definition PART_MAX :: nat where
  "PART_MAX = 16 * 1024"

definition MAX_PARTS :: nat where
  "MAX_PARTS = MAX_UPDATE_BYTES div PART_MAX"

datatype part_error = Numbering | TooLarge | OutOfOrder

record screen_part =
  part_num :: nat
  part_idx :: nat
  part_total :: nat
  part_data :: bytes

text \<open>\<open>slice::chunks\<close>, for a positive chunk size.\<close>

function chunks :: "nat \<Rightarrow> 'a list \<Rightarrow> 'a list list" where
  "chunks n xs = (if xs = [] \<or> n = 0 then [] else take n xs # chunks n (drop n xs))"
  by pat_completeness auto
termination by (relation "measure (\<lambda>(n, xs). length xs)") auto

declare chunks.simps [simp del]

definition split_parts :: "bytes \<Rightarrow> bytes list" where
  "split_parts encoded = (if encoded = [] then [encoded] else chunks PART_MAX encoded)"

definition split_sized :: "bytes \<Rightarrow> nat \<Rightarrow> bytes list" where
  "split_sized encoded max_part = (if encoded = [] then [encoded] else chunks (max max_part 1) encoded)"

definition number_parts :: "nat \<Rightarrow> bytes list \<Rightarrow> screen_part list" where
  "number_parts n slices =
     map (\<lambda>(i, data). \<lparr>part_num = n, part_idx = i mod 2 ^ 32, part_total = length slices mod 2 ^ 32, part_data = data\<rparr>)
       (enumerate 0 slices)"

definition parts_sized :: "nat \<Rightarrow> bytes \<Rightarrow> nat \<Rightarrow> screen_part list" where
  "parts_sized n encoded max_part = number_parts n (split_sized encoded max_part)"

definition parts_of :: "nat \<Rightarrow> bytes \<Rightarrow> screen_part list" where
  "parts_of n encoded = number_parts n (split_parts encoded)"

section \<open>The stream reassembler\<close>

record reassembler =
  re_num :: nat
  re_parts :: nat
  re_next :: nat
  re_buf :: bytes

definition re_new :: reassembler where
  "re_new = \<lparr>re_num = 0, re_parts = 0, re_next = 0, re_buf = []\<rparr>"

definition re_buffered :: "reassembler \<Rightarrow> nat" where
  "re_buffered r = length (re_buf r)"

definition re_reset :: "reassembler \<Rightarrow> reassembler" where
  "re_reset r = r\<lparr>re_num := 0, re_parts := 0, re_next := 0, re_buf := []\<rparr>"

definition re_push_inner :: "screen_part \<Rightarrow> reassembler \<Rightarrow> (part_error + bytes option) \<times> reassembler" where
  "re_push_inner p r =
     (if part_total p = 0 \<or> part_total p > MAX_PARTS \<or> part_idx p \<ge> part_total p then (Inl Numbering, r)
      else if length (part_data p) > PART_MAX then (Inl TooLarge, r)
      else if part_idx p \<noteq> 0 \<and> (re_parts r = 0 \<or> part_num p \<noteq> re_num r \<or> part_total p \<noteq> re_parts r \<or> part_idx p \<noteq> re_next r)
      then (Inl OutOfOrder, r)
      else let r = (if part_idx p = 0 then (re_reset r)\<lparr>re_num := part_num p, re_parts := part_total p\<rparr> else r)
           in if length (re_buf r) + length (part_data p) > MAX_UPDATE_BYTES then (Inl TooLarge, r)
              else let r = r\<lparr>re_buf := re_buf r @ part_data p, re_next := part_idx p + 1\<rparr>
                   in if re_next r = re_parts r then (Inr (Some (re_buf r)), re_reset r) else (Inr None, r))"

definition re_push :: "screen_part \<Rightarrow> reassembler \<Rightarrow> (part_error + bytes option) \<times> reassembler" where
  "re_push p r =
     (case re_push_inner p r of
        (Inl e, r) \<Rightarrow> (Inl e, re_reset r)
      | res \<Rightarrow> res)"

section \<open>The datagram reassembler\<close>

definition MAX_DATAGRAM_PARTS :: nat where
  "MAX_DATAGRAM_PARTS = 64"

record datagram_reassembler =
  dr_num :: nat
  dr_done :: nat
  dr_parts :: nat
  dr_got :: nat
  dr_slots :: "bytes option list"
  dr_bytes :: nat

definition dr_new :: datagram_reassembler where
  "dr_new = \<lparr>dr_num = 0, dr_done = 0, dr_parts = 0, dr_got = 0, dr_slots = [], dr_bytes = 0\<rparr>"

definition dr_buffered :: "datagram_reassembler \<Rightarrow> nat" where
  "dr_buffered r = dr_bytes r"

definition dr_reset :: "datagram_reassembler \<Rightarrow> datagram_reassembler" where
  "dr_reset r = r\<lparr>dr_parts := 0, dr_got := 0, dr_slots := [], dr_bytes := 0\<rparr>"

text \<open>The rest of a push once the reassembler builds the part's update; \<open>None\<close> is an index outside the slots.\<close>

definition dr_store :: "screen_part \<Rightarrow> datagram_reassembler \<Rightarrow> ((part_error + bytes option) \<times> datagram_reassembler) option" where
  "dr_store p r =
     (if part_idx p \<ge> length (dr_slots r) then None
      else if dr_slots r ! part_idx p \<noteq> None then Some (Inr None, r)
      else if dr_bytes r + length (part_data p) > MAX_UPDATE_BYTES then Some (Inl TooLarge, dr_reset r)
      else let r = r\<lparr>dr_bytes := dr_bytes r + length (part_data p),
                     dr_slots := (dr_slots r)[part_idx p := Some (part_data p)], dr_got := dr_got r + 1\<rparr>
           in if dr_got r = dr_parts r
              then Some (Inr (Some (concat (List.map_filter id (dr_slots r)))), (dr_reset r)\<lparr>dr_done := part_num p\<rparr>)
              else Some (Inr None, r))"

definition dr_push :: "screen_part \<Rightarrow> datagram_reassembler \<Rightarrow> ((part_error + bytes option) \<times> datagram_reassembler) option" where
  "dr_push p r =
     (if part_total p = 0 \<or> part_total p > MAX_DATAGRAM_PARTS \<or> part_idx p \<ge> part_total p then Some (Inl Numbering, r)
      else if length (part_data p) > PART_MAX then Some (Inl TooLarge, r)
      else if part_num p < dr_done r \<or> (dr_parts r \<noteq> 0 \<and> part_num p < dr_num r) then Some (Inr None, r)
      else if dr_parts r = 0 \<or> part_num p > dr_num r
      then dr_store p ((dr_reset r)\<lparr>dr_num := part_num p, dr_parts := part_total p, dr_slots := replicate (part_total p) None\<rparr>)
      else if part_total p \<noteq> dr_parts r then Some (Inl OutOfOrder, dr_reset r)
      else dr_store p r)"

end
