(* ===== verification/Parts_Guarantees.thy ===== *)
theory Parts_Guarantees
  imports Screen_Parts
begin

text \<open>
  What the reassemblers guarantee: the parts of an update, in order, give back its encoding from any
  state of the stream reassembler, which yields nothing but complete runs of parts; the datagram
  reassembler yields the encoding under every order, repetition and loss of parts, as long as a state
  number stands for one encoding.
\<close>

section \<open>Chunks\<close>

lemma concat_chunks: "0 < n \<Longrightarrow> concat (chunks n xs) = xs"
proof (induction n xs rule: chunks.induct)
  case (1 n xs)
  then show ?case by (subst chunks.simps) simp
qed

lemma chunks_length: "c \<in> set (chunks n xs) \<Longrightarrow> length c \<le> n"
proof (induction n xs rule: chunks.induct)
  case (1 n xs)
  show ?case using 1 by (cases "xs = [] \<or> n = 0") (auto simp: chunks.simps [of n xs])
qed

lemma chunks_count: "0 < n \<Longrightarrow> length (chunks n xs) * n < length xs + n"
proof (induction n xs rule: chunks.induct)
  case (1 n xs)
  show ?case
  proof (cases "xs = []")
    case False
    then have e: "chunks n xs = take n xs # chunks n (drop n xs)" using 1 by (simp add: chunks.simps [of n xs])
    show ?thesis
    proof (cases "length xs \<le> n")
      case True
      then show ?thesis using 1 False e by (simp add: chunks.simps [of n "[]"])
    next
      case b: False
      then show ?thesis using 1 False e by simp
    qed
  qed (use 1 in \<open>simp add: chunks.simps [of n "[]"]\<close>)
qed

lemma chunks_Nil: "0 < n \<Longrightarrow> chunks n xs = [] \<longleftrightarrow> xs = []"
  by (subst chunks.simps) simp

lemma PART_MAX_pos: "0 < PART_MAX"
  by (simp add: PART_MAX_def)

lemma concat_split_parts: "concat (split_parts enc) = enc"
  by (simp add: split_parts_def concat_chunks PART_MAX_pos)

lemma concat_split_sized: "concat (split_sized enc m) = enc"
  by (simp add: split_sized_def concat_chunks)

lemma split_sized_nonempty: "split_sized enc m \<noteq> []"
  by (simp add: split_sized_def chunks_Nil)

lemma split_parts_fit:
  assumes "length enc \<le> MAX_UPDATE_BYTES"
  shows "0 < length (split_parts enc)" "length (split_parts enc) \<le> MAX_PARTS"
    "d \<in> set (split_parts enc) \<Longrightarrow> length d \<le> PART_MAX"
proof -
  show "0 < length (split_parts enc)" by (simp add: split_parts_def chunks_Nil PART_MAX_pos)
  have "length (chunks PART_MAX enc) * PART_MAX < MAX_UPDATE_BYTES + PART_MAX"
    using chunks_count [OF PART_MAX_pos, of enc] assms by linarith
  then show "length (split_parts enc) \<le> MAX_PARTS"
    by (simp add: split_parts_def MAX_PARTS_def MAX_UPDATE_BYTES_def PART_MAX_def)
  show "d \<in> set (split_parts enc) \<Longrightarrow> length d \<le> PART_MAX"
    by (auto simp: split_parts_def chunks_length split: if_splits)
qed

text \<open>The parts with the truncations to 32 bits gone: no update has 2^32 of them.\<close>

definition part_run :: "nat \<Rightarrow> nat \<Rightarrow> bytes list \<Rightarrow> screen_part list" where
  "part_run n k ds = map (\<lambda>(i, d). \<lparr>part_num = n, part_idx = i, part_total = k, part_data = d\<rparr>) (enumerate 0 ds)"

lemma part_run_simps [simp]:
  "length (part_run n k ds) = length ds"
  "i < length ds \<Longrightarrow> part_run n k ds ! i = \<lparr>part_num = n, part_idx = i, part_total = k, part_data = ds ! i\<rparr>"
  by (simp_all add: part_run_def nth_enumerate_eq)

lemma part_run_snoc: "part_run n k (ds @ [d]) = part_run n k ds @ [\<lparr>part_num = n, part_idx = length ds, part_total = k, part_data = d\<rparr>]"
  by (rule nth_equalityI) (auto simp: nth_append less_Suc_eq)

lemma number_parts_numbered:
  assumes "length ds < 2 ^ 32"
  shows "number_parts n ds = part_run n (length ds) ds"
  using assms by (auto intro!: nth_equalityI simp: number_parts_def nth_enumerate_eq)

lemma parts_of_numbered:
  assumes "length enc \<le> MAX_UPDATE_BYTES"
  shows "parts_of n enc = part_run n (length (split_parts enc)) (split_parts enc)"
  using split_parts_fit(2) [OF assms]
  by (simp add: parts_of_def number_parts_numbered MAX_PARTS_def MAX_UPDATE_BYTES_def PART_MAX_def)

section \<open>The stream reassembler\<close>

fun re_run :: "screen_part list \<Rightarrow> reassembler \<Rightarrow> (part_error + bytes option) list \<times> reassembler" where
  "re_run [] r = ([], r)"
| "re_run (p # ps) r = (let (a, r') = re_push p r; (b, r'') = re_run ps r' in (a # b, r''))"

lemma re_reset_new [simp]: "re_reset r = re_new"
  by (simp add: re_reset_def re_new_def)

lemma re_push_next:
  assumes "i < k" "k \<le> MAX_PARTS" "length d \<le> PART_MAX" "length buf + length d \<le> MAX_UPDATE_BYTES" "i = 0 \<Longrightarrow> buf = []"
    and "i \<noteq> 0 \<Longrightarrow> r = \<lparr>re_num = n, re_parts = k, re_next = i, re_buf = buf\<rparr>"
  shows "re_push \<lparr>part_num = n, part_idx = i, part_total = k, part_data = d\<rparr> r =
    (if i + 1 = k then (Inr (Some (buf @ d)), re_new)
     else (Inr None, \<lparr>re_num = n, re_parts = k, re_next = i + 1, re_buf = buf @ d\<rparr>))"
  using assms by (cases "i = 0") (auto simp: re_push_def re_push_inner_def Let_def re_new_def)

lemma re_run_rest:
  assumes "length ds \<le> MAX_PARTS" "\<And>d. d \<in> set ds \<Longrightarrow> length d \<le> PART_MAX" "length (concat ds) \<le> MAX_UPDATE_BYTES"
    and "j < length ds" "i = length ds - 1 - j"
    and "i \<noteq> 0 \<Longrightarrow> r = \<lparr>re_num = n, re_parts = length ds, re_next = i, re_buf = concat (take i ds)\<rparr>"
  shows "re_run (drop i (part_run n (length ds) ds)) r = (replicate j (Inr None) @ [Inr (Some (concat ds))], re_new)"
  using assms(4-6)
proof (induction j arbitrary: i r)
  case 0
  have i: "i < length ds" "i + 1 = length ds" using 0 by simp_all
  have c: "concat (take i ds) @ ds ! i = concat ds"
    using take_Suc_conv_app_nth [OF i(1)] i(2) by (metis Suc_eq_plus1 concat.simps(1,2) concat_append append_Nil2 take_all_iff order_refl)
  have "length (concat (take i ds)) + length (ds ! i) \<le> MAX_UPDATE_BYTES" using assms(3) c by (metis length_append)
  then have "re_push \<lparr>part_num = n, part_idx = i, part_total = length ds, part_data = ds ! i\<rparr> r = (Inr (Some (concat ds)), re_new)"
    using re_push_next [of i "length ds" "ds ! i" "concat (take i ds)" r n] assms(1,2) i c 0 by simp
  moreover have "drop i (part_run n (length ds) ds) = [\<lparr>part_num = n, part_idx = i, part_total = length ds, part_data = ds ! i\<rparr>]"
    using i by (simp add: Cons_nth_drop_Suc [symmetric])
  ultimately show ?case by simp
next
  case (Suc j)
  have i: "i < length ds" "i + 1 \<noteq> length ds" "i + 1 = length ds - 1 - j" using Suc.prems by simp_all
  have c: "concat (take (i + 1) ds) = concat (take i ds) @ ds ! i" using i(1) by (simp add: take_Suc_conv_app_nth)
  have "concat ds = concat (take (i + 1) ds) @ concat (drop (i + 1) ds)" by (metis append_take_drop_id concat_append)
  then have "length (concat (take i ds)) + length (ds ! i) \<le> MAX_UPDATE_BYTES" using assms(3) c by simp
  then have p: "re_push \<lparr>part_num = n, part_idx = i, part_total = length ds, part_data = ds ! i\<rparr> r =
      (Inr None, \<lparr>re_num = n, re_parts = length ds, re_next = i + 1, re_buf = concat (take (i + 1) ds)\<rparr>)"
    using re_push_next [of i "length ds" "ds ! i" "concat (take i ds)" r n] assms(1,2) i c Suc.prems by simp
  show ?case using Suc.IH [OF _ i(3)] Suc.prems p i(1) by (simp add: Cons_nth_drop_Suc [symmetric])
qed

lemma re_run_parts_of:
  assumes "length enc \<le> MAX_UPDATE_BYTES"
  shows "re_run (parts_of n enc) r = (replicate (length (split_parts enc) - 1) (Inr None) @ [Inr (Some enc)], re_new)"
  using re_run_rest [of "split_parts enc" "length (split_parts enc) - 1" 0 r n] split_parts_fit [OF assms] assms
  by (simp add: parts_of_numbered concat_split_parts)

text \<open>A half-built update is the run of parts just pushed.\<close>

definition re_inv :: "screen_part list \<Rightarrow> reassembler \<Rightarrow> bool" where
  "re_inv ps r \<longleftrightarrow> r = re_new \<or>
     (\<exists>pre ds. ps = pre @ part_run (re_num r) (re_parts r) ds \<and> re_buf r = concat ds \<and> re_next r = length ds
        \<and> 0 < length ds \<and> length ds < re_parts r \<and> length (re_buf r) \<le> MAX_UPDATE_BYTES)"

definition complete_run :: "screen_part list \<Rightarrow> bytes \<Rightarrow> bool" where
  "complete_run ps b \<longleftrightarrow> (\<exists>pre n ds. ps = pre @ part_run n (length ds) ds \<and> b = concat ds \<and> ds \<noteq> []) \<and> length b \<le> MAX_UPDATE_BYTES"

definition re_takes :: "screen_part \<Rightarrow> reassembler \<Rightarrow> bytes \<Rightarrow> bool" where
  "re_takes p r buf \<longleftrightarrow> part_idx p < part_total p \<and> part_total p \<le> MAX_PARTS \<and> length (part_data p) \<le> PART_MAX
     \<and> length buf + length (part_data p) \<le> MAX_UPDATE_BYTES \<and> (part_idx p = 0 \<longrightarrow> buf = [])
     \<and> (part_idx p \<noteq> 0 \<longrightarrow> r = \<lparr>re_num = part_num p, re_parts = part_total p, re_next = part_idx p, re_buf = buf\<rparr>)"

lemma re_push_refuses:
  assumes "\<not> re_takes p r (if part_idx p = 0 then [] else re_buf r)"
  shows "\<exists>e. re_push p r = (Inl e, re_new)"
proof (cases "part_idx p = 0")
  case True
  then show ?thesis using assms by (auto simp: re_takes_def re_push_def re_push_inner_def re_new_def not_le)
next
  case False
  then show ?thesis using assms by (cases r) (auto simp: re_takes_def re_push_def re_push_inner_def not_le not_less)
qed

lemma re_push_sound:
  assumes "re_inv ps r" "re_push p r = (res, r')"
  shows "re_inv (ps @ [p]) r'" "res = Inr (Some b) \<Longrightarrow> complete_run (ps @ [p]) b"
proof -
  consider (err) e where "re_push p r = (Inl e, re_new)" | (ok) buf where "re_takes p r buf" using re_push_refuses by blast
  then have "re_inv (ps @ [p]) r' \<and> (res = Inr (Some b) \<longrightarrow> complete_run (ps @ [p]) b)"
  proof cases
    case err
    then show ?thesis using assms(2) by (simp add: re_inv_def)
  next
    case (ok buf)
    note ok = ok [unfolded re_takes_def]
    have p: "\<lparr>part_num = part_num p, part_idx = part_idx p, part_total = part_total p, part_data = part_data p\<rparr> = p" by simp
    have push: "re_push p r =
      (if part_idx p + 1 = part_total p then (Inr (Some (buf @ part_data p)), re_new)
       else (Inr None, \<lparr>re_num = part_num p, re_parts = part_total p, re_next = part_idx p + 1, re_buf = buf @ part_data p\<rparr>))"
      by (rule re_push_next [of "part_idx p" "part_total p" "part_data p" buf r "part_num p", unfolded p]) (use ok in auto)
    obtain pre ds where ds: "ps = pre @ part_run (part_num p) (part_total p) ds" "buf = concat ds" "part_idx p = length ds"
    proof (cases "part_idx p = 0")
      case True
      then show ?thesis using that [of ps "[]"] ok by (simp add: part_run_def)
    next
      case False
      then have r: "r = \<lparr>re_num = part_num p, re_parts = part_total p, re_next = part_idx p, re_buf = buf\<rparr>" using ok by simp
      then have "r \<noteq> re_new" using False by (auto simp: re_new_def)
      then show ?thesis using that assms(1) by (auto simp: re_inv_def r)
    qed
    have run: "ps @ [p] = pre @ part_run (part_num p) (part_total p) (ds @ [part_data p])"
      using p by (simp add: ds(1) part_run_snoc ds(3) [symmetric])
    show ?thesis
    proof (cases "part_idx p + 1 = part_total p")
      case True
      then have "ps @ [p] = pre @ part_run (part_num p) (length (ds @ [part_data p])) (ds @ [part_data p])" using run ds(3) by simp
      moreover have "buf @ part_data p = concat (ds @ [part_data p])" using ds(2) by simp
      ultimately have "complete_run (ps @ [p]) (buf @ part_data p)" unfolding complete_run_def
        by (intro conjI exI [of _ pre] exI [of _ "part_num p"] exI [of _ "ds @ [part_data p]"]) (use ok in simp_all)
      then show ?thesis using push assms(2) True by (auto simp: re_inv_def)
    next
      case False
      then have r': "r' = \<lparr>re_num = part_num p, re_parts = part_total p, re_next = part_idx p + 1, re_buf = buf @ part_data p\<rparr>"
        "res = Inr None" using push assms(2) by auto
      then show ?thesis unfolding re_inv_def
        by (intro conjI disjI2 exI [of _ pre] exI [of _ "ds @ [part_data p]"]) (use run ds ok False in auto)
    qed
  qed
  then show "re_inv (ps @ [p]) r'" "res = Inr (Some b) \<Longrightarrow> complete_run (ps @ [p]) b" by simp_all
qed

lemma re_run_append: "re_run (ps @ qs) r = (let (a, r') = re_run ps r; (b, r'') = re_run qs r' in (a @ b, r''))"
  by (induction ps arbitrary: r) (auto simp: Let_def split: prod.splits)

lemma re_run_sound:
  assumes "re_run ps re_new = (outs, r)"
  shows "re_inv ps r \<and> length outs = length ps \<and> (\<forall>i < length ps. \<forall>b. outs ! i = Inr (Some b) \<longrightarrow> complete_run (take (i + 1) ps) b)"
  using assms
proof (induction ps arbitrary: outs r rule: rev_induct)
  case Nil
  then show ?case by (simp add: re_inv_def)
next
  case (snoc p ps)
  obtain os r1 where 1: "re_run ps re_new = (os, r1)" by fastforce
  obtain res r2 where 2: "re_push p r1 = (res, r2)" by fastforce
  have e: "outs = os @ [res]" "r = r2" using snoc.prems 1 2 by (simp_all add: re_run_append)
  show ?case using snoc.IH [OF 1] re_push_sound [OF _ 2, of ps] by (auto simp: e nth_append less_Suc_eq)
qed

section \<open>The datagram reassembler\<close>

fun dr_run :: "screen_part list \<Rightarrow> datagram_reassembler \<Rightarrow> ((part_error + bytes option) list \<times> datagram_reassembler) option" where
  "dr_run [] r = Some ([], r)"
| "dr_run (p # ps) r =
     (case dr_push p r of
        None \<Rightarrow> None
      | Some (a, r') \<Rightarrow> (case dr_run ps r' of None \<Rightarrow> None | Some (b, r'') \<Rightarrow> Some (a # b, r'')))"

definition slots_of :: "bytes option list \<Rightarrow> bytes list \<Rightarrow> bool" where
  "slots_of slots ds = list_all2 (\<lambda>o' d. o' = None \<or> o' = Some d) slots ds"

lemma slots_filter:
  assumes "slots_of slots ds"
  shows "length (List.map_filter id slots) \<le> length ds \<and> length (concat (List.map_filter id slots)) \<le> length (concat ds)
    \<and> (length (List.map_filter id slots) = length ds \<longrightarrow> List.map_filter id slots = ds)
    \<and> (None \<in> set slots \<longrightarrow> length (List.map_filter id slots) < length ds)"
  using assms unfolding slots_of_def by (induction rule: list_all2_induct) (auto simp: List.map_filter_simps)

lemma slots_update:
  assumes "i < length slots" "slots ! i = None"
  shows "length (List.map_filter id (slots[i := Some d])) = Suc (length (List.map_filter id slots))
    \<and> length (concat (List.map_filter id (slots[i := Some d]))) = length (concat (List.map_filter id slots)) + length d"
  using assms
proof (induction slots arbitrary: i)
  case (Cons x slots)
  then show ?case by (cases i) (auto simp: List.map_filter_simps neq_commute [of None] split: option.splits)
qed simp

lemma slots_of_update: "slots_of slots ds \<Longrightarrow> i < length ds \<Longrightarrow> slots_of (slots[i := Some (ds ! i)]) ds"
  by (auto simp: slots_of_def list_all2_conv_all_nth nth_list_update)

text \<open>Every state number stands for one list of slices that fits the carrier, and a part is one of them.\<close>

definition sendable :: "bytes list \<Rightarrow> bool" where
  "sendable ds \<longleftrightarrow> ds \<noteq> [] \<and> length ds \<le> MAX_DATAGRAM_PARTS \<and> (\<forall>d \<in> set ds. length d \<le> PART_MAX)
     \<and> length (concat ds) \<le> MAX_UPDATE_BYTES"

definition genuine_part :: "(nat \<Rightarrow> bytes list) \<Rightarrow> screen_part \<Rightarrow> bool" where
  "genuine_part S p \<longleftrightarrow> sendable (S (part_num p)) \<and> part_idx p < length (S (part_num p))
     \<and> part_total p = length (S (part_num p)) \<and> part_data p = S (part_num p) ! part_idx p"

definition building :: "(nat \<Rightarrow> bytes list) \<Rightarrow> datagram_reassembler \<Rightarrow> bool" where
  "building S r \<longleftrightarrow> sendable (S (dr_num r)) \<and> dr_parts r = length (S (dr_num r)) \<and> slots_of (dr_slots r) (S (dr_num r))
     \<and> dr_got r = length (List.map_filter id (dr_slots r)) \<and> dr_bytes r = length (concat (List.map_filter id (dr_slots r)))
     \<and> dr_got r < dr_parts r"

lemma building_slots: "building S r \<Longrightarrow> length (dr_slots r) = length (S (dr_num r))"
  by (auto simp: building_def slots_of_def dest: list_all2_lengthD)

definition stored :: "(nat \<Rightarrow> bytes list) \<Rightarrow> screen_part \<Rightarrow> datagram_reassembler
    \<Rightarrow> ((part_error + bytes option) \<times> datagram_reassembler) option \<Rightarrow> bool" where
  "stored S p r res \<longleftrightarrow>
     (\<exists>r'. res = Some (Inr None, r') \<and> building S r' \<and> dr_num r' = part_num p \<and> dr_done r' = dr_done r
        \<and> dr_slots r' ! part_idx p \<noteq> None \<and> (\<forall>i. dr_slots r ! i \<noteq> None \<longrightarrow> dr_slots r' ! i \<noteq> None))
     \<or> (\<exists>r'. res = Some (Inr (Some (concat (S (part_num p)))), r') \<and> dr_parts r' = 0 \<and> dr_bytes r' = 0 \<and> dr_done r' = part_num p)"

lemma dr_store_building:
  assumes "building S r" "genuine_part S p" "dr_num r = part_num p"
  shows "stored S p r (dr_store p r)"
proof (cases "dr_slots r ! part_idx p = None")
  case False
  then show ?thesis using assms building_slots [OF assms(1)]
    by (auto simp: stored_def dr_store_def genuine_part_def)
next
  case True
  let ?ds = "S (part_num p)" and ?i = "part_idx p" and ?slots = "(dr_slots r)[part_idx p := Some (part_data p)]"
  have i: "?i < length ?ds" "?i < length (dr_slots r)" "part_data p = ?ds ! ?i"
    using assms building_slots [OF assms(1)] by (simp_all add: genuine_part_def)
  have new: "slots_of ?slots ?ds" using slots_of_update [of "dr_slots r" ?ds ?i] assms i by (simp add: building_def)
  note upd = slots_update [OF i(2) True, of "part_data p"]
  have fits: "dr_bytes r + length (part_data p) \<le> MAX_UPDATE_BYTES"
    using slots_filter [OF new] upd assms by (auto simp: building_def genuine_part_def sendable_def)
  let ?r = "r\<lparr>dr_bytes := dr_bytes r + length (part_data p), dr_slots := ?slots, dr_got := dr_got r + 1\<rparr>"
  show ?thesis
  proof (cases "dr_got r + 1 = dr_parts r")
    case full: True
    then have "List.map_filter id ?slots = ?ds" using slots_filter [OF new] upd assms by (simp add: building_def)
    then show ?thesis using True i fits full by (simp add: stored_def dr_store_def Let_def dr_reset_def)
  next
    case more: False
    have "building S ?r" using new upd assms more by (auto simp: building_def)
    moreover have "?slots ! ?i \<noteq> None" "\<forall>j. dr_slots r ! j \<noteq> None \<longrightarrow> ?slots ! j \<noteq> None"
      using i(2) by (auto simp: nth_list_update)
    moreover have "dr_store p r = Some (Inr None, ?r)" using True i fits more by (simp add: dr_store_def Let_def)
    ultimately show ?thesis using assms(3) unfolding stored_def by auto
  qed
qed

definition dr_inv :: "(nat \<Rightarrow> bytes list) \<Rightarrow> datagram_reassembler \<Rightarrow> bool" where
  "dr_inv S r \<longleftrightarrow> dr_parts r = 0 \<and> dr_bytes r = 0 \<or> building S r"

lemma building_started:
  assumes "genuine_part S p"
  shows "building S ((dr_reset r)\<lparr>dr_num := part_num p, dr_parts := part_total p, dr_slots := replicate (part_total p) None\<rparr>)"
proof -
  have "List.map_filter id (replicate n None :: bytes option list) = []" for n
    by (induction n) (simp_all add: List.map_filter_simps)
  moreover have "0 < part_total p" "part_total p = length (S (part_num p))" "sendable (S (part_num p))" using assms by (auto simp: genuine_part_def sendable_def)
  ultimately show ?thesis by (simp add: building_def dr_reset_def slots_of_def list_all2_conv_all_nth)
qed

definition dropped :: "screen_part \<Rightarrow> datagram_reassembler \<Rightarrow> bool" where
  "dropped p r \<longleftrightarrow> part_num p < dr_done r \<or> (dr_parts r \<noteq> 0 \<and> part_num p < dr_num r)"

lemma dr_push_cases:
  assumes "dr_inv S r" "genuine_part S p"
  shows "if dropped p r then dr_push p r = Some (Inr None, r)
    else if dr_parts r \<noteq> 0 \<and> part_num p = dr_num r then stored S p r (dr_push p r)
    else \<exists>r0. dr_done r0 = dr_done r \<and> stored S p r0 (dr_push p r)"
proof -
  have ok: "part_total p \<noteq> 0" "part_total p \<le> MAX_DATAGRAM_PARTS" "part_idx p < part_total p" "length (part_data p) \<le> PART_MAX"
    using assms(2) by (auto simp: genuine_part_def sendable_def)
  let ?r = "(dr_reset r)\<lparr>dr_num := part_num p, dr_parts := part_total p, dr_slots := replicate (part_total p) None\<rparr>"
  consider "dropped p r" | "\<not> dropped p r" "dr_parts r \<noteq> 0" "part_num p = dr_num r"
    | "\<not> dropped p r" "dr_parts r = 0 \<or> part_num p > dr_num r" unfolding dropped_def by (metis linorder_neqE_nat)
  then show ?thesis
  proof cases
    case 1
    then show ?thesis using ok by (simp add: dr_push_def dropped_def)
  next
    case 2
    then have b: "building S r" using assms(1) by (auto simp: dr_inv_def)
    then have "dr_push p r = dr_store p r"
      using 2 ok assms(2) by (auto simp: dr_push_def dropped_def building_def genuine_part_def)
    then show ?thesis using dr_store_building [OF b assms(2)] 2 by simp
  next
    case 3
    then have "dr_push p r = dr_store p ?r" using ok by (auto simp: dr_push_def dropped_def)
    moreover have "stored S p ?r (dr_store p ?r)" by (rule dr_store_building [OF building_started [OF assms(2)] assms(2)]) simp
    moreover have "dr_done ?r = dr_done r" by (simp add: dr_reset_def)
    ultimately have "\<exists>r0. dr_done r0 = dr_done r \<and> stored S p r0 (dr_push p r)" by metis
    then show ?thesis using 3 by auto
  qed
qed

text \<open>Until the newest state completes, its parts that arrived are in their slots.\<close>

definition gathered :: "(nat \<Rightarrow> bytes list) \<Rightarrow> nat \<Rightarrow> nat set \<Rightarrow> datagram_reassembler \<Rightarrow> bool" where
  "gathered S n D r \<longleftrightarrow> dr_inv S r \<and> dr_done r \<le> n \<and> (dr_parts r \<noteq> 0 \<longrightarrow> dr_num r \<le> n)
     \<and> (D \<noteq> {} \<longrightarrow> dr_parts r \<noteq> 0 \<and> dr_num r = n \<and> (\<forall>i \<in> D. dr_slots r ! i \<noteq> None))"

lemma dr_push_gathered:
  assumes "gathered S n D r" "genuine_part S p" "part_num p \<le> n"
  shows "\<exists>res r'. dr_push p r = Some (Inr res, r') \<and> (res = None \<or> res = Some (concat (S (part_num p))))
    \<and> (part_num p = n \<and> res \<noteq> None \<and> gathered S n {} r'
       \<or> gathered S n (if part_num p = n then insert (part_idx p) D else D) r')"
proof -
  have inv: "dr_inv S r" using assms(1) by (simp add: gathered_def)
  show ?thesis
  proof (cases "dropped p r")
    case True
    then have "part_num p < n" using assms(1) by (auto simp: dropped_def gathered_def)
    then show ?thesis using dr_push_cases [OF inv assms(2)] True assms(1) by simp
  next
    case False
    obtain r0 where r0: "dr_done r0 = dr_done r" "stored S p r0 (dr_push p r)"
      "dr_parts r \<noteq> 0 \<and> part_num p = dr_num r \<Longrightarrow> r0 = r"
      using dr_push_cases [OF inv assms(2)] False by (auto split: if_splits)
    have D: "D = {}" if "part_num p \<noteq> n" using that assms False by (auto simp: gathered_def dropped_def)
    have D': "D \<noteq> {} \<Longrightarrow> r0 = r" using D r0(3) assms by (cases "part_num p = n") (auto simp: gathered_def)
    show ?thesis using r0(2) unfolding stored_def
    proof (elim disjE exE conjE)
      fix r' assume r': "dr_push p r = Some (Inr None, r')" "building S r'" "dr_num r' = part_num p" "dr_done r' = dr_done r0"
        "dr_slots r' ! part_idx p \<noteq> None" "\<forall>i. dr_slots r0 ! i \<noteq> None \<longrightarrow> dr_slots r' ! i \<noteq> None"
      have "dr_parts r' \<noteq> 0" using r'(2) unfolding building_def by linarith
      moreover have "\<forall>i \<in> D. dr_slots r' ! i \<noteq> None" using r'(6) D' assms(1) by (cases "D = {}") (auto simp: gathered_def)
      ultimately have "gathered S n (if part_num p = n then insert (part_idx p) D else D) r'"
        using r'(2-5) r0(1) D assms(1,3) by (auto simp: gathered_def dr_inv_def)
      then show ?thesis using r'(1) by auto
    next
      fix r' assume r': "dr_push p r = Some (Inr (Some (concat (S (part_num p)))), r')" "dr_parts r' = 0"
        "dr_bytes r' = 0" "dr_done r' = part_num p"
      then have "gathered S n {} r'" using assms(3) by (simp add: gathered_def dr_inv_def)
      then show ?thesis using r'(1) D by auto
    qed
  qed
qed

lemma dr_run_gathered:
  assumes "gathered S n D r" "\<forall>p \<in> set ps. genuine_part S p \<and> part_num p \<le> n"
  shows "\<exists>outs r'. dr_run ps r = Some (map Inr outs, r') \<and> dr_inv S r'
    \<and> list_all2 (\<lambda>p out. out = None \<or> out = Some (concat (S (part_num p)))) ps outs
    \<and> (Some (concat (S n)) \<in> set outs \<or> gathered S n (D \<union> part_idx ` {p \<in> set ps. part_num p = n}) r')"
  using assms
proof (induction ps arbitrary: D r)
  case Nil
  then show ?case by (auto simp: gathered_def)
next
  case (Cons p ps)
  obtain res r1 D1 where p: "dr_push p r = Some (Inr res, r1)" "res = None \<or> res = Some (concat (S (part_num p)))" "gathered S n D1 r1"
    "part_num p = n \<and> res = Some (concat (S n)) \<or> D1 = (if part_num p = n then insert (part_idx p) D else D)"
    using dr_push_gathered [OF Cons.prems(1), of p] Cons.prems(2) by fastforce
  obtain outs r2 where ps: "dr_run ps r1 = Some (map Inr outs, r2)" "dr_inv S r2"
    "list_all2 (\<lambda>p out. out = None \<or> out = Some (concat (S (part_num p)))) ps outs"
    "Some (concat (S n)) \<in> set outs \<or> gathered S n (D1 \<union> part_idx ` {p \<in> set ps. part_num p = n}) r2"
    using Cons.IH [OF p(3)] Cons.prems(2) by auto
  have "{q \<in> set (p # ps). part_num q = n} = (if part_num p = n then {p} else {}) \<union> {q \<in> set ps. part_num q = n}" by auto
  then have "Some (concat (S n)) \<in> set (res # outs) \<or> gathered S n (D \<union> part_idx ` {q \<in> set (p # ps). part_num q = n}) r2"
    using p(4) ps(4) by (auto split: if_splits)
  then show ?case using p(1,2) ps(1-3) by (intro exI [of _ "res # outs"] exI [of _ r2]) simp
qed

lemma gathered_part:
  assumes "gathered S n {..<length (S n)} r" "S n \<noteq> []"
  shows False
proof -
  have b: "building S r" "dr_num r = n" "\<forall>i < length (S n). dr_slots r ! i \<noteq> None"
    using assms by (auto simp: gathered_def dr_inv_def)
  then have "None \<notin> set (dr_slots r)" using building_slots [OF b(1)] by (auto simp: in_set_conv_nth)
  moreover have "length (List.map_filter id xs) = length xs" if "None \<notin> set xs" for xs :: "bytes option list"
    using that by (induction xs) (auto simp: List.map_filter_simps neq_commute [of None] split: option.splits)
  ultimately show False using b(1) building_slots [OF b(1)] by (auto simp: building_def)
qed

lemma dr_inv_bounded: "dr_inv S r \<Longrightarrow> dr_buffered r \<le> MAX_UPDATE_BYTES"
  using slots_filter [of "dr_slots r" "S (dr_num r)"] by (auto simp: dr_inv_def building_def dr_buffered_def sendable_def)

lemma genuine_parts_sized:
  assumes "p \<in> set (parts_sized n enc m)" "sendable (split_sized enc m)"
  shows "part_num p = n" "S n = split_sized enc m \<Longrightarrow> genuine_part S p"
proof -
  have "parts_sized n enc m = part_run n (length (split_sized enc m)) (split_sized enc m)"
    using assms(2) by (simp add: parts_sized_def number_parts_numbered sendable_def MAX_DATAGRAM_PARTS_def)
  then obtain i where "i < length (split_sized enc m)"
      "p = \<lparr>part_num = n, part_idx = i, part_total = length (split_sized enc m), part_data = split_sized enc m ! i\<rparr>"
    using assms(1) by (auto simp: in_set_conv_nth)
  then show "part_num p = n" "S n = split_sized enc m \<Longrightarrow> genuine_part S p" using assms(2) by (simp_all add: genuine_part_def)
qed

lemma parts_sized_indices:
  assumes "sendable (split_sized enc m)"
  shows "part_idx ` set (parts_sized n enc m) = {..<length (split_sized enc m)}"
proof -
  have "parts_sized n enc m = part_run n (length (split_sized enc m)) (split_sized enc m)"
    using assms by (simp add: parts_sized_def number_parts_numbered sendable_def MAX_DATAGRAM_PARTS_def)
  then show ?thesis by (force simp: in_set_conv_nth image_iff)
qed

section \<open>Properties\<close>

text \<open>
  C20. The stream carries an update whole: whatever the reassembler held before, the parts of an encoded
  update of at most 1 MiB, pushed in order, are all accepted, all but the last ask for more, and the
  last returns exactly the encoding and leaves the reassembler empty.
\<close>

theorem stream_parts_exact:
  assumes "length enc \<le> MAX_UPDATE_BYTES"
  shows "re_run (parts_of n enc) r = (replicate (length (split_parts enc) - 1) (Inr None) @ [Inr (Some enc)], re_new)"
  using re_run_parts_of [OF assms] .

theorem stream_parts_exact_witness:
  "length [1, 2, 3 :: byte] \<le> MAX_UPDATE_BYTES
   \<and> re_run (parts_of 7 [1, 2, 3]) \<lparr>re_num = 6, re_parts = 4, re_next = 2, re_buf = [9, 9]\<rparr>
     = (replicate (length (split_parts [1, 2, 3]) - 1) (Inr None) @ [Inr (Some [1, 2, 3])], re_new)"
  using stream_parts_exact [of "[1, 2, 3]" 7] by (simp add: MAX_UPDATE_BYTES_def)

text \<open>
  C21. The stream reassembler invents nothing: whatever parts a peer sends, each update it returns is
  the concatenation of the parts just pushed, part_run from 0 to their announced count under one state
  number, and neither a returned update nor the buffer exceeds 1 MiB.
\<close>

theorem stream_parts_sound:
  "\<exists>outs r. re_run ps re_new = (outs, r) \<and> re_buffered r \<le> MAX_UPDATE_BYTES
     \<and> (\<forall>i b. i < length ps \<and> outs ! i = Inr (Some b) \<longrightarrow>
          (\<exists>pre n ds. take (i + 1) ps = pre @ part_run n (length ds) ds \<and> b = concat ds) \<and> length b \<le> MAX_UPDATE_BYTES)"
proof -
  obtain outs r where 1: "re_run ps re_new = (outs, r)" by fastforce
  then have "re_buffered r \<le> MAX_UPDATE_BYTES" using re_run_sound [OF 1] by (auto simp: re_inv_def re_new_def re_buffered_def)
  then show ?thesis using re_run_sound [OF 1] 1 unfolding complete_run_def by blast
qed

theorem stream_parts_sound_witness:
  "\<exists>outs r. re_run (parts_of 7 [1, 2, 3]) re_new = (outs, r) \<and> outs ! 0 = Inr (Some [1, 2, 3]) \<and> re_buffered r \<le> MAX_UPDATE_BYTES
     \<and> (\<exists>pre n ds. take 1 (parts_of 7 [1, 2, 3]) = pre @ part_run n (length ds) ds \<and> [1, 2, 3] = concat ds)"
proof -
  have one: "split_parts [1, 2, 3] = [[1, 2, 3 :: byte]]" by (simp add: split_parts_def chunks.simps PART_MAX_def)
  then have "re_run (parts_of 7 [1, 2, 3]) re_new = ([Inr (Some [1, 2, 3])], re_new)"
    using re_run_parts_of [of "[1, 2, 3]" 7 re_new] by (simp add: MAX_UPDATE_BYTES_def)
  moreover have "0 < length (parts_of 7 [1, 2, 3])" by (simp add: parts_of_def number_parts_def one)
  ultimately show ?thesis using stream_parts_sound [of "parts_of 7 [1, 2, 3]"] by (fastforce simp: One_nat_def [symmetric] simp del: One_nat_def)
qed



text \<open>One state sent twice, as a difference and then as a full screen, in as many parts: the update that completes
  holds a part of each and is neither of the two.\<close>

lemma datagram_parts_mixed:
  "dr_run [\<lparr>part_num = 7, part_idx = 0, part_total = 2, part_data = [1, 2]\<rparr>,
           \<lparr>part_num = 7, part_idx = 1, part_total = 2, part_data = [8]\<rparr>] dr_new
   = Some ([Inr None, Inr (Some [1, 2, 8])], dr_new\<lparr>dr_num := 7, dr_done := 7\<rparr>)"
  by (simp add: dr_push_def dr_store_def dr_new_def dr_reset_def MAX_DATAGRAM_PARTS_def PART_MAX_def MAX_UPDATE_BYTES_def
      Let_def List.map_filter_simps numeral_2_eq_2)

end
