(* ===== verification/Screen_Host.thy ===== *)
theory Screen_Host
  imports Emulator_Guarantees Parts_Guarantees
begin

text \<open>
  The host's side of screen synchronisation (\<open>qsh-core/src/screen/mod.rs\<close>): the emulator of a session with
  its collector, the retained numbered states, the log of effects, and the update that takes a client
  from a state it holds to the current screen. State numbers and offsets are natural numbers; the emulator
  and the hash function are arguments.
\<close>

section \<open>State\<close>

definition RETAINED_STATES :: nat where
  "RETAINED_STATES = 8"

definition FEED_SLICE :: nat where
  "FEED_SLICE = 16 * 1024"

definition DEFAULT_HISTORY_ROWS :: nat where
  "DEFAULT_HISTORY_ROWS = 5000"

definition DEFAULT_HISTORY_BYTES :: nat where
  "DEFAULT_HISTORY_BYTES = 4 * 1024 * 1024"

definition EFFECT_LOG_MAX :: nat where
  "EFFECT_LOG_MAX = 256"

record screen_options =
  opt_rows :: nat
  opt_cols :: nat
  opt_history_rows :: nat
  opt_history_bytes :: nat

definition screen_options_default :: screen_options where
  "screen_options_default =
     \<lparr>opt_rows = 24, opt_cols = 80, opt_history_rows = DEFAULT_HISTORY_ROWS, opt_history_bytes = DEFAULT_HISTORY_BYTES\<rparr>"

record history_batch =
  hb_skipped :: nat
  hb_lines :: "bytes list"

record state_info =
  si_num :: nat
  si_output_seq :: nat
  si_hash :: bytes

record cut =
  cut_info :: state_info
  cut_state :: screen_state

record 'e host_screen =
  parser :: 'e
  callbacks :: collector
  cuts :: "cut list"
  effect_log :: "(nat \<times> effect) list"
  last_title :: "bytes option"
  next_num :: nat
  fed_seq :: nat
  dirty :: bool
  vs16 :: vs16_filter

section \<open>Operations\<close>

definition host_new :: "'e vt100 \<Rightarrow> screen_options \<Rightarrow> 'e host_screen" where
  "host_new vt options =
     (let (r, c) = (if size_is_valid (opt_rows options) (opt_cols options) then (opt_rows options, opt_cols options) else (24, 80))
      in \<lparr>parser = vt_new vt r c, callbacks = collector_new (opt_history_rows options) (opt_history_bytes options),
          cuts = [], effect_log = [], last_title = None, next_num = 1, fed_seq = 0, dirty = True, vs16 = vs16_default\<rparr>)"

definition host_size :: "'e vt100 \<Rightarrow> 'e host_screen \<Rightarrow> nat \<times> nat" where
  "host_size vt h = (let s = vt_screen vt (parser h) in (vs_rows s, vs_cols s))"

text \<open>The emulator makes its callbacks on the collector while it works.\<close>

definition absorb :: "'e \<times> vt_event list \<Rightarrow> 'e host_screen \<Rightarrow> 'e host_screen" where
  "absorb res h = h\<lparr>parser := fst res, callbacks := fold collect (snd res) (callbacks h)\<rparr>"

definition feed_output :: "'e vt100 \<Rightarrow> bytes \<Rightarrow> nat \<Rightarrow> 'e host_screen \<Rightarrow> 'e host_screen" where
  "feed_output vt data end_seq h =
     (let (data, f) = vs16_run data (vs16 h);
          h = fold (\<lambda>slice h. absorb (vt_process vt slice (parser h)) h) (chunks FEED_SLICE data) (h\<lparr>vs16 := f\<rparr>)
      in h\<lparr>fed_seq := end_seq, dirty := True\<rparr>)"

definition take_answers :: "'e host_screen \<Rightarrow> bytes \<times> 'e host_screen" where
  "take_answers h = (col_answers (callbacks h), h\<lparr>callbacks := (callbacks h)\<lparr>col_answers := []\<rparr>\<rparr>)"

definition resize :: "'e vt100 \<Rightarrow> nat \<Rightarrow> nat \<Rightarrow> 'e host_screen \<Rightarrow> 'e host_screen" where
  "resize vt r c h =
     (if \<not> size_is_valid r c then h
      else if r \<noteq> 0 \<and> c \<noteq> 0 \<and> host_size vt h \<noteq> (r, c)
      then (absorb (vt_set_size vt r c (parser h)) h)\<lparr>dirty := True\<rparr>
      else h)"

definition set_client_colors :: "rgb option \<Rightarrow> rgb option \<Rightarrow> 'e host_screen \<Rightarrow> 'e host_screen" where
  "set_client_colors f b h = h\<lparr>callbacks := (callbacks h)\<lparr>col_fg := f, col_bg := b\<rparr>\<rparr>"

definition take_history :: "'e host_screen \<Rightarrow> history_batch \<times> 'e host_screen" where
  "take_history h =
     (let c = callbacks h
      in (\<lparr>hb_skipped = col_history_skipped c, hb_lines = col_history c\<rparr>,
          h\<lparr>callbacks := c\<lparr>col_history_bytes := 0, col_history_full := False, col_history_skipped := 0, col_history := []\<rparr>\<rparr>))"

definition effects_dropped :: "'e host_screen \<Rightarrow> nat" where
  "effects_dropped h = col_effects_dropped (callbacks h)"

definition snapshot :: "'e vt100 \<Rightarrow> 'e host_screen \<Rightarrow> screen_state" where
  "snapshot vt h = state_of (vt_screen vt (parser h))"

text \<open>\<open>pop_front\<close> while there are more than \<open>n\<close>.\<close>

definition keep_last :: "nat \<Rightarrow> 'a list \<Rightarrow> 'a list" where
  "keep_last n xs = drop (length xs - n) xs"

text \<open>The window title after a list of effects.\<close>

fun title_after :: "bytes option \<Rightarrow> effect list \<Rightarrow> bytes option" where
  "title_after t [] = t"
| "title_after t (e # es) = title_after (case e of Title x \<Rightarrow> Some x | _ \<Rightarrow> t) es"

definition new_cut :: "screen_state \<Rightarrow> bytes \<Rightarrow> effect list \<Rightarrow> 'e host_screen \<Rightarrow> state_info \<times> 'e host_screen" where
  "new_cut st hash effs h =
     (let info = \<lparr>si_num = next_num h, si_output_seq = fed_seq h, si_hash = hash\<rparr>;
          lg = keep_last EFFECT_LOG_MAX (effect_log h @ map (\<lambda>e. (si_num info, e)) effs);
          cs = keep_last RETAINED_STATES (cuts h @ [\<lparr>cut_info = info, cut_state = st\<rparr>]);
          lg = (case cs of [] \<Rightarrow> lg | oldest # _ \<Rightarrow> dropWhile (\<lambda>(n, _). n \<le> si_num (cut_info oldest)) lg)
      in (info, h\<lparr>next_num := next_num h + 1, last_title := title_after (last_title h) effs, effect_log := lg, cuts := cs\<rparr>))"

definition cut_screen :: "'e vt100 \<Rightarrow> (bytes \<Rightarrow> bytes) \<Rightarrow> 'e host_screen \<Rightarrow> state_info \<times> 'e host_screen" where
  "cut_screen vt blake3 h =
     (if \<not> dirty h \<and> cuts h \<noteq> [] then (cut_info (last (cuts h)), h)
      else let h = h\<lparr>dirty := False\<rparr>; st = snapshot vt h; hash = state_hash_of blake3 st; effs = col_effects (callbacks h);
               h = h\<lparr>callbacks := (callbacks h)\<lparr>col_effects := []\<rparr>\<rparr>
           in if effs = [] \<and> cuts h \<noteq> [] \<and> si_hash (cut_info (last (cuts h))) = hash
              then let k = last (cuts h); info = (cut_info k)\<lparr>si_output_seq := fed_seq h\<rparr>
                   in (info, h\<lparr>cuts := butlast (cuts h) @ [k\<lparr>cut_info := info\<rparr>]\<rparr>)
              else new_cut st hash effs h)"

definition base_cut :: "nat \<Rightarrow> nat \<Rightarrow> cut list \<Rightarrow> cut option" where
  "base_cut base latest cs = find (\<lambda>k. si_num (cut_info k) = base \<and> base \<noteq> 0 \<and> base < latest) cs"

text \<open>The base an update starts from, its number, and the effects that go with it; \<open>None\<close> is the early return.\<close>

definition update_base :: "nat \<Rightarrow> state_info \<Rightarrow> screen_state \<Rightarrow> 'e host_screen \<Rightarrow> (nat \<times> screen_state \<times> effect list) option" where
  "update_base base latest new h =
     (case base_cut base (si_num latest) (cuts h) of
        Some b \<Rightarrow> Some (base, cut_state b, map snd (filter (\<lambda>(n, _). n > base) (effect_log h)))
      | None \<Rightarrow>
          (case blank (rows new) (cols new) of
             Inl _ \<Rightarrow> None
           | Inr b \<Rightarrow> Some (0, b, case last_title h of Some t \<Rightarrow> [Title t] | None \<Rightarrow> [])))"

definition update_since :: "'e vt100 \<Rightarrow> (bytes \<Rightarrow> bytes) \<Rightarrow> nat \<Rightarrow> 'e host_screen \<Rightarrow> (screen_update option \<times> 'e host_screen) option" where
  "update_since vt blake3 base h =
     (let (latest, h) = cut_screen vt blake3 h
      in if base = si_num latest \<or> cuts h = [] then Some (None, h)
         else let new = cut_state (last (cuts h))
              in case update_base base latest new h of
                   None \<Rightarrow> Some (None, h)
                 | Some (b, st, effs) \<Rightarrow>
                     (case diff_between st new of
                        None \<Rightarrow> None
                      | Some (Inl _) \<Rightarrow> Some (None, h)
                      | Some (Inr d) \<Rightarrow>
                          Some (Some \<lparr>base_num = b, new_num = si_num latest, output_seq = si_output_seq latest, diff = d,
                                      effects = effs, state_hash = si_hash latest\<rparr>, h)))"

end
