(* ===== verification/Screen_Client.thy ===== *)
theory Screen_Client
  imports Screen_Host
begin

text \<open>
  The client's side of screen synchronisation (\<open>qsh-core/src/client/screen.rs\<close>): the states it retains,
  the reassemblers of the two carriers, the application of an update, and what it tells the host. An
  outer \<open>None\<close> is a panic.
\<close>

datatype resync_reason = HashDiffers | BaseMismatch | BadDiff

datatype screen_outcome = Partial | Applied nat nat "effect list" | Resync resync_reason | Ignored | Stale nat

fun outcome_ack :: "screen_outcome \<Rightarrow> nat option" where
  "outcome_ack (Applied n _ _) = Some n"
| "outcome_ack (Resync _) = Some 0"
| "outcome_ack (Stale held) = (if held \<noteq> 0 then Some held else None)"
| "outcome_ack Partial = None"
| "outcome_ack Ignored = None"

datatype via = ViaStream | ViaDatagram

record client_screen =
  history :: "(nat \<times> screen_state) list"
  cl_output_seq :: nat
  cl_parts :: reassembler
  cl_datagram_parts :: datagram_reassembler
  awaiting_full :: bool
  cl_applied :: nat
  cl_resyncs :: nat
  cl_datagram_dropped :: nat

definition client_new :: client_screen where
  "client_new = \<lparr>history = [], cl_output_seq = 0, cl_parts = re_new, cl_datagram_parts = dr_new, awaiting_full = False,
     cl_applied = 0, cl_resyncs = 0, cl_datagram_dropped = 0\<rparr>"

definition client_state :: "client_screen \<Rightarrow> screen_state option" where
  "client_state c = (if history c = [] then None else Some (snd (last (history c))))"

definition client_num :: "client_screen \<Rightarrow> nat" where
  "client_num c = (if history c = [] then 0 else fst (last (history c)))"

definition client_hash :: "(bytes \<Rightarrow> bytes) \<Rightarrow> client_screen \<Rightarrow> bytes option" where
  "client_hash blake3 c = map_option (state_hash_of blake3) (client_state c)"

definition resync :: "resync_reason \<Rightarrow> client_screen \<Rightarrow> screen_outcome \<times> client_screen" where
  "resync reason c = (Resync reason, c\<lparr>history := [], awaiting_full := True, cl_resyncs := cl_resyncs c + 1\<rparr>)"

text \<open>The screen an update starts from, or the outcome that ends the call.\<close>

definition client_base :: "screen_update \<Rightarrow> via \<Rightarrow> client_screen \<Rightarrow> screen_outcome \<times> client_screen + screen_state" where
  "client_base u v c =
     (if base_num u = 0 then
        (case blank (d_rows (diff u)) (d_cols (diff u)) of Inr b \<Rightarrow> Inr b | Inl _ \<Rightarrow> Inl (resync BadDiff c))
      else
        (case find (\<lambda>(n, _). n = base_num u) (history c) of
           Some (_, s) \<Rightarrow> Inr s
         | None \<Rightarrow> if v = ViaDatagram then Inl (Stale (client_num c), c) else Inl (resync BaseMismatch c)))"

definition apply_via :: "(bytes \<Rightarrow> bytes) \<Rightarrow> screen_update \<Rightarrow> via \<Rightarrow> client_screen \<Rightarrow> (screen_outcome \<times> client_screen) option" where
  "apply_via blake3 u v c =
     (if awaiting_full c \<and> base_num u \<noteq> 0 then Some (Ignored, c)
      else let held = client_num c
           in if held \<noteq> 0 \<and> (new_num u < held \<or> base_num u \<noteq> 0 \<and> new_num u = held) then Some (Stale held, c)
              else case client_base u v c of
                     Inl res \<Rightarrow> Some res
                   | Inr base \<Rightarrow>
                       (case update_apply blake3 u base of
                          None \<Rightarrow> None
                        | Some (Inr s) \<Rightarrow>
                            Some (Applied (new_num u) (output_seq u) (effects u),
                                  c\<lparr>history := keep_last RETAINED_STATES (history c @ [(new_num u, s)]),
                                    cl_output_seq := output_seq u, awaiting_full := False, cl_applied := cl_applied c + 1\<rparr>)
                        | Some (Inl e) \<Rightarrow> Some (resync (if e = HashMismatch then HashDiffers else BadDiff) c)))"

definition client_apply :: "(bytes \<Rightarrow> bytes) \<Rightarrow> screen_update \<Rightarrow> client_screen \<Rightarrow> (screen_outcome \<times> client_screen) option" where
  "client_apply blake3 u c = apply_via blake3 u ViaStream c"

datatype screen_protocol_error = BadPart part_error | BadUpdate decode_error

definition on_part :: "(bytes \<Rightarrow> bytes) \<Rightarrow> screen_part \<Rightarrow> client_screen
    \<Rightarrow> ((screen_protocol_error + screen_outcome) \<times> client_screen) option" where
  "on_part blake3 p c =
     (let (res, r) = re_push p (cl_parts c); c = c\<lparr>cl_parts := r\<rparr>
      in case res of
           Inl e \<Rightarrow> Some (Inl (BadPart e), c)
         | Inr None \<Rightarrow> Some (Inr Partial, c)
         | Inr (Some bs) \<Rightarrow>
             (case update_decode bs of
                Inl e \<Rightarrow> Some (Inl (BadUpdate e), c)
              | Inr u \<Rightarrow> map_option (\<lambda>(out, c). (Inr out, c)) (client_apply blake3 u c)))"

definition on_datagram_part :: "(bytes \<Rightarrow> bytes) \<Rightarrow> screen_part \<Rightarrow> client_screen \<Rightarrow> (screen_outcome \<times> client_screen) option" where
  "on_datagram_part blake3 p c =
     (case dr_push p (cl_datagram_parts c) of
        None \<Rightarrow> None
      | Some (res, r) \<Rightarrow>
          (let c = c\<lparr>cl_datagram_parts := r\<rparr>
           in case res of
                Inr None \<Rightarrow> Some (Partial, c)
              | Inr (Some bs) \<Rightarrow>
                  (case update_decode bs of
                     Inr u \<Rightarrow> apply_via blake3 u ViaDatagram c
                   | Inl _ \<Rightarrow> Some (Partial, c\<lparr>cl_datagram_dropped := cl_datagram_dropped c + 1\<rparr>))
              | Inl _ \<Rightarrow> Some (Partial, c\<lparr>cl_datagram_dropped := cl_datagram_dropped c + 1\<rparr>)))"

end
