(* ===== verification/Host_Guarantees.thy ===== *)
theory Host_Guarantees
  imports Screen_Host
begin

text \<open>
  The invariant of the host's screen and what its updates are worth. The only thing assumed of the
  emulator is that it keeps the size it was last given.
\<close>

section \<open>The invariant\<close>

definition vt_size :: "'e vt100 \<Rightarrow> 'e \<Rightarrow> nat \<times> nat" where
  "vt_size vt e = (vs_rows (vt_screen vt e), vs_cols (vt_screen vt e))"

definition vt_sized :: "'e vt100 \<Rightarrow> bool" where
  "vt_sized vt \<longleftrightarrow> (\<forall>r c. vt_size vt (vt_new vt r c) = (r, c))
     \<and> (\<forall>bs e. vt_size vt (fst (vt_process vt bs e)) = vt_size vt e)
     \<and> (\<forall>r c e. vt_size vt (fst (vt_set_size vt r c e)) = (r, c))"

definition knum :: "cut \<Rightarrow> nat" where
  "knum k = si_num (cut_info k)"

definition cuts_ok :: "(bytes \<Rightarrow> bytes) \<Rightarrow> nat \<Rightarrow> cut list \<Rightarrow> bool" where
  "cuts_ok blake3 nxt ks \<longleftrightarrow> sorted_wrt (<) (map knum ks) \<and> length ks \<le> RETAINED_STATES
     \<and> (ks \<noteq> [] \<longrightarrow> knum (last ks) + 1 = nxt)
     \<and> (\<forall>k \<in> set ks. 0 < knum k \<and> screen_ok (cut_state k) \<and> si_hash (cut_info k) = state_hash_of blake3 (cut_state k))"

definition log_ok :: "(nat \<times> effect) list \<Rightarrow> bool" where
  "log_ok lg \<longleftrightarrow> length lg \<le> EFFECT_LOG_MAX \<and> (\<forall>(n, e) \<in> set lg. effect_ok e)"

definition host_ok :: "'e vt100 \<Rightarrow> (bytes \<Rightarrow> bytes) \<Rightarrow> 'e host_screen \<Rightarrow> bool" where
  "host_ok vt blake3 h \<longleftrightarrow> case_prod size_is_valid (vt_size vt (parser h)) \<and> collector_ok (callbacks h)
     \<and> cuts_ok blake3 (next_num h) (cuts h) \<and> log_ok (effect_log h) \<and> (\<forall>t. last_title h = Some t \<longrightarrow> effect_ok (Title t))
     \<and> 0 < next_num h \<and> vs16_wf (vs16 h)
     \<and> (\<not> dirty h \<longrightarrow> cuts h \<noteq> [] \<and> si_hash (cut_info (last (cuts h))) = state_hash_of blake3 (snapshot vt h))"

lemma snapshot_ok: "host_ok vt blake3 h \<Longrightarrow> screen_ok (snapshot vt h)"
  by (auto simp: host_ok_def snapshot_def vt_size_def intro: state_of_ok)

lemma host_new_ok: "vt_sized vt \<Longrightarrow> host_ok vt blake3 (host_new vt options)"
  by (auto simp: host_ok_def host_new_def Let_def vt_sized_def collector_new_ok cuts_ok_def log_ok_def vs16_wf_def vs16_default_def
      holds_prefix_def size_is_valid_def MAX_DIM_def MAX_CELLS_def)

section \<open>Input\<close>

text \<open>What the operations that do not number states leave alone.\<close>

definition same_states :: "'e host_screen \<Rightarrow> 'e host_screen \<Rightarrow> bool" where
  "same_states h h' \<longleftrightarrow> cuts h' = cuts h \<and> effect_log h' = effect_log h \<and> last_title h' = last_title h \<and> next_num h' = next_num h"

lemma absorb_fold:
  assumes "vt_sized vt"
  shows "let h' = fold (\<lambda>slice h. absorb (vt_process vt slice (parser h)) h) slices h
    in same_states h h' \<and> vs16 h' = vs16 h \<and> vt_size vt (parser h') = vt_size vt (parser h)
       \<and> (collector_ok (callbacks h) \<longrightarrow> collector_ok (callbacks h'))"
proof (induction slices arbitrary: h)
  case Nil
  then show ?case by (simp add: same_states_def)
next
  case (Cons sl slices)
  let ?h = "absorb (vt_process vt sl (parser h)) h"
  have "same_states h ?h \<and> vs16 ?h = vs16 h \<and> vt_size vt (parser ?h) = vt_size vt (parser h)
      \<and> (collector_ok (callbacks h) \<longrightarrow> collector_ok (callbacks ?h))"
    using assms collecting.run_inv by (simp add: absorb_def same_states_def vt_sized_def)
  then show ?case using Cons.IH [of ?h] by (auto simp: Let_def same_states_def)
qed

lemma feed_ok:
  assumes "vt_sized vt" "host_ok vt blake3 h"
  shows "host_ok vt blake3 (feed_output vt data seq h) \<and> same_states h (feed_output vt data seq h)"
proof -
  obtain d f where f: "vs16_run data (vs16 h) = (d, f)" by fastforce
  then have "vs16_wf f" using vs16_run_stream [of "vs16 h" data d f] assms(2) by (simp add: host_ok_def)
  then show ?thesis using absorb_fold [OF assms(1), of "chunks FEED_SLICE d" "h\<lparr>vs16 := f\<rparr>"] assms(2) f
    by (auto simp: feed_output_def Let_def host_ok_def same_states_def)
qed

lemma resize_ok:
  assumes "vt_sized vt" "host_ok vt blake3 h"
  shows "host_ok vt blake3 (resize vt r c h) \<and> same_states h (resize vt r c h)"
  using assms collecting.run_inv by (auto simp: resize_def absorb_def host_ok_def vt_sized_def same_states_def)

lemma take_answers_ok: "host_ok vt blake3 h \<Longrightarrow> host_ok vt blake3 (snd (take_answers h)) \<and> same_states h (snd (take_answers h))"
  by (simp add: take_answers_def host_ok_def collector_ok_def same_states_def snapshot_def)

lemma set_client_colors_ok: "host_ok vt blake3 h \<Longrightarrow> host_ok vt blake3 (set_client_colors f b h) \<and> same_states h (set_client_colors f b h)"
  by (simp add: set_client_colors_def host_ok_def collector_ok_def same_states_def snapshot_def)

lemma take_history_ok: "host_ok vt blake3 h \<Longrightarrow> host_ok vt blake3 (snd (take_history h)) \<and> same_states h (snd (take_history h))"
  by (auto simp: take_history_def host_ok_def collector_ok_def same_states_def snapshot_def Let_def)

datatype host_input = Output bytes nat | Resized nat nat | Colors "rgb option" "rgb option" | AnswersTaken | HistoryTaken

fun host_step :: "'e vt100 \<Rightarrow> host_input \<Rightarrow> 'e host_screen \<Rightarrow> 'e host_screen" where
  "host_step vt (Output data seq) h = feed_output vt data seq h"
| "host_step vt (Resized r c) h = resize vt r c h"
| "host_step vt (Colors f b) h = set_client_colors f b h"
| "host_step vt AnswersTaken h = snd (take_answers h)"
| "host_step vt HistoryTaken h = snd (take_history h)"

lemma host_step_ok:
  assumes "vt_sized vt" "host_ok vt blake3 h"
  shows "host_ok vt blake3 (host_step vt i h)" "same_states h (host_step vt i h)"
  using feed_ok [OF assms] resize_ok [OF assms] set_client_colors_ok [OF assms(2)] take_answers_ok [OF assms(2)] take_history_ok [OF assms(2)]
  by (cases i; simp)+

section \<open>Numbering\<close>

lemma keep_last_set: "set (keep_last n xs) \<subseteq> set xs"
  by (simp add: keep_last_def set_drop_subset)

lemma keep_last_length: "length (keep_last n xs) \<le> n"
  by (simp add: keep_last_def)

lemma keep_last_snoc: "0 < n \<Longrightarrow> \<exists>ys. keep_last n (xs @ [x]) = ys @ [x] \<and> set ys \<subseteq> set xs"
  by (rule exI [of _ "drop (length xs + 1 - n) xs"]) (auto simp: keep_last_def dest: in_set_dropD)

lemma keep_last_sorted: "sorted_wrt P (map f xs) \<Longrightarrow> sorted_wrt P (map f (keep_last n xs))"
  by (simp add: keep_last_def drop_map [symmetric] sorted_wrt_drop)

lemma snapshot_clean [simp]: "snapshot vt (h\<lparr>dirty := d, callbacks := c\<rparr>) = snapshot vt h" "snapshot vt (h\<lparr>dirty := d\<rparr>) = snapshot vt h"
  by (simp_all add: snapshot_def)

lemma title_after_cases: "title_after t es = Some x \<Longrightarrow> t = Some x \<or> Title x \<in> set es"
  by (induction t es rule: title_after.induct) (auto split: effect.splits)

text \<open>The states after a step: those retained before, and at most a new one under the next number.\<close>

definition numbered_from :: "'e host_screen \<Rightarrow> 'e host_screen \<Rightarrow> bool" where
  "numbered_from h h' \<longleftrightarrow> next_num h \<le> next_num h'
     \<and> (\<forall>k \<in> set (cuts h'). (\<exists>k' \<in> set (cuts h). knum k' = knum k \<and> cut_state k' = cut_state k)
          \<or> knum k = next_num h \<and> next_num h' = next_num h + 1)"

lemma cuts_ok_snoc:
  assumes "cuts_ok blake3 nxt ks" "0 < nxt" "screen_ok st" "hash = state_hash_of blake3 st"
  shows "cuts_ok blake3 (nxt + 1)
    (keep_last RETAINED_STATES (ks @ [\<lparr>cut_info = \<lparr>si_num = nxt, si_output_seq = seq, si_hash = hash\<rparr>, cut_state = st\<rparr>]))"
proof -
  let ?k = "\<lparr>cut_info = \<lparr>si_num = nxt, si_output_seq = seq, si_hash = hash\<rparr>, cut_state = st\<rparr>"
  have below: "\<forall>k \<in> set ks. knum k < nxt"
  proof
    fix k assume "k \<in> set ks"
    then have ne: "ks \<noteq> []" by auto
    then have "sorted_wrt (<) (map knum (butlast ks @ [last ks]))" using assms(1) by (simp add: cuts_ok_def)
    then have "\<forall>k \<in> set (butlast ks). knum k < knum (last ks)" by (simp add: sorted_wrt_append)
    moreover have "k \<in> set (butlast ks) \<or> k = last ks" using \<open>k \<in> set ks\<close> by (metis append_butlast_last_id ne in_set_conv_decomp rotate1.simps(2) set_ConsD set_rotate1)
    ultimately show "knum k < nxt" using assms(1) ne by (auto simp: cuts_ok_def)
  qed
  then have "sorted_wrt (<) (map knum (ks @ [?k]))" using assms(1) by (auto simp: cuts_ok_def sorted_wrt_append knum_def)
  then have "sorted_wrt (<) (map knum (keep_last RETAINED_STATES (ks @ [?k])))"
    by (rule keep_last_sorted)
  moreover have "last (keep_last RETAINED_STATES (ks @ [?k])) = ?k"
    using keep_last_snoc [of RETAINED_STATES ks ?k] by (auto simp: RETAINED_STATES_def)
  moreover have "\<forall>k \<in> set (keep_last RETAINED_STATES (ks @ [?k])). 0 < knum k \<and> screen_ok (cut_state k)
      \<and> si_hash (cut_info k) = state_hash_of blake3 (cut_state k)"
    using keep_last_set [of RETAINED_STATES "ks @ [?k]"] assms by (auto simp: cuts_ok_def knum_def)
  ultimately show ?thesis using keep_last_length [of RETAINED_STATES "ks @ [?k]"] by (auto simp: cuts_ok_def knum_def)
qed

lemma log_ok_new:
  assumes "log_ok lg" "list_all effect_ok effs"
  shows "log_ok (dropWhile P (keep_last EFFECT_LOG_MAX (lg @ map (Pair n) effs)))"
    "log_ok (keep_last EFFECT_LOG_MAX (lg @ map (Pair n) effs))"
proof -
  let ?lg = "keep_last EFFECT_LOG_MAX (lg @ map (Pair n) effs)"
  have ok: "\<forall>(n, e) \<in> set ?lg. effect_ok e"
    using keep_last_set [of EFFECT_LOG_MAX "lg @ map (Pair n) effs"] assms by (fastforce simp: log_ok_def list_all_iff)
  then show "log_ok ?lg" using keep_last_length by (auto simp: log_ok_def)
  have "length (dropWhile P ?lg) \<le> EFFECT_LOG_MAX" using keep_last_length [of EFFECT_LOG_MAX] length_dropWhile_le order_trans by blast
  then show "log_ok (dropWhile P ?lg)" using ok set_dropWhileD by (fastforce simp: log_ok_def)
qed

lemma new_cut_ok:
  assumes "host_ok vt blake3 h0" "h = h0\<lparr>dirty := False, callbacks := (callbacks h0)\<lparr>col_effects := []\<rparr>\<rparr>"
    and "new_cut (snapshot vt h) (state_hash_of blake3 (snapshot vt h)) effs h = (info, h')" "list_all effect_ok effs"
  shows "host_ok vt blake3 h' \<and> \<not> dirty h' \<and> cut_info (last (cuts h')) = info \<and> numbered_from h0 h' \<and> parser h' = parser h0"
proof -
  let ?st = "snapshot vt h0"
  let ?k = "\<lparr>cut_info = \<lparr>si_num = next_num h0, si_output_seq = fed_seq h0, si_hash = state_hash_of blake3 ?st\<rparr>, cut_state = ?st\<rparr>"
  obtain ys where ys: "keep_last RETAINED_STATES (cuts h0 @ [?k]) = ys @ [?k]" "set ys \<subseteq> set (cuts h0)"
    using keep_last_snoc [of RETAINED_STATES "cuts h0" ?k] by (auto simp: RETAINED_STATES_def)
  have cs: "cuts h' = ys @ [?k]" "info = cut_info ?k" "next_num h' = next_num h0 + 1" "parser h' = parser h0" "\<not> dirty h'"
      "callbacks h' = (callbacks h0)\<lparr>col_effects := []\<rparr>" "last_title h' = title_after (last_title h0) effs" "vs16 h' = vs16 h0"
    using assms(2,3) ys(1) by (auto simp: new_cut_def Let_def)
  have lg: "log_ok (effect_log h')"
    using assms log_ok_new [of "effect_log h0" effs] by (auto simp: new_cut_def Let_def host_ok_def split: list.splits)
  have cuts: "cuts_ok blake3 (next_num h') (cuts h')"
    using cuts_ok_snoc [of blake3 "next_num h0" "cuts h0" ?st "state_hash_of blake3 ?st" "fed_seq h0"] snapshot_ok [OF assms(1)] assms(1)
    by (simp add: cs ys(1) host_ok_def)
  have "\<forall>t. last_title h' = Some t \<longrightarrow> effect_ok (Title t)"
    using title_after_cases [of "last_title h0" effs] assms(1,4) by (fastforce simp: cs host_ok_def list_all_iff)
  then have "host_ok vt blake3 h'"
    using cuts lg assms(1) by (auto simp: host_ok_def cs collector_ok_def snapshot_def)
  moreover have "numbered_from h0 h'" using ys(2) by (auto simp: numbered_from_def cs knum_def)
  ultimately show ?thesis by (simp add: cs)
qed

lemma cut_screen_ok:
  assumes "host_ok vt blake3 h" "cut_screen vt blake3 h = (info, h')"
  shows "host_ok vt blake3 h' \<and> \<not> dirty h' \<and> cut_info (last (cuts h')) = info \<and> numbered_from h h' \<and> parser h' = parser h"
proof -
  let ?h = "h\<lparr>dirty := False, callbacks := (callbacks h)\<lparr>col_effects := []\<rparr>\<rparr>"
  consider (clean) "\<not> dirty h" "cuts h \<noteq> []"
    | (same) "dirty h \<or> cuts h = []" "cuts h \<noteq> []" "si_hash (cut_info (last (cuts h))) = state_hash_of blake3 (snapshot vt h)" "col_effects (callbacks h) = []"
    | (new) "dirty h \<or> cuts h = []" "\<not> (col_effects (callbacks h) = [] \<and> cuts h \<noteq> [] \<and> si_hash (cut_info (last (cuts h))) = state_hash_of blake3 (snapshot vt h))"
    by blast
  then show ?thesis
  proof cases
    case clean
    then show ?thesis using assms by (auto simp: cut_screen_def numbered_from_def)
  next
    case same
    let ?k = "(last (cuts h))\<lparr>cut_info := (cut_info (last (cuts h)))\<lparr>si_output_seq := fed_seq h\<rparr>\<rparr>"
    have h': "h' = ?h\<lparr>cuts := butlast (cuts h) @ [?k]\<rparr>" "info = cut_info ?k"
      using same assms(2) by (auto simp: cut_screen_def Let_def)
    have ks: "cuts h = butlast (cuts h) @ [last (cuts h)]" using same by simp
    have k: "knum ?k = knum (last (cuts h))" "cut_state ?k = cut_state (last (cuts h))" by (simp_all add: knum_def)
    have "cuts_ok blake3 (next_num h) (butlast (cuts h) @ [?k])"
    proof -
      have "cuts_ok blake3 (next_num h) (butlast (cuts h) @ [last (cuts h)])" using assms(1) ks by (simp add: host_ok_def)
      then show ?thesis by (simp add: cuts_ok_def k)
    qed
    moreover have "numbered_from h h'" unfolding numbered_from_def h' by (subst (2) ks) (auto simp: k)
    ultimately show ?thesis using assms(1) same(3) by (auto simp: h' host_ok_def collector_ok_def snapshot_def)
  next
    case new
    then have "new_cut (snapshot vt ?h) (state_hash_of blake3 (snapshot vt ?h)) (col_effects (callbacks h)) ?h = (info, h')"
      using assms(2) by (auto simp: cut_screen_def Let_def)
    moreover have "list_all effect_ok (col_effects (callbacks h))" using assms(1) by (simp add: host_ok_def collector_ok_def)
    ultimately show ?thesis by (rule new_cut_ok [OF assms(1) refl])
  qed
qed

section \<open>Updates\<close>

text \<open>The record of every state the host ever numbered, the states among it that are retained, and the updates that
  lead from one recorded state to another.\<close>

type_synonym truth = "nat \<Rightarrow> screen_state option"

definition learn :: "truth \<Rightarrow> 'e host_screen \<Rightarrow> truth" where
  "learn T h n = (case T n of Some s \<Rightarrow> Some s | None \<Rightarrow> map_of (map (\<lambda>k. (knum k, cut_state k)) (cuts h)) n)"

definition agrees :: "truth \<Rightarrow> 'e host_screen \<Rightarrow> bool" where
  "agrees T h \<longleftrightarrow> (\<forall>k \<in> set (cuts h). T (knum k) = Some (cut_state k))
     \<and> (\<forall>n s. T n = Some s \<longrightarrow> 0 < n \<and> n < next_num h \<and> screen_ok s)"

definition genuine :: "(bytes \<Rightarrow> bytes) \<Rightarrow> truth \<Rightarrow> screen_update \<Rightarrow> bool" where
  "genuine blake3 T u \<longleftrightarrow> (\<exists>s b. T (new_num u) = Some s \<and> state_hash u = state_hash_of blake3 s \<and> base_num u < new_num u
     \<and> d_rows (diff u) = rows s \<and> d_cols (diff u) = cols s \<and> diff_ok (diff u) \<and> list_all effect_ok (effects u)
     \<and> (if base_num u = 0 then blank (rows s) (cols s) = Inr b else T (base_num u) = Some b)
     \<and> diff_apply (diff u) b = Some (Inr s))"

lemma learn_keeps: "T n = Some s \<Longrightarrow> learn T h n = Some s"
  by (simp add: learn_def)

lemma genuine_learn: "genuine blake3 T u \<Longrightarrow> genuine blake3 (learn T h) u"
  by (auto simp: genuine_def learn_keeps split: if_splits)

lemma cuts_ok_below: "cuts_ok blake3 nxt ks \<Longrightarrow> k \<in> set ks \<Longrightarrow> knum k \<le> knum (last ks) \<and> knum k < nxt"
proof -
  assume a: "cuts_ok blake3 nxt ks" "k \<in> set ks"
  then have ne: "ks \<noteq> []" by auto
  obtain i where i: "i < length ks" "k = ks ! i" using a(2) by (auto simp: in_set_conv_nth)
  have "i = length ks - 1 \<or> knum (ks ! i) < knum (ks ! (length ks - 1))"
    using a(1) i(1) sorted_wrt_nth_less [of "(<)" "map knum ks" i "length ks - 1"] by (cases "i = length ks - 1") (auto simp: cuts_ok_def)
  then show "knum k \<le> knum (last ks) \<and> knum k < nxt" using a(1) ne i by (auto simp: cuts_ok_def last_conv_nth)
qed

lemma learn_agrees:
  assumes "agrees T h" "host_ok vt blake3 h'" "numbered_from h h'"
  shows "agrees (learn T h') h'"
proof -
  have ks: "cuts_ok blake3 (next_num h') (cuts h')" using assms(2) by (simp add: host_ok_def)
  then have dist: "distinct (map knum (cuts h'))" by (simp add: cuts_ok_def strict_sorted_iff)
  have m: "map_of (map (\<lambda>k. (knum k, cut_state k)) (cuts h')) (knum k) = Some (cut_state k)" if "k \<in> set (cuts h')" for k
    using dist that by (intro map_of_is_SomeI) (auto simp: comp_def)
  have "learn T h' (knum k) = Some (cut_state k)" if k: "k \<in> set (cuts h')" for k
  proof (cases "T (knum k)")
    case None
    then show ?thesis using m [OF k] by (simp add: learn_def)
  next
    case (Some s)
    then have "knum k < next_num h" using assms(1) by (simp add: agrees_def)
    then have "T (knum k) = Some (cut_state k)" using assms(1,3) k by (fastforce simp: agrees_def numbered_from_def)
    then show ?thesis by (rule learn_keeps)
  qed
  moreover have "0 < n \<and> n < next_num h' \<and> screen_ok s" if l: "learn T h' n = Some s" for n s
  proof (cases "T n")
    case None
    then obtain k where "k \<in> set (cuts h')" "n = knum k" "s = cut_state k" using l by (auto simp: learn_def dest!: map_of_SomeD)
    then show ?thesis using cuts_ok_below [OF ks] ks by (auto simp: cuts_ok_def)
  next
    case (Some s')
    then have "0 < n" "n < next_num h" "screen_ok s" using l assms(1) by (auto simp: learn_def agrees_def)
    then show ?thesis using assms(3) by (simp add: numbered_from_def)
  qed
  ultimately show ?thesis by (simp add: agrees_def)
qed

lemma base_cut_Some: "base_cut base n ks = Some b \<Longrightarrow> b \<in> set ks \<and> knum b = base \<and> base \<noteq> 0 \<and> base < n"
  by (auto simp: base_cut_def find_Some_iff knum_def)

lemma update_since_ok:
  assumes "host_ok vt blake3 h" "agrees T h"
  obtains res h' where "update_since vt blake3 base h = Some (res, h')" "host_ok vt blake3 h'" "\<not> dirty h'"
    "agrees (learn T h') h'" "numbered_from h h'"
    "res = None \<Longrightarrow> base = knum (last (cuts h'))"
    "\<And>u. res = Some u \<Longrightarrow> genuine blake3 (learn T h') u \<and> new_num u = knum (last (cuts h')) \<and> base_num u \<in> {0, base}"
proof -
  obtain info h' where cut: "cut_screen vt blake3 h = (info, h')" by fastforce
  have h': "host_ok vt blake3 h'" "\<not> dirty h'" "cut_info (last (cuts h')) = info" "numbered_from h h'"
    using cut_screen_ok [OF assms(1) cut] by simp_all
  have ne: "cuts h' \<noteq> []" using h'(1,2) by (simp add: host_ok_def)
  have T: "agrees (learn T h') h'" by (rule learn_agrees [OF assms(2) h'(1,4)])
  have last: "last (cuts h') \<in> set (cuts h')" "knum (last (cuts h')) = si_num info" using ne h'(3) by (simp_all add: knum_def)
  let ?new = "cut_state (last (cuts h'))"
  have new: "screen_ok ?new" "screen_is_valid ?new" "si_hash info = state_hash_of blake3 ?new" "0 < si_num info"
    using h'(1,3) last by (auto simp: host_ok_def cuts_ok_def screen_ok_def)
  show ?thesis
  proof (cases "base = si_num info")
    case True
    then have "update_since vt blake3 base h = Some (None, h')" using cut by (simp add: update_since_def)
    then show ?thesis using that [of None h'] h' T True last(2) by simp
  next
    case False
    obtain b st effs where b: "update_base base info ?new h' = Some (b, st, effs)" "screen_is_valid st" "list_all effect_ok effs"
        "b \<in> {0, base}" "b < si_num info" "if b = 0 then blank (rows ?new) (cols ?new) = Inr st else learn T h' b = Some st"
    proof (cases "base_cut base (si_num info) (cuts h')")
      case None
      obtain bl where bl: "blank (rows ?new) (cols ?new) = Inr bl" "screen_ok bl"
        using blank_Inr [of "rows ?new" "cols ?new"] new(2) by (auto simp: screen_is_valid_def)
      have "list_all effect_ok (case last_title h' of Some t \<Rightarrow> [Title t] | None \<Rightarrow> [])"
        using h'(1) by (auto simp: host_ok_def split: option.splits)
      then show ?thesis
        using that [of 0 bl] None bl new(4) by (simp add: update_base_def screen_ok_def)
    next
      case (Some k)
      note k = base_cut_Some [OF Some]
      have "list_all effect_ok (map snd (filter (\<lambda>(n, _). n > base) (effect_log h')))"
        using h'(1) by (fastforce simp: host_ok_def log_ok_def list_all_iff)
      moreover have "screen_is_valid (cut_state k)" using h'(1) k by (auto simp: host_ok_def cuts_ok_def screen_ok_def)
      ultimately show ?thesis
        using that [of base "cut_state k"] Some k T by (auto simp: update_base_def agrees_def)
    qed
    obtain d where d: "diff_between st ?new = Some (Inr d)" "diff_apply d st = Some (Inr ?new)" "diff_ok d" "d_rows d = rows ?new" "d_cols d = cols ?new"
      using between_apply [OF b(2) new(2)] new(1) by auto
    define u where "u = \<lparr>base_num = b, new_num = si_num info, output_seq = si_output_seq info, diff = d, effects = effs, state_hash = si_hash info\<rparr>"
    have "update_since vt blake3 base h = Some (Some u, h')" using cut False ne b(1) d(1) by (simp add: update_since_def u_def)
    moreover have "learn T h' (si_num info) = Some ?new" using T last by (auto simp: agrees_def)
    then have "genuine blake3 (learn T h') u"
      unfolding genuine_def u_def by (intro exI [of _ ?new] exI [of _ st]) (use b d new(3) in simp)
    ultimately show ?thesis using that [of "Some u" h'] h' T b(4) last(2) by (simp add: u_def)
  qed
qed

end
