(* ===== verification/Screen_Sync.thy ===== *)
theory Screen_Sync
  imports Screen_Client Host_Guarantees
begin

text \<open>
  Host and client together. The host takes input, numbers states and issues updates from any base; any
  update it ever issued may reach the client later, at any time, several times or never, on either
  carrier. The system carries the record of every state the host numbered, which no operation reads.
\<close>

section \<open>The system\<close>

record 'e sync =
  sy_host :: "'e host_screen"
  sy_client :: client_screen
  sy_sent :: "screen_update list"
  sy_truth :: truth

inductive sync_reach :: "'e vt100 \<Rightarrow> (bytes \<Rightarrow> bytes) \<Rightarrow> screen_options \<Rightarrow> 'e sync \<Rightarrow> bool"
  for vt blake3 options where
  start: "sync_reach vt blake3 options
    \<lparr>sy_host = host_new vt options, sy_client = client_new, sy_sent = [], sy_truth = Map.empty\<rparr>"
| input: "sync_reach vt blake3 options s \<Longrightarrow> sync_reach vt blake3 options (s\<lparr>sy_host := host_step vt i (sy_host s)\<rparr>)"
| number: "sync_reach vt blake3 options s \<Longrightarrow> cut_screen vt blake3 (sy_host s) = (info, h) \<Longrightarrow>
    sync_reach vt blake3 options (s\<lparr>sy_host := h, sy_truth := learn (sy_truth s) h\<rparr>)"
| send: "sync_reach vt blake3 options s \<Longrightarrow> update_since vt blake3 base (sy_host s) = Some (res, h) \<Longrightarrow>
    sync_reach vt blake3 options
      (s\<lparr>sy_host := h, sy_truth := learn (sy_truth s) h,
         sy_sent := (case res of Some u \<Rightarrow> u # sy_sent s | None \<Rightarrow> sy_sent s)\<rparr>)"
| deliver: "sync_reach vt blake3 options s \<Longrightarrow> u \<in> set (sy_sent s) \<Longrightarrow> apply_via blake3 u v (sy_client s) = Some (out, c) \<Longrightarrow>
    sync_reach vt blake3 options (s\<lparr>sy_client := c\<rparr>)"

section \<open>The client\<close>

definition holds_truth :: "truth \<Rightarrow> client_screen \<Rightarrow> bool" where
  "holds_truth T c \<longleftrightarrow> (\<forall>(n, s) \<in> set (history c). T n = Some s) \<and> (awaiting_full c \<longrightarrow> history c = [])
     \<and> length (history c) \<le> RETAINED_STATES"

lemma find_Some_key: "find (\<lambda>(n, _). n = m) xs = Some p \<Longrightarrow> p \<in> set xs \<and> fst p = m"
  by (auto simp: find_Some_iff in_set_conv_nth)

lemma apply_genuine:
  assumes "genuine blake3 T u" "Inr b = (if base_num u = 0 then blank (d_rows (diff u)) (d_cols (diff u)) else Inr b)"
    and "base_num u \<noteq> 0 \<Longrightarrow> T (base_num u) = Some b"
  obtains s where "update_apply blake3 u b = Some (Inr s)" "T (new_num u) = Some s"
  using assms by (auto simp: genuine_def update_apply_def split: if_splits)

lemma apply_via_genuine:
  assumes "genuine blake3 T u" "holds_truth T c"
  obtains out c' where "apply_via blake3 u v c = Some (out, c')" "holds_truth T c'"
    "out \<noteq> Resync HashDiffers" "out \<noteq> Resync BadDiff" "out \<noteq> Partial"
    "\<And>n sq es. out = Applied n sq es \<Longrightarrow> n = new_num u \<and> es = effects u \<and> client_num c' = n \<and> client_state c' = T n"
    "base_num u = 0 \<or> \<not> awaiting_full c \<and> base_num u \<in> fst ` set (history c) \<Longrightarrow>
     client_num c < new_num u \<or> base_num u = 0 \<and> client_num c = new_num u \<Longrightarrow>
     out = Applied (new_num u) (output_seq u) (effects u)"
proof -
  let ?old = "client_num c \<noteq> 0 \<and> (new_num u < client_num c \<or> base_num u \<noteq> 0 \<and> new_num u = client_num c)"
  consider (wait) "awaiting_full c \<and> base_num u \<noteq> 0" | (stale) "\<not> (awaiting_full c \<and> base_num u \<noteq> 0)" ?old
    | (base) "\<not> (awaiting_full c \<and> base_num u \<noteq> 0)" "\<not> ?old" by blast
  then show ?thesis
  proof cases
    case wait
    then show ?thesis using that [of Ignored c] assms(2) by (simp add: apply_via_def)
  next
    case stale
    then have "apply_via blake3 u v c = Some (Stale (client_num c), c)" by (auto simp: apply_via_def Let_def)
    then show ?thesis using that [of "Stale (client_num c)" c] assms(2) stale(2) by auto
  next
    case base
    then have ap: "apply_via blake3 u v c = (case client_base u v c of Inl res \<Rightarrow> Some res
      | Inr b \<Rightarrow> (case update_apply blake3 u b of None \<Rightarrow> None
          | Some (Inr s) \<Rightarrow> Some (Applied (new_num u) (output_seq u) (effects u),
                c\<lparr>history := keep_last RETAINED_STATES (history c @ [(new_num u, s)]), cl_output_seq := output_seq u,
                  awaiting_full := False, cl_applied := cl_applied c + 1\<rparr>)
          | Some (Inl e) \<Rightarrow> Some (resync (if e = HashMismatch then HashDiffers else BadDiff) c)))"
      by (auto simp: apply_via_def Let_def)
    show ?thesis
    proof (cases "base_num u \<noteq> 0 \<and> find (\<lambda>(n, _). n = base_num u) (history c) = None")
      case True
      then have res: "apply_via blake3 u v c = Some (if v = ViaDatagram then (Stale (client_num c), c) else resync BaseMismatch c)"
        by (simp add: ap client_base_def)
      have held: "holds_truth T (snd (resync BaseMismatch c))" by (simp add: holds_truth_def resync_def)
      have miss: "base_num u \<notin> fst ` set (history c)" "base_num u \<noteq> 0" using True by (auto simp: find_None_iff)
      show ?thesis
      proof (cases "v = ViaDatagram")
        case dg: True
        show ?thesis by (rule that [of "Stale (client_num c)" c]) (use res dg assms(2) miss in simp_all)
      next
        case st: False
        show ?thesis
          by (rule that [of "Resync BaseMismatch" "snd (resync BaseMismatch c)"])
            (use res st held miss in \<open>simp_all add: resync_def\<close>)
      qed
    next
      case False
      obtain b where b: "client_base u v c = Inr b"
          "Inr b = (if base_num u = 0 then blank (d_rows (diff u)) (d_cols (diff u)) else Inr b)" "base_num u \<noteq> 0 \<Longrightarrow> T (base_num u) = Some b"
      proof (cases "base_num u = 0")
        case True
        then obtain bl where "blank (d_rows (diff u)) (d_cols (diff u)) = Inr bl" using assms(1) by (auto simp: genuine_def)
        then show ?thesis using that [of bl] True by (simp add: client_base_def)
      next
        case nz: False
        then obtain p where p: "find (\<lambda>(n, _). n = base_num u) (history c) = Some p" using False by auto
        have "T (base_num u) = Some (snd p)" using find_Some_key [OF p] assms(2) by (cases p) (auto simp: holds_truth_def)
        then show ?thesis using that [of "snd p"] nz p by (cases p) (simp add: client_base_def)
      qed
      obtain s where s: "update_apply blake3 u b = Some (Inr s)" "T (new_num u) = Some s" by (rule apply_genuine [OF assms(1) b(2,3)])
      let ?c = "c\<lparr>history := keep_last RETAINED_STATES (history c @ [(new_num u, s)]), cl_output_seq := output_seq u,
                  awaiting_full := False, cl_applied := cl_applied c + 1\<rparr>"
      have res: "apply_via blake3 u v c = Some (Applied (new_num u) (output_seq u) (effects u), ?c)" by (simp add: ap b(1) s(1))
      obtain ys where ys: "keep_last RETAINED_STATES (history c @ [(new_num u, s)]) = ys @ [(new_num u, s)]" "set ys \<subseteq> set (history c)"
        using keep_last_snoc [of RETAINED_STATES "history c" "(new_num u, s)"] by (auto simp: RETAINED_STATES_def)
      have "length (ys @ [(new_num u, s)]) \<le> RETAINED_STATES"
        using keep_last_length [of RETAINED_STATES "history c @ [(new_num u, s)]"] by (simp add: ys(1))
      then have "holds_truth T ?c" using ys s(2) assms(2) by (auto simp: holds_truth_def)
      then show ?thesis using that [OF res] s(2) by (simp add: ys(1) client_num_def client_state_def)
    qed
  qed
qed

section \<open>The invariant\<close>

definition sync_ok :: "'e vt100 \<Rightarrow> (bytes \<Rightarrow> bytes) \<Rightarrow> 'e sync \<Rightarrow> bool" where
  "sync_ok vt blake3 s \<longleftrightarrow> host_ok vt blake3 (sy_host s) \<and> agrees (sy_truth s) (sy_host s)
     \<and> (\<forall>u \<in> set (sy_sent s). genuine blake3 (sy_truth s) u) \<and> holds_truth (sy_truth s) (sy_client s)"

lemma holds_truth_learn: "holds_truth T c \<Longrightarrow> holds_truth (learn T h) c"
  by (auto simp: holds_truth_def intro: learn_keeps)

lemma sync_inv:
  assumes "vt_sized vt" "sync_reach vt blake3 options s"
  shows "sync_ok vt blake3 s"
  using assms(2)
proof (induction rule: sync_reach.induct)
  case start
  then show ?case using host_new_ok [OF assms(1)]
    by (auto simp: sync_ok_def agrees_def holds_truth_def client_new_def host_new_def Let_def)
next
  case (input s i)
  then have h: "host_ok vt blake3 (sy_host s)" by (simp add: sync_ok_def)
  show ?case using input host_step_ok [OF assms(1) h, of i] by (auto simp: sync_ok_def agrees_def same_states_def)
next
  case (number s info h)
  then have h: "host_ok vt blake3 (sy_host s)" by (simp add: sync_ok_def)
  have c: "host_ok vt blake3 h" "numbered_from (sy_host s) h" using cut_screen_ok [OF h number(2)] by simp_all
  show ?case using number.IH c learn_agrees [OF _ c, of "sy_truth s"] by (auto simp: sync_ok_def intro: genuine_learn holds_truth_learn)
next
  case (send s base res h)
  then have s: "host_ok vt blake3 (sy_host s)" "agrees (sy_truth s) (sy_host s)" by (simp_all add: sync_ok_def)
  obtain res' h' where u: "update_since vt blake3 base (sy_host s) = Some (res', h')" "host_ok vt blake3 h'"
      "agrees (learn (sy_truth s) h') h'" "\<And>u. res' = Some u \<Longrightarrow> genuine blake3 (learn (sy_truth s) h') u"
    by (rule update_since_ok [OF s]) blast
  then have eq: "res = res'" "h = h'" using send(2) by simp_all
  have "holds_truth (learn (sy_truth s) h') (sy_client s)" "\<forall>u \<in> set (sy_sent s). genuine blake3 (learn (sy_truth s) h') u"
    using send.IH by (auto simp: sync_ok_def intro: genuine_learn holds_truth_learn)
  then show ?case using u by (auto simp: sync_ok_def eq split: option.splits)
next
  case (deliver s u v out c)
  then have g: "genuine blake3 (sy_truth s) u" "holds_truth (sy_truth s) (sy_client s)" by (simp_all add: sync_ok_def)
  obtain out' c' where "apply_via blake3 u v (sy_client s) = Some (out', c')" "holds_truth (sy_truth s) c'"
    by (rule apply_via_genuine [OF g, of v]) blast
  then show ?case using deliver by (simp add: sync_ok_def)
qed

lemma client_num_key: "client_num c \<noteq> 0 \<Longrightarrow> client_num c \<in> fst ` set (history c)"
  by (auto simp: client_num_def)

lemma client_holds: "holds_truth T c \<Longrightarrow> client_num c \<noteq> 0 \<Longrightarrow> client_state c = T (client_num c) \<and> T (client_num c) \<noteq> None"
proof -
  assume a: "holds_truth T c" "client_num c \<noteq> 0"
  then have "last (history c) \<in> set (history c)" by (cases "history c = []") (simp_all add: client_num_def)
  then have "T (fst (last (history c))) = Some (snd (last (history c)))" using a(1) by (auto simp: holds_truth_def)
  then show ?thesis using a(2) by (auto simp: client_num_def client_state_def)
qed

end
