(* ===== verification/Sync_Guarantees.thy ===== *)
theory Sync_Guarantees
  imports Screen_Sync
begin

text \<open>
  What screen synchronisation guarantees: the client's states are the host's whatever the network does,
  the client converges, the stream carries an update whole, and the one kind of update the host can issue
  that no client decodes.
\<close>

section \<open>An emulator for the examples\<close>

text \<open>It shows nothing, keeps its size, and for every byte rings the bell and clears the clipboard.\<close>

definition bell_screen :: "nat \<Rightarrow> nat \<Rightarrow> vt_screen" where
  "bell_screen r c = \<lparr>vs_rows = r, vs_cols = c, vs_cell = (\<lambda>_ _. None), vs_wrapped = (\<lambda>_. False), vs_cursor_row = 0, vs_cursor_col = 0,
     vs_alternate = False, vs_hide_cursor = False, vs_app_cursor = False, vs_app_keypad = False, vs_bracketed_paste = False,
     vs_mouse_mode = MouseNone, vs_mouse_encoding = EncDefault\<rparr>"

definition bell_vt :: "(nat \<times> nat) vt100" where
  "bell_vt = \<lparr>vt_new = Pair, vt_process = (\<lambda>bs e. (e, concat (replicate (length bs) [AudibleBell, CopyToClipboard [] []]))),
     vt_set_size = (\<lambda>r c e. ((r, c), [])), vt_screen = (\<lambda>(r, c). bell_screen r c)\<rparr>"

lemma bell_vt_sized: "vt_sized bell_vt"
  by (simp add: vt_sized_def vt_size_def bell_vt_def bell_screen_def split: prod.split)

definition small :: screen_options where
  "small = \<lparr>opt_rows = 1, opt_cols = 1, opt_history_rows = 0, opt_history_bytes = 0\<rparr>"

text \<open>A first exchange: the host sends its screen and the client applies it.\<close>

lemma first_exchange: "\<exists>s. sync_reach bell_vt blake3 small s \<and> history (sy_client s) \<noteq> [] \<and> sy_sent s \<noteq> []"
proof -
  let ?s = "\<lparr>sy_host = host_new bell_vt small, sy_client = client_new, sy_sent = [], sy_truth = Map.empty\<rparr>"
  have r: "sync_reach bell_vt blake3 small ?s" by (rule sync_reach.start)
  note ok = sync_inv [OF bell_vt_sized r, unfolded sync_ok_def, simplified]
  obtain res h where u: "update_since bell_vt blake3 0 (sy_host ?s) = Some (res, h)" "host_ok bell_vt blake3 h" "\<not> dirty h"
      "res = None \<Longrightarrow> 0 = knum (last (cuts h))"
      "\<And>u. res = Some u \<Longrightarrow> genuine blake3 (learn Map.empty h) u \<and> base_num u = 0"
    by (rule update_since_ok [of bell_vt blake3 "sy_host ?s" Map.empty 0]) (use ok in auto)
  have "0 < knum (last (cuts h))" using u(2,3) by (auto simp: host_ok_def cuts_ok_def)
  then obtain up where up: "res = Some up" "genuine blake3 (learn Map.empty h) up" "base_num up = 0" using u(4,5) by (cases res) auto
  let ?s1 = "?s\<lparr>sy_host := h, sy_truth := learn (sy_truth ?s) h, sy_sent := [up]\<rparr>"
  have r1: "sync_reach bell_vt blake3 small ?s1" using sync_reach.send [OF r u(1)] up(1) by simp
  have T: "holds_truth (learn Map.empty h) client_new" by (simp add: holds_truth_def client_new_def)
  have new: "client_num client_new < new_num up" "0 < new_num up" using up(2) by (auto simp: genuine_def client_num_def client_new_def)
  obtain out c where c: "apply_via blake3 up ViaStream client_new = Some (out, c)" "client_num c = new_num up"
    using apply_via_genuine [OF up(2) T, of ViaStream thesis for thesis] up(3) new(1) by metis
  have "history c \<noteq> []" using c(2) new(2) by (auto simp: client_num_def)
  moreover have "sync_reach bell_vt blake3 small (?s1\<lparr>sy_client := c\<rparr>)" by (rule sync_reach.deliver [OF r1, of up ViaStream out]) (use c(1) in simp_all)
  ultimately show ?thesis by (intro exI [of _ "?s1\<lparr>sy_client := c\<rparr>"]) simp
qed

section \<open>Properties\<close>

text \<open>
  C4. Screen synchronisation is faithful under any network: after any interleaving of terminal output,
  resizes, numbering, updates from any base, and deliveries in any order, repeated or lost, on either
  carrier, every state the client retains under a number is exactly the state the host gave that number;
  and every update the host ever issued, whenever it arrives, is handled without a panic, and neither its
  difference nor its hash is ever found wrong.
\<close>

theorem screen_sync_faithful:
  assumes "vt_sized vt" "sync_reach vt blake3 options s"
  shows "(\<forall>(n, st) \<in> set (history (sy_client s)). sy_truth s n = Some st)
    \<and> (\<forall>k \<in> set (cuts (sy_host s)). sy_truth s (si_num (cut_info k)) = Some (cut_state k))
    \<and> (\<forall>u \<in> set (sy_sent s). \<forall>v. \<exists>out c. apply_via blake3 u v (sy_client s) = Some (out, c)
         \<and> out \<noteq> Resync HashDiffers \<and> out \<noteq> Resync BadDiff)"
proof -
  have ok: "sync_ok vt blake3 s" by (rule sync_inv [OF assms])
  have "\<exists>out c. apply_via blake3 u v (sy_client s) = Some (out, c) \<and> out \<noteq> Resync HashDiffers \<and> out \<noteq> Resync BadDiff"
    if "u \<in> set (sy_sent s)" for u v
  proof -
    have "genuine blake3 (sy_truth s) u" "holds_truth (sy_truth s) (sy_client s)" using ok that by (simp_all add: sync_ok_def)
    then show ?thesis by (rule apply_via_genuine [of _ _ _ _ v]) blast
  qed
  then show ?thesis using ok by (auto simp: sync_ok_def holds_truth_def agrees_def knum_def)
qed

theorem screen_sync_faithful_witness:
  "vt_sized bell_vt \<and> (\<exists>s. sync_reach bell_vt id small s \<and> history (sy_client s) \<noteq> [] \<and> sy_sent s \<noteq> []
    \<and> list_all (\<lambda>(n, st). sy_truth s n = Some st) (history (sy_client s))
    \<and> list_all (\<lambda>u. \<forall>v. \<exists>out c. apply_via id u v (sy_client s) = Some (out, c)
         \<and> out \<noteq> Resync HashDiffers \<and> out \<noteq> Resync BadDiff) (sy_sent s))"
proof -
  obtain s where s: "sync_reach bell_vt id small s" "history (sy_client s) \<noteq> []" "sy_sent s \<noteq> []" using first_exchange by blast
  show ?thesis using screen_sync_faithful [OF bell_vt_sized s(1)] s bell_vt_sized unfolding list_all_iff by blast
qed



section \<open>The stream carries updates\<close>

fun on_parts :: "(bytes \<Rightarrow> bytes) \<Rightarrow> screen_part list \<Rightarrow> client_screen
    \<Rightarrow> ((screen_protocol_error + screen_outcome) list \<times> client_screen) option" where
  "on_parts blake3 [] c = Some ([], c)"
| "on_parts blake3 (p # ps) c =
     (case on_part blake3 p c of
        None \<Rightarrow> None
      | Some (a, c) \<Rightarrow> (case on_parts blake3 ps c of None \<Rightarrow> None | Some (as, c) \<Rightarrow> Some (a # as, c)))"

lemma apply_via_parts:
  "apply_via blake3 u v (c\<lparr>cl_parts := r\<rparr>) = map_option (\<lambda>(out, c). (out, c\<lparr>cl_parts := r\<rparr>)) (apply_via blake3 u v c)"
proof -
  have n: "client_num (c\<lparr>cl_parts := r\<rparr>) = client_num c" by (simp add: client_num_def)
  have b: "client_base u v (c\<lparr>cl_parts := r\<rparr>) = map_sum (\<lambda>(out, c). (out, c\<lparr>cl_parts := r\<rparr>)) id (client_base u v c)"
    by (simp add: client_base_def n resync_def split: sum.split option.split)
  show ?thesis unfolding apply_via_def n b Let_def
    by (cases "client_base u v c") (auto simp: resync_def split: option.split sum.split prod.split)
qed

lemma on_parts_whole:
  assumes "re_run ps (cl_parts c) = (replicate k (Inr None) @ [Inr (Some enc)], re_new)" "update_decode enc = Inr u"
    and "client_apply blake3 u c = Some (out, c')"
  shows "on_parts blake3 ps c = Some (replicate k (Inr Partial) @ [Inr out], c'\<lparr>cl_parts := re_new\<rparr>)"
  using assms
proof (induction k arbitrary: ps c c')
  case 0
  then obtain p where p: "ps = [p]" "re_push p (cl_parts c) = (Inr (Some enc), re_new)"
    by (cases ps; cases "tl ps") (auto simp: Let_def split: prod.splits)
  then show ?case using 0 by (simp add: on_part_def client_apply_def apply_via_parts)
next
  case (Suc k)
  then obtain p qs r where p: "ps = p # qs" "re_push p (cl_parts c) = (Inr None, r)"
      "re_run qs r = (replicate k (Inr None) @ [Inr (Some enc)], re_new)"
    by (cases ps) (auto simp: Let_def split: prod.splits)
  have "client_apply blake3 u (c\<lparr>cl_parts := r\<rparr>) = Some (out, c'\<lparr>cl_parts := r\<rparr>)"
    using Suc.prems(3) by (simp add: client_apply_def apply_via_parts)
  from Suc.IH [OF _ assms(2) this, of qs] show ?case using p by (simp add: on_part_def)
qed


section \<open>Effects beyond the wire format\<close>

lemma update_decode_many:
  assumes "base_num u < new_num u" "new_num u < 2 ^ 64" "output_seq u < 2 ^ 64" "length (state_hash u) = HASH_LEN"
    and "MAX_EFFECTS < length (effects u)" "length (effects u) < 2 ^ 64"
  shows "\<exists>e. update_decode (update_encode u) = Inl e"
proof (cases "update_decode (update_encode u)")
  case (Inr v)
  then have v: "update_encode v = update_encode u" "update_ok v" using update_encode_decode by blast+
  have num: "x = y \<and> r = r'" if "put_varint x @ r = put_varint y @ r'" "x < 2 ^ 64" "y < 2 ^ 64" for x y :: nat and r r'
    using that get_varint_exact [of "put_varint x @ r" x r] get_varint_exact [of "put_varint x @ r" y r'] by auto
  define ru rv where "ru = concat (map put_effect (effects u)) @ put_diff (diff u)" and "rv = concat (map put_effect (effects v)) @ put_diff (diff v)"
  have lim: "base_num v < 2 ^ 64" "new_num v < 2 ^ 64" "output_seq v < 2 ^ 64" "length (effects v) < 2 ^ 64" "length (state_hash v) = HASH_LEN"
    using v(2) by (auto simp: update_ok_def MAX_EFFECTS_def)
  have "put_varint (base_num v) @ put_varint (new_num v) @ put_varint (output_seq v) @ state_hash v @ put_varint (length (effects v)) @ rv
      = put_varint (base_num u) @ put_varint (new_num u) @ put_varint (output_seq u) @ state_hash u @ put_varint (length (effects u)) @ ru"
    using v(1) by (simp add: update_encode_def ru_def rv_def)
  from num [OF this] have "put_varint (new_num v) @ put_varint (output_seq v) @ state_hash v @ put_varint (length (effects v)) @ rv
      = put_varint (new_num u) @ put_varint (output_seq u) @ state_hash u @ put_varint (length (effects u)) @ ru"
    using lim assms(1,2) by auto
  from num [OF this] have "put_varint (output_seq v) @ state_hash v @ put_varint (length (effects v)) @ rv
      = put_varint (output_seq u) @ state_hash u @ put_varint (length (effects u)) @ ru"
    using lim assms(2) by auto
  from num [OF this] have "state_hash v @ put_varint (length (effects v)) @ rv = state_hash u @ put_varint (length (effects u)) @ ru"
    using lim assms(3) by auto
  then have "put_varint (length (effects v)) @ rv = put_varint (length (effects u)) @ ru" using lim(5) assms(4) by auto
  from num [OF this] have "length (effects v) = length (effects u)" using lim(4) assms(6) by auto
  then show ?thesis using v(2) assms(5) by (simp add: update_ok_def)
qed simp

definition noise :: "nat \<Rightarrow> vt_event list" where
  "noise n = concat (replicate n [AudibleBell, CopyToClipboard [] []])"

definition noise_effects :: "nat \<Rightarrow> effect list" where
  "noise_effects n = concat (replicate n [Bell, Clipboard [] []])"

lemma noise_effects_length: "length (noise_effects n) = 2 * n"
  by (induction n) (simp_all add: noise_effects_def)

lemma collect_noise:
  assumes "col_effects c = [] \<or> last (col_effects c) \<noteq> Bell" "length (col_effects c) + 2 * n \<le> MAX_EFFECTS"
  shows "fold collect (noise n) c = c\<lparr>col_effects := col_effects c @ noise_effects n\<rparr>"
  using assms
proof (induction n arbitrary: c)
  case 0
  then show ?case by (simp add: noise_def noise_effects_def)
next
  case (Suc n)
  let ?c = "c\<lparr>col_effects := col_effects c @ [Bell, Clipboard [] []]\<rparr>"
  have u: "utf8_bytes []" by (simp add: utf8_bytes_def utf8_valid.simps)
  have "collect (CopyToClipboard [] []) (collect AudibleBell c) = ?c"
    using Suc.prems u
    by (auto simp: push_effect_def copy_to_clipboard_def MAX_EFFECTS_def MAX_CLIPBOARD_BYTES_def selection_text_def base64_text_def)
  then show ?case using Suc.IH [of ?c] Suc.prems(2) by (simp add: noise_def noise_effects_def)
qed

definition shout :: bytes where
  "shout = replicate 20 65"

lemma bell_feed:
  assumes "vs16 h = vs16_default" "col_effects (callbacks h) = []"
  shows "feed_output bell_vt shout n h = h\<lparr>callbacks := (callbacks h)\<lparr>col_effects := noise_effects 20\<rparr>, fed_seq := n, dirty := True\<rparr>"
proof -
  have "vs16_run shout (vs16 h) = (shout, vs16 h)" using assms(1) by (simp add: vs16_run_def vs16_default_def shout_def VS16_SEQ_def)
  moreover have "chunks FEED_SLICE shout = [shout]" by (simp add: chunks.simps FEED_SLICE_def shout_def)
  moreover have "vt_process bell_vt shout e = (e, noise 20)" for e by (simp add: bell_vt_def shout_def noise_def)
  moreover have "fold collect (noise 20) (callbacks h) = (callbacks h)\<lparr>col_effects := noise_effects 20\<rparr>"
    using collect_noise [of "callbacks h" 20] assms(2) by (simp add: MAX_EFFECTS_def)
  ultimately show ?thesis by (simp add: feed_output_def absorb_def)
qed

text \<open>A host that numbers its screen, is shouted at, numbers it again, and is shouted at again.\<close>

definition still :: screen_state where
  "still = state_of (bell_screen 1 1)"

definition still_cut :: "(bytes \<Rightarrow> bytes) \<Rightarrow> nat \<Rightarrow> nat \<Rightarrow> cut" where
  "still_cut blake3 n sq = \<lparr>cut_info = \<lparr>si_num = n, si_output_seq = sq, si_hash = state_hash_of blake3 still\<rparr>, cut_state = still\<rparr>"

definition bell_host :: "cut list \<Rightarrow> (nat \<times> effect) list \<Rightarrow> nat \<Rightarrow> nat \<Rightarrow> bool \<Rightarrow> effect list \<Rightarrow> (nat \<times> nat) host_screen" where
  "bell_host ks lg nxt sq d effs = \<lparr>parser = (1, 1), callbacks = (collector_new 0 0)\<lparr>col_effects := effs\<rparr>, cuts = ks, effect_log = lg,
     last_title = None, next_num = nxt, fed_seq = sq, dirty = d, vs16 = vs16_default\<rparr>"

lemma bell_host_new: "host_new bell_vt small = bell_host [] [] 1 0 True []"
  by (simp add: host_new_def small_def bell_host_def bell_vt_def collector_new_def size_is_valid_def MAX_DIM_def MAX_CELLS_def)

lemma bell_host_feed: "feed_output bell_vt shout n (bell_host ks lg nxt sq d []) = bell_host ks lg nxt n True (noise_effects 20)"
  by (subst bell_feed) (simp_all add: bell_host_def collector_new_def)

lemma title_after_noise: "title_after t (noise_effects n) = t"
  by (induction n) (simp_all add: noise_effects_def)

lemma bell_host_snapshot: "snapshot bell_vt (bell_host ks lg nxt sq d effs) = still"
  by (simp add: snapshot_def bell_host_def bell_vt_def still_def)

lemma bell_host_first: "cut_screen bell_vt blake3 (bell_host [] [] 1 0 True []) =
  (cut_info (still_cut blake3 1 0), bell_host [still_cut blake3 1 0] [] 2 0 False [])"
  unfolding cut_screen_def Let_def snapshot_clean bell_host_snapshot
  by (simp add: new_cut_def Let_def bell_host_def still_cut_def keep_last_def RETAINED_STATES_def collector_new_def)

lemma bell_host_next:
  assumes "length ks < 7" "length lg \<le> 200" "\<forall>(n, e) \<in> set lg. n > si_num (cut_info k)" "si_num (cut_info k) < nxt"
  shows "cut_screen bell_vt blake3 (bell_host (k # ks) lg nxt sq True (noise_effects 20)) =
    (cut_info (still_cut blake3 nxt sq),
     bell_host (k # ks @ [still_cut blake3 nxt sq]) (lg @ map (Pair nxt) (noise_effects 20)) (nxt + 1) sq False [])"
proof -
  let ?lg = "lg @ map (Pair nxt) (noise_effects 20)"
  have ne: "noise_effects 20 \<noteq> []" using noise_effects_length [of 20] by (cases "noise_effects 20") auto
  have k1: "keep_last EFFECT_LOG_MAX ?lg = ?lg"
    using assms(2) noise_effects_length [of 20] by (simp add: keep_last_def EFFECT_LOG_MAX_def)
  have k2: "keep_last RETAINED_STATES (k # ks @ [c]) = k # ks @ [c]" for c
    using assms(1) by (simp add: keep_last_def RETAINED_STATES_def)
  have k3: "dropWhile (\<lambda>(n, _). n \<le> si_num (cut_info k)) ?lg = ?lg"
    using assms(3,4) by (intro dropWhile_id) (auto simp: hd_append hd_map ne dest: list.set_sel(1))
  show ?thesis
    unfolding cut_screen_def Let_def snapshot_clean bell_host_snapshot
    using ne by (simp add: new_cut_def Let_def bell_host_def title_after_noise k1 k2 k3 still_cut_def)
qed


lemma noise_encoded: "length (concat (map put_effect (noise_effects n))) = 4 * n"
  by (induction n) (simp_all add: noise_effects_def put_string_def put_varint.simps)

definition still_diff :: screen_diff where
  "still_diff = \<lparr>d_rows = 1, d_cols = 1, d_cursor_row = 0, d_cursor_col = 0, d_modes = modes still, d_changes = []\<rparr>"

lemma still_unchanged: "diff_between still still = Some (Inr still_diff)"
  by (simp add: diff_between_def still_def still_diff_def state_of_def bell_screen_def row_runs_def runs_from.simps)

definition loud_update :: "(bytes \<Rightarrow> bytes) \<Rightarrow> screen_update" where
  "loud_update blake3 = \<lparr>base_num = 1, new_num = 3, output_seq = 40, diff = still_diff, effects = noise_effects 20 @ noise_effects 20,
     state_hash = state_hash_of blake3 still\<rparr>"

lemma loud_update_sent: "\<exists>s. sync_reach bell_vt blake3 small s \<and> loud_update blake3 \<in> set (sy_sent s)"
proof -
  let ?k = "still_cut blake3" and ?E = "noise_effects 20"
  obtain s1 where s1: "sync_reach bell_vt blake3 small s1" "sy_host s1 = bell_host [?k 1 0] [] 2 0 False []"
    using sync_reach.number [OF sync_reach.start, of bell_vt blake3 small] bell_host_first [of blake3] by (fastforce simp: bell_host_new)
  obtain s2 where s2: "sync_reach bell_vt blake3 small s2" "sy_host s2 = bell_host [?k 1 0] [] 2 20 True ?E"
    using sync_reach.input [OF s1(1), of "Output shout 20"] s1(2) by (fastforce simp: bell_host_feed)
  have c2: "cut_screen bell_vt blake3 (sy_host s2) = (cut_info (?k 2 20), bell_host [?k 1 0, ?k 2 20] (map (Pair 2) ?E) 3 20 False [])"
    using bell_host_next [of "[]" "[]" "?k 1 0" 2 blake3 20] by (simp add: s2(2) still_cut_def)
  obtain s3 where s3: "sync_reach bell_vt blake3 small s3" "sy_host s3 = bell_host [?k 1 0, ?k 2 20] (map (Pair 2) ?E) 3 20 False []"
    using sync_reach.number [OF s2(1) c2] by fastforce
  obtain s4 where s4: "sync_reach bell_vt blake3 small s4" "sy_host s4 = bell_host [?k 1 0, ?k 2 20] (map (Pair 2) ?E) 3 40 True ?E"
    using sync_reach.input [OF s3(1), of "Output shout 40"] s3(2) by (fastforce simp: bell_host_feed)
  let ?h = "bell_host [?k 1 0, ?k 2 20, ?k 3 40] (map (Pair 2) ?E @ map (Pair 3) ?E) 4 40 False []"
  have c4: "cut_screen bell_vt blake3 (sy_host s4) = (cut_info (?k 3 40), ?h)"
    using bell_host_next [of "[?k 2 20]" "map (Pair 2) ?E" "?k 1 0" 3 blake3 40] noise_effects_length [of 20]
    by (auto simp: s4(2) still_cut_def)
  have "update_since bell_vt blake3 1 (sy_host s4) = Some (Some (loud_update blake3), ?h)"
    unfolding update_since_def c4
    by (simp add: bell_host_def update_base_def base_cut_def still_cut_def still_unchanged loud_update_def comp_def)
  from sync_reach.send [OF s4(1) this] show ?thesis by fastforce
qed

text \<open>
  C18. A limit of the host exceeds one of the wire: a host that follows its own rules can issue an update
  whose effects, gathered over several states, are more than the 64 the format allows. The update passes
  the sender's size check, and the client's handler fails on it with a protocol error, which ends the
  attachment.
\<close>

theorem screen_effects_overflow:
  assumes "\<forall>x. HASH_LEN \<le> length (blake3 x)"
  shows "\<exists>s u e c. sync_reach bell_vt blake3 small s \<and> u \<in> set (sy_sent s) \<and> length (update_encode u) \<le> MAX_UPDATE_BYTES
    \<and> MAX_EFFECTS < length (effects u)
    \<and> on_parts blake3 (parts_of (new_num u) (update_encode u)) (sy_client s) = Some ([Inl (BadUpdate e)], c)"
proof -
  let ?u = "loud_update blake3" and ?enc = "update_encode (loud_update blake3)"
  obtain s where s: "sync_reach bell_vt blake3 small s" "?u \<in> set (sy_sent s)" using loud_update_sent by blast
  have hash: "length (state_hash ?u) = HASH_LEN" using assms by (simp add: loud_update_def state_hash_of_def min_absorb2)
  have many: "length (effects ?u) = 80" using noise_effects_length [of 20] by (simp add: loud_update_def)
  obtain e where e: "update_decode ?enc = Inl e"
    using update_decode_many [of ?u] hash many by (auto simp: loud_update_def MAX_EFFECTS_def)
  have len: "length ?enc \<le> PART_MAX"
    using hash many noise_encoded [of 20]
    by (simp add: update_encode_def loud_update_def put_diff_def still_diff_def put_varint.simps HASH_LEN_def PART_MAX_def)
  then have fit: "length ?enc \<le> MAX_UPDATE_BYTES" by (simp add: PART_MAX_def MAX_UPDATE_BYTES_def)
  have one: "split_parts ?enc = [?enc]" using len by (auto simp: split_parts_def chunks.simps [of PART_MAX] PART_MAX_pos)
  obtain p where p: "parts_of (new_num ?u) ?enc = [p]" using parts_of_numbered [OF fit] one by (auto simp: part_run_def)
  have "re_push p (cl_parts (sy_client s)) = (Inr (Some ?enc), re_new)"
    using re_run_parts_of [OF fit, of "new_num ?u" "cl_parts (sy_client s)"] p one by (auto simp: Let_def split: prod.splits)
  then have "on_parts blake3 [p] (sy_client s) = Some ([Inl (BadUpdate e)], (sy_client s)\<lparr>cl_parts := re_new\<rparr>)"
    using e by (simp add: on_part_def)
  then show ?thesis using s p fit many by (intro exI [of _ s] exI [of _ ?u]) (auto simp: MAX_EFFECTS_def)
qed

theorem screen_effects_overflow_witness:
  "(\<forall>x. HASH_LEN \<le> length ((\<lambda>_. replicate 32 0) (x :: bytes) :: bytes))
   \<and> (\<exists>s u e c. sync_reach bell_vt (\<lambda>_. replicate 32 0) small s \<and> u \<in> set (sy_sent s) \<and> MAX_EFFECTS < length (effects u)
      \<and> on_parts (\<lambda>_. replicate 32 0) (parts_of (new_num u) (update_encode u)) (sy_client s) = Some ([Inl (BadUpdate e)], c))"
  using screen_effects_overflow [of "\<lambda>_. replicate 32 0"] by (auto simp: HASH_LEN_def)

lemma quiet_update_sent:
  "\<exists>s. sync_reach bell_vt blake3 small s \<and> \<lparr>base_num = 0, new_num = 1, output_seq = 0, diff = still_diff, effects = [],
     state_hash = state_hash_of blake3 still\<rparr> \<in> set (sy_sent s)"
proof -
  have "blank 1 1 = Inr still" "rows still = 1" "cols still = 1"
    by (simp_all add: blank_def still_def state_of_def bell_screen_def size_is_valid_def MAX_DIM_def MAX_CELLS_def modes_default_def)
  then have u: "update_since bell_vt blake3 0 (bell_host [] [] 1 0 True []) = Some (Some \<lparr>base_num = 0, new_num = 1, output_seq = 0,
      diff = still_diff, effects = [], state_hash = state_hash_of blake3 still\<rparr>, bell_host [still_cut blake3 1 0] [] 2 0 False [])"
    unfolding update_since_def bell_host_first
    by (simp add: bell_host_def update_base_def base_cut_def still_cut_def still_unchanged)
  let ?s = "\<lparr>sy_host = bell_host [] [] 1 0 True [], sy_client = client_new, sy_sent = [], sy_truth = Map.empty\<rparr>"
  have "sync_reach bell_vt blake3 small ?s" using sync_reach.start [of bell_vt blake3 small] by (simp add: bell_host_new)
  from sync_reach.send [OF this, of 0] u show ?thesis by fastforce
qed


end
