(* ===== verification/Invite_Code.thy ===== *)
theory Invite_Code
  imports Utf8_Chars
begin

text \<open>
  The display form of an invite secret (\<open>qsh-proto/src/pairing.rs\<close>): 160 bits as 32 symbols of Crockford
  Base32 in hyphenated groups of four, and the parser, which ignores hyphens and the case of a
  letter. A text is its bytes, a character its UTF-8 encoding, and the arrays of the source
  are lists of the array's length. The theorem says that the parser accepts exactly the spellings of a secret.
\<close>

unbundle bit_operations_syntax

section \<open>The code\<close>

definition INVITE_SECRET_LEN :: nat where
  "INVITE_SECRET_LEN = 20"

definition INVITE_CODE_SYMBOLS :: nat where
  "INVITE_CODE_SYMBOLS = 32"

definition GROUP_LEN :: nat where
  "GROUP_LEN = 4"

text \<open>The digits, then the letters without \<open>i\<close>, \<open>l\<close>, \<open>o\<close> and \<open>u\<close>.\<close>

definition ALPHABET :: bytes where
  "ALPHABET = [48, 49, 50, 51, 52, 53, 54, 55, 56, 57, 97, 98, 99, 100, 101, 102, 103, 104, 106, 107, 109, 110,
     112, 113, 114, 115, 116, 118, 119, 120, 121, 122]"

definition HYPHEN :: byte where
  "HYPHEN = 45"

definition secret_bit :: "bytes \<Rightarrow> nat \<Rightarrow> byte" where
  "secret_bit secret bit_pos = drop_bit (7 - bit_pos mod 8) (secret ! (bit_pos div 8)) AND 1"

definition symbol_value :: "bytes \<Rightarrow> nat \<Rightarrow> byte" where
  "symbol_value secret bit_pos = fold (\<lambda>k value. push_bit 1 value OR secret_bit secret (bit_pos + k)) [0..<5] 0"

definition encode_symbols :: "bytes \<Rightarrow> bytes" where
  "encode_symbols secret = map (\<lambda>i. ALPHABET ! unat (symbol_value secret (5 * i))) [0..<INVITE_CODE_SYMBOLS]"

definition encode_invite_code :: "bytes \<Rightarrow> bytes" where
  "encode_invite_code secret =
     concat (map (\<lambda>i. (if 0 < i then [HYPHEN] else []) @ take GROUP_LEN (drop (GROUP_LEN * i) (encode_symbols secret)))
       [0..<INVITE_CODE_SYMBOLS div GROUP_LEN])"

datatype invite_code_error = InvalidCharacter bytes | WrongLength nat

definition to_ascii_lowercase :: "bytes \<Rightarrow> bytes" where
  "to_ascii_lowercase c = (case c of [b] \<Rightarrow> [if 65 \<le> b \<and> b \<le> 90 then b + 32 else b] | _ \<Rightarrow> c)"

definition decode_symbol :: "bytes \<Rightarrow> byte option" where
  "decode_symbol c =
     (case c of
        [b] \<Rightarrow>
          (if 48 \<le> b \<and> b \<le> 57 then Some (b - 48)
           else if 97 \<le> b \<and> b \<le> 104 then Some (b - 97 + 10)
           else if b = 105 \<or> b = 108 then Some 1
           else if b = 106 then Some 18
           else if b = 107 then Some 19
           else if b = 109 then Some 20
           else if b = 110 then Some 21
           else if b = 111 then Some 0
           else if 112 \<le> b \<and> b \<le> 116 then Some (b - 112 + 22)
           else if b = 117 then None
           else if 118 \<le> b \<and> b \<le> 122 then Some (b - 118 + 27)
           else None)
      | _ \<Rightarrow> None)"

fun collect_symbols :: "bytes list \<Rightarrow> byte list \<Rightarrow> invite_code_error + byte list" where
  "collect_symbols [] symbols = Inr symbols"
| "collect_symbols (c # cs) symbols =
     (if c = [HYPHEN] then collect_symbols cs symbols
      else case decode_symbol (to_ascii_lowercase c) of
             None \<Rightarrow> Inl (InvalidCharacter c)
           | Some v \<Rightarrow>
               (let symbols' = symbols @ [v]
                in if INVITE_CODE_SYMBOLS < length symbols' then Inl (WrongLength (length symbols'))
                   else collect_symbols cs symbols'))"

definition write_bit :: "byte \<Rightarrow> nat \<Rightarrow> bytes \<times> nat \<Rightarrow> bytes \<times> nat" where
  "write_bit value shift st =
     (let (out, bit_pos) = st; i = bit_pos div 8
      in (out[i := out ! i OR push_bit (7 - bit_pos mod 8) (drop_bit shift value AND 1)], bit_pos + 1))"

definition write_symbol :: "byte \<Rightarrow> bytes \<times> nat \<Rightarrow> bytes \<times> nat" where
  "write_symbol value st = fold (write_bit value) [4, 3, 2, 1, 0] st"

definition parse_invite_code :: "bytes \<Rightarrow> invite_code_error + bytes" where
  "parse_invite_code input =
     and_then (collect_symbols (chars_lossy input) []) (\<lambda>symbols.
       if length symbols \<noteq> INVITE_CODE_SYMBOLS then Inl (WrongLength (length symbols))
       else Inr (fst (fold write_symbol symbols (replicate INVITE_SECRET_LEN 0, 0))))"

section \<open>Bits\<close>

text \<open>Bit \<open>p\<close> of a secret, counted from the most significant bit of its first byte.\<close>

definition sbit :: "bytes \<Rightarrow> nat \<Rightarrow> bool" where
  "sbit s p = bit (s ! (p div 8)) (7 - p mod 8)"

lemma bytes_eq_sbit:
  assumes "length s = n" "length t = n" "\<And>p. p < 8 * n \<Longrightarrow> sbit s p = sbit t p"
  shows "s = t"
proof (rule nth_equalityI)
  fix i assume i: "i < length s"
  show "s ! i = t ! i"
  proof (rule bit_word_eqI)
    fix k assume "k < LENGTH(8)"
    then have k: "k < 8" by simp
    have m7: "7 - k < 8" by simp
    have "sbit s (8 * i + (7 - k)) = sbit t (8 * i + (7 - k))" using assms i k by simp
    moreover have "(8 * i + m) div 8 = i \<and> (8 * i + m) mod 8 = m" if l: "m < 8" for m using l by simp
    then have "(8 * i + (7 - k)) div 8 = i" "(8 * i + (7 - k)) mod 8 = 7 - k" by (metis m7, metis m7)
    moreover have "7 - (7 - k) = k" using k by simp
    ultimately show "bit (s ! i) k = bit (t ! i) k" by (simp add: sbit_def)
  qed
qed (use assms in simp)

lemma bit_secret_bit: "bit (secret_bit s p) j \<longleftrightarrow> j = 0 \<and> sbit s p"
  by (auto simp: secret_bit_def sbit_def bit_and_iff bit_drop_bit_eq bit_1_iff)

lemma bit_shift_in:
  "bit (push_bit 1 v OR secret_bit s p) j \<longleftrightarrow> (if j = 0 then sbit s p else j < 8 \<and> bit v (j - 1))"
  unfolding bit_or_iff bit_push_bit_iff bit_secret_bit by (auto simp: Suc_le_eq)

lemma bit_symbol_value: "bit (symbol_value s q) j \<longleftrightarrow> j < 5 \<and> sbit s (q + (4 - j))"
proof -
  have five: "[0..<5] = [0, 1, 2, 3, 4]" by (simp add: upt_rec)
  have "j = 0 \<or> j = 1 \<or> j = 2 \<or> j = 3 \<or> j = 4 \<or> 5 \<le> j" by linarith
  then show ?thesis
    unfolding symbol_value_def five fold_simps comp_apply id_apply bit_shift_in by (auto simp: add.commute)
qed

lemma symbol_value_less: "unat (symbol_value s q) < 32"
proof -
  have "take_bit 5 (symbol_value s q) = symbol_value s q"
    by (rule bit_word_eqI) (auto simp: bit_take_bit_iff bit_symbol_value)
  then have "unat (take_bit 5 (symbol_value s q)) = unat (symbol_value s q)" by simp
  moreover have "unat (take_bit 5 (symbol_value s q)) < 2 ^ 5"
    unfolding unsigned_take_bit_eq by (rule take_bit_nat_less_exp)
  ultimately show ?thesis by simp
qed

text \<open>Writing a bit sets it, and nothing else.\<close>

lemma bit_one_shifted: "bit (push_bit n (drop_bit k v AND 1)) m \<longleftrightarrow> m = n \<and> n < 8 \<and> bit v k" for v :: byte
  unfolding bit_push_bit_iff bit_and_iff bit_drop_bit_eq bit_1_iff by auto

lemma sbit_write_bit:
  assumes "length out = 20" "pos < 160" "p < 160"
  shows "sbit (fst (write_bit v sh (out, pos))) p \<longleftrightarrow> sbit out p \<or> p = pos \<and> bit v sh"
proof (cases "p div 8 = pos div 8")
  case False
  then show ?thesis using assms by (auto simp: write_bit_def Let_def sbit_def)
next
  case True
  have m: "p mod 8 < 8" "pos mod 8 < 8" by simp_all
  have "p = pos \<longleftrightarrow> 7 - p mod 8 = 7 - pos mod 8"
  proof
    assume "7 - p mod 8 = 7 - pos mod 8"
    then have "p mod 8 = pos mod 8" using m by linarith
    then show "p = pos" using True by (metis div_mult_mod_eq)
  qed simp
  moreover have "sbit (fst (write_bit v sh (out, pos))) p \<longleftrightarrow>
      bit (out ! (p div 8) OR push_bit (7 - pos mod 8) (drop_bit sh v AND 1)) (7 - p mod 8)"
    using assms True by (simp add: write_bit_def Let_def sbit_def)
  ultimately show ?thesis unfolding bit_or_iff bit_one_shifted sbit_def by auto
qed

lemma write_bit_shape [simp]:
  "length (fst (write_bit v sh st)) = length (fst st)" "snd (write_bit v sh st) = snd st + 1"
  by (simp_all add: write_bit_def Let_def split: prod.splits)

lemma write_symbol_shape [simp]:
  "length (fst (write_symbol v st)) = length (fst st)" "snd (write_symbol v st) = snd st + 5"
  by (simp_all add: write_symbol_def)

lemma sbit_write_bits:
  assumes "length (fst st) = 20" "snd st + length ks \<le> 160" "p < 160"
  shows "sbit (fst (fold (write_bit v) ks st)) p \<longleftrightarrow>
    sbit (fst st) p \<or> snd st \<le> p \<and> p < snd st + length ks \<and> bit v (ks ! (p - snd st))"
  using assms(1,2)
proof (induction ks arbitrary: st)
  case Nil
  then show ?case by auto
next
  case (Cons k ks)
  obtain out pos where st: "st = (out, pos)" by (cases st)
  have "sbit (fst (write_bit v k st)) p \<longleftrightarrow> sbit out p \<or> p = pos \<and> bit v k"
    using sbit_write_bit [of out pos p v k] Cons.prems assms(3) by (simp add: st)
  moreover have "sbit (fst (fold (write_bit v) ks (write_bit v k st))) p \<longleftrightarrow> sbit (fst (write_bit v k st)) p
      \<or> pos + 1 \<le> p \<and> p < pos + 1 + length ks \<and> bit v (ks ! (p - (pos + 1)))"
    using Cons.IH [of "write_bit v k st"] Cons.prems by (simp add: st)
  moreover have "p - pos = Suc (p - (pos + 1))" if "pos + 1 \<le> p" using that by simp
  ultimately show ?case by (cases "p = pos") (auto simp: st nth_Cons')
qed

lemma sbit_write_symbol:
  assumes "length (fst st) = 20" "snd st + 5 \<le> 160" "p < 160"
  shows "sbit (fst (write_symbol v st)) p \<longleftrightarrow>
    sbit (fst st) p \<or> snd st \<le> p \<and> p < snd st + 5 \<and> bit v (4 - (p - snd st))"
proof -
  have ks: "[4, 3, 2, 1, 0 :: nat] ! i = 4 - i" if l: "i < 5" for i
    using l by (auto simp: less_Suc_eq numeral_eq_Suc)
  have "p - snd st < 5" if l: "snd st \<le> p \<and> p < snd st + 5" using l by linarith
  then show ?thesis using sbit_write_bits [of st "[4, 3, 2, 1, 0]" p v] assms ks by (auto simp: write_symbol_def)
qed

lemma write_symbols_shape [simp]:
  "length (fst (fold write_symbol vs st)) = length (fst st)" "snd (fold write_symbol vs st) = snd st + 5 * length vs"
  by (induction vs arbitrary: st) simp_all

lemma sbit_write_symbols:
  assumes "length (fst st) = 20" "snd st + 5 * length vs \<le> 160" "p < 160"
  shows "sbit (fst (fold write_symbol vs st)) p \<longleftrightarrow>
    sbit (fst st) p \<or> snd st \<le> p \<and> p < snd st + 5 * length vs \<and> bit (vs ! ((p - snd st) div 5)) (4 - (p - snd st) mod 5)"
  using assms(1,2)
proof (induction vs arbitrary: st)
  case Nil
  then show ?case by auto
next
  case (Cons v vs)
  let ?n = "snd st"
  have one: "sbit (fst (write_symbol v st)) p \<longleftrightarrow> sbit (fst st) p \<or> ?n \<le> p \<and> p < ?n + 5 \<and> bit v (4 - (p - ?n))"
    using sbit_write_symbol [of st p v] Cons.prems assms(3) by simp
  have rest: "sbit (fst (fold write_symbol vs (write_symbol v st))) p \<longleftrightarrow> sbit (fst (write_symbol v st)) p \<or>
      ?n + 5 \<le> p \<and> p < ?n + 5 + 5 * length vs \<and> bit (vs ! ((p - (?n + 5)) div 5)) (4 - (p - (?n + 5)) mod 5)"
    using Cons.IH [of "write_symbol v st"] Cons.prems by simp
  show ?case
  proof (cases "?n + 5 \<le> p")
    case True
    then obtain q where q: "p = ?n + 5 + q" by (metis le_Suc_ex)
    moreover have "(5 + q) div 5 = Suc (q div 5)" by simp
    ultimately show ?thesis using one rest by simp
  next
    case False
    then have "p < ?n \<or> p - ?n < 5" by linarith
    then show ?thesis using one rest False by (cases "p < ?n") auto
  qed
qed

section \<open>Symbols\<close>

text \<open>What the parser reads: the value of every character that is no hyphen.\<close>

definition spelled :: "bytes list \<Rightarrow> byte option list" where
  "spelled cs = map (\<lambda>c. decode_symbol (to_ascii_lowercase c)) (filter (\<lambda>c. c \<noteq> [HYPHEN]) cs)"

definition symbol_values :: "bytes \<Rightarrow> byte list" where
  "symbol_values secret = map (\<lambda>i. symbol_value secret (5 * i)) [0..<INVITE_CODE_SYMBOLS]"

lemma collect_symbols_Inr:
  "length acc \<le> 32 \<Longrightarrow> collect_symbols cs acc = Inr vs \<longleftrightarrow>
     (\<exists>ws. spelled cs = map Some ws \<and> vs = acc @ ws \<and> length vs \<le> 32)"
proof (induction cs arbitrary: acc)
  case Nil
  then show ?case by (auto simp: spelled_def)
next
  case (Cons c cs)
  show ?case
  proof (cases "c = [HYPHEN] \<or> decode_symbol (to_ascii_lowercase c) = None")
    case True
    then show ?thesis using Cons by (auto simp: spelled_def Cons_eq_map_conv)
  next
    case False
    then obtain v where c: "c \<noteq> [HYPHEN]" "decode_symbol (to_ascii_lowercase c) = Some v" by auto
    then have "spelled (c # cs) = Some v # spelled cs" by (simp add: spelled_def)
    then have r: "(\<exists>ws. spelled (c # cs) = map Some ws \<and> vs = acc @ ws \<and> length vs \<le> 32) \<longleftrightarrow>
        (\<exists>ws. spelled cs = map Some ws \<and> vs = (acc @ [v]) @ ws \<and> length vs \<le> 32)"
      by (auto simp: Cons_eq_map_conv)
    show ?thesis
    proof (cases "length acc < 32")
      case True
      then show ?thesis unfolding r using Cons.IH [of "acc @ [v]"] c
        by (simp add: INVITE_CODE_SYMBOLS_def Let_def)
    next
      case False
      then show ?thesis unfolding r using c by (auto simp: INVITE_CODE_SYMBOLS_def Let_def)
    qed
  qed
qed

lemma decode_symbol_less:
  assumes "decode_symbol c = Some v"
  shows "unat v < 32"
proof -
  obtain b where "c = [b]" using assms by (auto simp: decode_symbol_def split: list.splits)
  then show ?thesis using assms
    by (auto simp: decode_symbol_def unat_sub unat_word_ariths word_le_nat_alt split: if_splits)
qed

lemma alphabet_letters:
  "list_all (\<lambda>n. decode_symbol (to_ascii_lowercase [ALPHABET ! n]) = Some (of_nat n) \<and> ALPHABET ! n \<le> 0x7F \<and>
     ALPHABET ! n \<noteq> HYPHEN) [0..<32]"
  by (simp add: upt_rec ALPHABET_def decode_symbol_def to_ascii_lowercase_def HYPHEN_def)

lemma alphabet_letter:
  assumes "n < 32"
  shows "decode_symbol (to_ascii_lowercase [ALPHABET ! n]) = Some (of_nat n)" "ALPHABET ! n \<le> 0x7F" "ALPHABET ! n \<noteq> HYPHEN"
  using alphabet_letters assms by (auto simp: list_all_iff)

lemma symbols_written:
  assumes "length s = 20"
  shows "fst (fold write_symbol (symbol_values s) (replicate 20 0, 0)) = s"
proof (rule bytes_eq_sbit [of _ 20])
  fix p :: nat assume p: "p < 8 * 20"
  have m: "4 - p mod 5 < 5" by simp
  have d: "p div 5 < 32" "5 * (p div 5) + p mod 5 = p" "p mod 5 < 5" using p by simp_all
  then have "5 * (p div 5) + (4 - (4 - p mod 5)) = p" by simp
  moreover have "\<not> sbit (replicate 20 0) p" using p by (simp add: sbit_def)
  ultimately show "sbit (fst (fold write_symbol (symbol_values s) (replicate 20 0, 0))) p = sbit s p"
    using sbit_write_symbols [of "(replicate 20 0, 0)" "symbol_values s" p] p d m
    by (simp add: symbol_values_def INVITE_CODE_SYMBOLS_def bit_symbol_value)
qed (use assms in simp_all)

lemma written_symbols:
  assumes "length vs = 32" "\<forall>v \<in> set vs. unat v < 32"
  shows "symbol_values (fst (fold write_symbol vs (replicate 20 0, 0))) = vs"
proof (rule nth_equalityI)
  let ?s = "fst (fold write_symbol vs (replicate 20 0, 0))"
  fix i assume "i < length (symbol_values ?s)"
  then have i: "i < 32" by (simp add: symbol_values_def INVITE_CODE_SYMBOLS_def)
  have "symbol_value ?s (5 * i) = vs ! i"
  proof (rule bit_word_eqI)
    fix j assume "j < LENGTH(8)"
    have bnd: "\<not> bit (vs ! i) j" if l: "5 \<le> j"
    proof -
      have "unat (vs ! i) < 2 ^ 5" using assms i by simp
      then have "take_bit 5 (unat (vs ! i)) = unat (vs ! i)" by (simp only: take_bit_nat_eq_self)
      then have "\<not> bit (unat (vs ! i)) j" using l by (metis bit_take_bit_iff not_less)
      then show ?thesis by (simp add: bit_unsigned_iff \<open>j < LENGTH(8)\<close>)
    qed
    have "sbit ?s (5 * i + (4 - j)) \<longleftrightarrow> bit (vs ! i) j" if l: "j < 5"
    proof -
      have p: "5 * i + (4 - j) < 160" using i by simp
      have m: "(5 * i + m) div 5 = i \<and> (5 * i + m) mod 5 = m" if l: "m < 5" for m using l by simp
      have "4 - j < 5" "4 - (4 - j) = j" using l by simp_all
      then show ?thesis using sbit_write_symbols [of "(replicate 20 0, 0)" vs "5 * i + (4 - j)"] p assms m [of "4 - j"]
        by (simp add: sbit_def)
    qed
    then show "bit (symbol_value ?s (5 * i)) j = bit (vs ! i) j"
      unfolding bit_symbol_value using bnd by (metis linorder_not_less)
  qed
  then show "symbol_values ?s ! i = vs ! i" using i by (simp add: symbol_values_def INVITE_CODE_SYMBOLS_def)
qed (use assms in \<open>simp add: symbol_values_def INVITE_CODE_SYMBOLS_def\<close>)

section \<open>The theorem\<close>

lemma parse_invite_code_Inr:
  "parse_invite_code t = Inr s \<longleftrightarrow> length s = 20 \<and> spelled (chars_lossy t) = map Some (symbol_values s)"
proof
  assume "parse_invite_code t = Inr s"
  then obtain vs where vs: "collect_symbols (chars_lossy t) [] = Inr vs" "length vs = 32"
    "s = fst (fold write_symbol vs (replicate 20 0, 0))"
    by (auto simp: parse_invite_code_def and_then_Inr INVITE_CODE_SYMBOLS_def INVITE_SECRET_LEN_def split: if_splits)
  have sp: "spelled (chars_lossy t) = map Some vs" using vs(1) collect_symbols_Inr [of "[]"] by simp
  have "unat v < 32" if l: "v \<in> set vs" for v
  proof -
    have "Some v \<in> set (spelled (chars_lossy t))" using l sp by simp
    then show ?thesis by (auto simp: spelled_def dest: sym [THEN decode_symbol_less])
  qed
  then show "length s = 20 \<and> spelled (chars_lossy t) = map Some (symbol_values s)"
    using sp vs written_symbols [of vs] by simp
next
  assume r: "length s = 20 \<and> spelled (chars_lossy t) = map Some (symbol_values s)"
  have len: "length (symbol_values s) = 32" by (simp add: symbol_values_def INVITE_CODE_SYMBOLS_def)
  then have "collect_symbols (chars_lossy t) [] = Inr (symbol_values s)"
    using r collect_symbols_Inr [of "[]"] by simp
  then show "parse_invite_code t = Inr s" using r len symbols_written [of s]
    by (simp add: parse_invite_code_def INVITE_CODE_SYMBOLS_def INVITE_SECRET_LEN_def)
qed

lemma chars_ascii: "\<forall>b \<in> set bs. b \<le> 0x7F \<Longrightarrow> chars_lossy bs = map (\<lambda>b. [b]) bs"
proof (induction bs)
  case Nil
  then show ?case by (simp add: chars_lossy.simps)
next
  case (Cons b bs)
  then have "utf8_step (b # bs) = (True, 1)" by (simp add: utf8_step_def byte_at_def Let_def)
  then show ?case using Cons by (subst chars_lossy.simps) simp
qed

lemma chunks_concat: "concat (map (\<lambda>i. take k (drop (k * i) xs)) [0..<n]) = take (k * n) xs"
  by (induction n) (simp_all add: take_add add.commute [of k])

lemma encode_symbols_nth:
  "encode_symbols s = map (\<lambda>v. ALPHABET ! unat v) (symbol_values s)" "length (encode_symbols s) = 32"
  by (simp_all add: encode_symbols_def symbol_values_def INVITE_CODE_SYMBOLS_def)

lemma encode_symbols_letters: "b \<in> set (encode_symbols s) \<Longrightarrow> b \<le> 0x7F \<and> b \<noteq> HYPHEN"
  using alphabet_letter symbol_value_less by (auto simp: encode_symbols_def)

lemma encode_invite_code_letters: "b \<in> set (encode_invite_code s) \<Longrightarrow> b \<in> set (encode_symbols s) \<or> b = HYPHEN"
  by (auto simp: encode_invite_code_def split: if_splits dest!: in_set_takeD in_set_dropD)

lemma encode_invite_code_symbols: "filter (\<lambda>b. b \<noteq> HYPHEN) (encode_invite_code s) = encode_symbols s"
proof -
  have f: "filter (\<lambda>b. b \<noteq> HYPHEN) (take 4 (drop i (encode_symbols s))) = take 4 (drop i (encode_symbols s))" for i
    using encode_symbols_letters by (auto simp: filter_id_conv dest!: in_set_takeD in_set_dropD)
  have g: "filter (\<lambda>b. b \<noteq> HYPHEN) ((if 0 < i then [HYPHEN] else []) @ take 4 (drop k (encode_symbols s))) =
      take 4 (drop k (encode_symbols s))" for i k :: nat
    by (cases "0 < i") (simp_all add: f)
  have "filter (\<lambda>b. b \<noteq> HYPHEN) (encode_invite_code s) = concat (map (\<lambda>i. take 4 (drop (4 * i) (encode_symbols s))) [0..<8])"
    by (simp add: encode_invite_code_def GROUP_LEN_def INVITE_CODE_SYMBOLS_def filter_concat comp_def g del: filter_append)
  also have "\<dots> = take (4 * 8) (encode_symbols s)" by (rule chunks_concat)
  finally show ?thesis by (simp add: encode_symbols_nth(2))
qed

lemma spelled_encode: "spelled (chars_lossy (encode_invite_code s)) = map Some (symbol_values s)"
proof -
  have "\<forall>b \<in> set (encode_invite_code s). b \<le> 0x7F"
    using encode_invite_code_letters encode_symbols_letters by (fastforce simp: HYPHEN_def)
  then have "spelled (chars_lossy (encode_invite_code s)) =
      map (\<lambda>b. decode_symbol (to_ascii_lowercase [b])) (filter (\<lambda>b. b \<noteq> HYPHEN) (encode_invite_code s))"
    by (simp add: chars_ascii spelled_def filter_map comp_def)
  also have "\<dots> = map (\<lambda>v. decode_symbol (to_ascii_lowercase [ALPHABET ! unat v])) (symbol_values s)"
    by (simp add: encode_invite_code_symbols encode_symbols_nth)
  also have "\<dots> = map Some (symbol_values s)"
    by (auto simp: symbol_values_def alphabet_letter(1) [OF symbol_value_less])
  finally show ?thesis .
qed

lemma invite_code_roundtrip: "length s = 20 \<Longrightarrow> parse_invite_code (encode_invite_code s) = Inr s"
  by (simp add: parse_invite_code_Inr spelled_encode)

interpretation invite_codec: codec encode_invite_code parse_invite_code "\<lambda>s. length s = INVITE_SECRET_LEN"
  by unfold_locales (simp add: invite_code_roundtrip INVITE_SECRET_LEN_def)

text \<open>
  C25. The code of a secret parses back to it, and a text parses to a secret exactly when its characters
  other than hyphens, read without regard to case and with the look-alike letters resolved, are
  the 32 symbols of the secret.
\<close>

theorem invite_code_exact:
  "length secret = INVITE_SECRET_LEN \<Longrightarrow>
     parse_invite_code (encode_invite_code secret) = Inr secret \<and>
     (\<forall>input. parse_invite_code input = Inr secret \<longleftrightarrow> spelled (chars_lossy input) = map Some (symbol_values secret))"
  by (simp add: invite_code_roundtrip parse_invite_code_Inr INVITE_SECRET_LEN_def)

text \<open>The letter \<open>O\<close> is read as the digit zero.\<close>

theorem invite_code_exact_witness:
  "parse_invite_code (encode_invite_code (replicate 20 0)) = Inr (replicate 20 0) \<and>
   parse_invite_code (replicate 32 79) = Inr (replicate 20 0)"
proof -
  have "spelled (chars_lossy (replicate 32 79)) = replicate 32 (Some 0)"
    by (simp add: chars_ascii spelled_def HYPHEN_def to_ascii_lowercase_def decode_symbol_def filter_id_conv)
  moreover have "\<not> sbit (replicate 20 0) p" if l: "p < 160" for p using l by (simp add: sbit_def)
  then have "symbol_value (replicate 20 0) (5 * i) = 0" if l: "i < 32" for i
    using l by (intro bit_word_eqI) (simp add: bit_symbol_value)
  then have "map Some (symbol_values (replicate 20 0)) = replicate 32 (Some 0)"
    by (intro nth_equalityI) (simp_all add: symbol_values_def INVITE_CODE_SYMBOLS_def)
  ultimately show ?thesis using invite_code_exact [of "replicate 20 0"] by (simp add: INVITE_SECRET_LEN_def)
qed

end
