(* ===== verification/Invite_Store.thy ===== *)
theory Invite_Store
  imports Trust_Store Invite_Code
begin

text \<open>
  Pairing invites (\<open>qsh-core/src/trust/pairing.rs\<close>): the records of \<open>invites.toml\<close>, their life from the
  minting to the redemption, and \<open>SharedInviteStore\<close>, the view of the file a running host keeps; and
  the rules for a device's name (\<open>qsh-proto/src/wire.rs\<close>, \<open>qsh-core/src/trust/mod.rs\<close>). The two BLAKE3
  functions, Base64, the TOML reader and writer of the file and the reader and writer of RFC 3339
  times are arguments, gathered in one record; the content of the file is of any type the TOML
  functions agree on. A time is a number of nanoseconds. Every step that can fail for a reason
  outside the program takes its failure as an argument.
\<close>

section \<open>Device names\<close>

definition string_bytes :: "string \<Rightarrow> bytes" where
  "string_bytes s = map (\<lambda>c. of_nat (of_char c)) s"

datatype device_name_error = NameLength | NameControl | NameBidi | NameZeroWidth

text \<open>U+202A to U+202E, U+2066 to U+2069, U+200E and U+200F; then U+200B to U+200D, U+2060 and U+FEFF.\<close>

definition bidi_char :: "bytes \<Rightarrow> bool" where
  "bidi_char c =
     (case c of
        [a, b, d] \<Rightarrow> a = 0xE2 \<and> (b = 0x80 \<and> (byte_in 0xAA 0xAE d \<or> byte_in 0x8E 0x8F d) \<or> b = 0x81 \<and> byte_in 0xA6 0xA9 d)
      | _ \<Rightarrow> False)"

definition zero_width_char :: "bytes \<Rightarrow> bool" where
  "zero_width_char c =
     (case c of
        [a, b, d] \<Rightarrow> a = 0xE2 \<and> (b = 0x80 \<and> byte_in 0x8B 0x8D d \<or> b = 0x81 \<and> d = 0xA0) \<or> a = 0xEF \<and> b = 0xBB \<and> d = 0xBF
      | _ \<Rightarrow> False)"

fun check_name_chars :: "bytes list \<Rightarrow> device_name_error + unit" where
  "check_name_chars [] = Inr ()"
| "check_name_chars (c # cs) =
     (if has_control c then Inl NameControl
      else if bidi_char c then Inl NameBidi
      else if zero_width_char c then Inl NameZeroWidth
      else check_name_chars cs)"

definition validate_device_name :: "string \<Rightarrow> device_name_error + unit" where
  "validate_device_name n =
     (if n = [] \<or> 64 < length n then Inl NameLength else check_name_chars (chars_lossy (string_bytes n)))"

datatype peer_label_error = LabelDeviceName device_name_error | LabelSegment

definition validate_peer_label :: "string \<Rightarrow> peer_label_error + unit" where
  "validate_peer_label label =
     (case validate_device_name label of
        Inl e \<Rightarrow> Inl (LabelDeviceName e)
      | Inr _ \<Rightarrow> if CHR ''/'' \<in> set label then Inl LabelSegment else Inr ())"

section \<open>Records\<close>

definition INVITE_TTL :: nat where
  "INVITE_TTL = 10 * 60 * 10 ^ 9"

definition INVITE_RETENTION :: nat where
  "INVITE_RETENTION = 20 * 60 * 10 ^ 9"

definition CLIENT_PROOF_DOMAIN :: byte where
  "CLIENT_PROOF_DOMAIN = 1"

definition SERVER_PROOF_DOMAIN :: byte where
  "SERVER_PROOF_DOMAIN = 2"

record invite_record_file =
  if_mac_key :: string
  if_created_at :: string
  if_consumed_at :: "string option"
  if_assigned_name :: "string option"
  if_role :: "string option"

record 'raw invite_lib =
  blake3_hash :: "bytes \<Rightarrow> bytes"
  blake3_keyed :: "bytes \<Rightarrow> bytes \<Rightarrow> bytes"
  base64_encode :: "bytes \<Rightarrow> string"
  base64_decode :: "string \<Rightarrow> bytes option"
  toml_read :: "'raw \<Rightarrow> invite_record_file list option"
  toml_write :: "invite_record_file list \<Rightarrow> 'raw option"
  rfc3339_format :: "nat \<Rightarrow> string option"
  rfc3339_parse :: "string \<Rightarrow> nat option"

record invite_record =
  ir_mac_key :: bytes
  ir_created_at :: nat
  ir_consumed_at :: "nat option"
  ir_assigned_name :: "string option"
  ir_role :: trust_role

definition proof_input :: "bytes \<Rightarrow> byte \<Rightarrow> bytes" where
  "proof_input ekm domain = ekm @ [domain]"

definition mac_from_base64 :: "'raw invite_lib \<Rightarrow> string \<Rightarrow> bytes option" where
  "mac_from_base64 L t = Option.bind (base64_decode L t) (\<lambda>bs. if length bs = 32 then Some bs else None)"

definition mac_proof :: "'raw invite_lib \<Rightarrow> bytes \<Rightarrow> bytes \<Rightarrow> byte \<Rightarrow> bytes" where
  "mac_proof L key ekm domain = blake3_keyed L key (proof_input ekm domain)"

definition proofs_from_secret :: "'raw invite_lib \<Rightarrow> bytes \<Rightarrow> bytes \<Rightarrow> bytes \<times> bytes" where
  "proofs_from_secret L secret ekm =
     (let mac_key = blake3_hash L secret
      in (mac_proof L mac_key ekm CLIENT_PROOF_DOMAIN, mac_proof L mac_key ekm SERVER_PROOF_DOMAIN))"

text \<open>\<open>now.duration_since(created).is_ok_and(|age| age < limit)\<close>\<close>

definition younger :: "nat \<Rightarrow> nat \<Rightarrow> nat \<Rightarrow> bool" where
  "younger limit now created \<longleftrightarrow> created \<le> now \<and> now - created < limit"

definition invite_redeemable :: "nat \<Rightarrow> invite_record \<Rightarrow> bool" where
  "invite_redeemable now r \<longleftrightarrow> ir_consumed_at r = None \<and> younger INVITE_TTL now (ir_created_at r)"

definition within_retention :: "nat \<Rightarrow> invite_record \<Rightarrow> bool" where
  "within_retention now r = younger INVITE_RETENTION now (ir_created_at r)"

definition rfc3339_at :: "'raw invite_lib \<Rightarrow> nat \<Rightarrow> string" where
  "rfc3339_at L t = (case rfc3339_format L (t - t mod 10 ^ 9) of Some s \<Rightarrow> s | None \<Rightarrow> ''1970-01-01T00:00:00Z'')"

section \<open>The store\<close>

type_synonym invite_store = "invite_record_file list"

datatype invite_error = StoreIo | StoreInvalid | StoreEncode | StoreLock

definition bad_invite_role :: "invite_record_file \<Rightarrow> bool" where
  "bad_invite_role r =
     (case if_role r of Some w \<Rightarrow> (case role_from_str w of Inl _ \<Rightarrow> True | Inr _ \<Rightarrow> False) | None \<Rightarrow> False)"

definition invite_parse :: "'raw invite_lib \<Rightarrow> 'raw \<Rightarrow> invite_error + invite_store" where
  "invite_parse L t =
     (case toml_read L t of
        None \<Rightarrow> Inl StoreInvalid
      | Some invites \<Rightarrow> if list_ex bad_invite_role invites then Inl StoreInvalid else Inr invites)"

definition parse_invite_file :: "'raw invite_lib \<Rightarrow> 'raw option \<Rightarrow> invite_error + invite_store" where
  "parse_invite_file L raw = (case raw of Some t \<Rightarrow> invite_parse L t | None \<Rightarrow> Inr [])"

text \<open>\<open>load\<close>, with the outcome of the read.\<close>

definition read_raw :: "bool \<Rightarrow> 'raw option \<Rightarrow> invite_error + 'raw option" where
  "read_raw ok disk = (if ok then Inr disk else Inl StoreIo)"

definition invite_load :: "'raw invite_lib \<Rightarrow> bool \<Rightarrow> 'raw option \<Rightarrow> invite_error + invite_store" where
  "invite_load L ok disk = and_then (read_raw ok disk) (parse_invite_file L)"

definition still_live :: "'raw invite_lib \<Rightarrow> nat \<Rightarrow> invite_record_file \<Rightarrow> bool" where
  "still_live L now r = (case rfc3339_parse L (if_created_at r) of Some c \<Rightarrow> younger INVITE_RETENTION now c | None \<Rightarrow> False)"

fun adopt_consumption :: "invite_record_file \<Rightarrow> invite_store \<Rightarrow> invite_store" where
  "adopt_consumption d [] = []"
| "adopt_consumption d (r # rs) =
     (if if_mac_key r = if_mac_key d
      then (if if_consumed_at r = None then r\<lparr>if_consumed_at := if_consumed_at d\<rparr> else r) # rs
      else r # adopt_consumption d rs)"

definition merge_record :: "'raw invite_lib \<Rightarrow> nat \<Rightarrow> invite_record_file \<Rightarrow> invite_store \<Rightarrow> invite_store" where
  "merge_record L now d rs =
     (if list_ex (\<lambda>r. if_mac_key r = if_mac_key d) rs then adopt_consumption d rs
      else if still_live L now d then rs @ [d] else rs)"

text \<open>The failures a call of \<open>save\<close> can meet, and the clock it reads.\<close>

record save_io =
  sv_read :: bool
  sv_dir :: bool
  sv_write :: bool
  sv_now :: nat

definition merge_consumption_from_disk ::
    "'raw invite_lib \<Rightarrow> save_io \<Rightarrow> 'raw option \<Rightarrow> invite_store \<Rightarrow> invite_error + invite_store" where
  "merge_consumption_from_disk L io disk rs =
     and_then (read_raw (sv_read io) disk) (\<lambda>raw.
       case raw of
         None \<Rightarrow> Inr rs
       | Some t \<Rightarrow> and_then (invite_parse L t) (\<lambda>ds. Inr (fold (merge_record L (sv_now io)) ds rs)))"

text \<open>\<open>save\<close>: the records in memory and the file afterwards, and the result.\<close>

definition invite_save ::
    "'raw invite_lib \<Rightarrow> save_io \<Rightarrow> 'raw option \<Rightarrow> invite_store \<Rightarrow> invite_store \<times> 'raw option \<times> (invite_error + unit)" where
  "invite_save L io disk rs =
     (case merge_consumption_from_disk L io disk rs of
        Inl e \<Rightarrow> (rs, disk, Inl e)
      | Inr rs' \<Rightarrow>
          (if \<not> sv_dir io then (rs', disk, Inl StoreIo)
           else case toml_write L rs' of
                  None \<Rightarrow> (rs', disk, Inl StoreEncode)
                | Some t \<Rightarrow> if sv_write io then (rs', Some t, Inr ()) else (rs', disk, Inl StoreIo)))"

definition invite_prune :: "'raw invite_lib \<Rightarrow> nat \<Rightarrow> invite_store \<Rightarrow> invite_store" where
  "invite_prune L now rs = filter (still_live L now) rs"

definition invite_push ::
    "'raw invite_lib \<Rightarrow> bytes \<Rightarrow> nat \<Rightarrow> string option \<Rightarrow> trust_role option \<Rightarrow> invite_store \<Rightarrow> invite_store \<times> string \<times> string" where
  "invite_push L secret now assigned role rs =
     (let created_at = rfc3339_at L now; expires_at = rfc3339_at L (now + INVITE_TTL)
      in (rs @ [\<lparr>if_mac_key = base64_encode L (blake3_hash L secret), if_created_at = created_at, if_consumed_at = None,
            if_assigned_name = assigned, if_role = map_option role_str role\<rparr>], created_at, expires_at))"

definition invite_add_with_role ::
    "'raw invite_lib \<Rightarrow> bytes \<Rightarrow> nat \<Rightarrow> string option \<Rightarrow> trust_role \<Rightarrow> invite_store \<Rightarrow> invite_store \<times> string \<times> string" where
  "invite_add_with_role L secret now assigned role rs = invite_push L secret now assigned (Some role) rs"

definition parse_record :: "'raw invite_lib \<Rightarrow> invite_record_file \<Rightarrow> invite_record option" where
  "parse_record L r =
     Option.bind (mac_from_base64 L (if_mac_key r)) (\<lambda>mac_key.
       Option.bind (rfc3339_parse L (if_created_at r)) (\<lambda>created_at.
         Some \<lparr>ir_mac_key = mac_key, ir_created_at = created_at,
           ir_consumed_at = Option.bind (if_consumed_at r) (rfc3339_parse L),
           ir_assigned_name = if_assigned_name r,
           ir_role = (case parse_role (if_role r) of Some role \<Rightarrow> role | None \<Rightarrow> NoneRole)\<rparr>))"

definition invites_parsed :: "'raw invite_lib \<Rightarrow> invite_store \<Rightarrow> (nat \<times> invite_record) list" where
  "invites_parsed L rs = List.map_filter (\<lambda>(i, r). map_option (Pair i) (parse_record L r)) (enumerate 0 rs)"

section \<open>Counts\<close>

record live_invite_counts =
  lc_unassigned :: nat
  lc_assigned :: "string \<Rightarrow> nat option"

definition count_invite :: "invite_record \<Rightarrow> live_invite_counts \<Rightarrow> live_invite_counts" where
  "count_invite r c =
     (case ir_assigned_name r of
        Some n \<Rightarrow> c\<lparr>lc_assigned := (lc_assigned c)(n \<mapsto> (case lc_assigned c n of Some k \<Rightarrow> k | None \<Rightarrow> 0) + 1)\<rparr>
      | None \<Rightarrow> c\<lparr>lc_unassigned := lc_unassigned c + 1\<rparr>)"

definition invite_live_counts :: "'raw invite_lib \<Rightarrow> nat \<Rightarrow> invite_store \<Rightarrow> live_invite_counts" where
  "invite_live_counts L now rs =
     fold (\<lambda>(_, r) c. if invite_redeemable now r then count_invite r c else c) (invites_parsed L rs)
       \<lparr>lc_unassigned = 0, lc_assigned = Map.empty\<rparr>"

definition live_role_invites :: "'raw invite_lib \<Rightarrow> nat \<Rightarrow> invite_store \<Rightarrow> nat" where
  "live_role_invites L now rs =
     min (length (filter (\<lambda>(_, r). invite_redeemable now r \<and> ir_role r \<noteq> NoneRole) (invites_parsed L rs))) (2 ^ 32 - 1)"

section \<open>The shared view\<close>

record 'raw invite_cache =
  ic_raw :: "'raw option"
  ic_store :: invite_store

definition open_invites :: "'raw invite_lib \<Rightarrow> bool \<Rightarrow> 'raw option \<Rightarrow> invite_error + 'raw invite_cache" where
  "open_invites L ok disk =
     and_then (read_raw ok disk) (\<lambda>raw.
       and_then (parse_invite_file L raw) (\<lambda>rs. Inr \<lparr>ic_raw = raw, ic_store = rs\<rparr>))"

definition refresh_invites :: "'raw invite_lib \<Rightarrow> bool \<Rightarrow> 'raw option \<Rightarrow> 'raw invite_cache \<Rightarrow> 'raw invite_cache" where
  "refresh_invites L ok disk c =
     (case read_raw ok disk of
        Inl _ \<Rightarrow> c
      | Inr raw \<Rightarrow>
          (if ic_raw c = raw then c
           else case parse_invite_file L raw of Inr rs \<Rightarrow> \<lparr>ic_raw = raw, ic_store = rs\<rparr> | Inl _ \<Rightarrow> c))"

definition pairing_open :: "'raw invite_lib \<Rightarrow> bool \<Rightarrow> 'raw option \<Rightarrow> nat \<Rightarrow> 'raw invite_cache \<Rightarrow> 'raw invite_cache \<times> bool" where
  "pairing_open L ok disk now c =
     (let c' = refresh_invites L ok disk c
      in (c', list_ex (\<lambda>(_, r). within_retention now r) (invites_parsed L (ic_store c'))))"

record invite_match =
  im_assigned_name :: "string option"
  im_role :: trust_role

datatype redeem_outcome = Accepted bytes | Rejected | Expired | AlreadyConsumed | NoMatch | InvalidAssignedName

text \<open>
  A redemption holds the cache's lock throughout, and the lock of the file from its second half on. The
  halves are therefore separate definitions: another process may write the file between them. The
  first half looks the proof up and asks \<open>on_matched\<close>, whose own state is \<open>'s\<close>; it ends in an
  outcome, or in the index and the proof the second half needs.
\<close>

definition redeem_decide ::
    "'raw invite_lib \<Rightarrow> bytes \<Rightarrow> bytes \<Rightarrow> nat \<Rightarrow> (invite_match \<Rightarrow> 's \<Rightarrow> 's \<times> bool) \<Rightarrow> invite_store \<Rightarrow> 's
     \<Rightarrow> 's \<times> (redeem_outcome + nat \<times> bytes)" where
  "redeem_decide L ekm client_proof now on_matched rs s =
     (case find (\<lambda>(_, r). mac_proof L (ir_mac_key r) ekm CLIENT_PROOF_DOMAIN = client_proof \<and> within_retention now r)
             (invites_parsed L rs) of
        None \<Rightarrow> (s, Inl NoMatch)
      | Some (i, r) \<Rightarrow>
          (if ir_consumed_at r \<noteq> None then (s, Inl AlreadyConsumed)
           else if \<not> invite_redeemable now r then (s, Inl Expired)
           else if (case ir_assigned_name r of Some n \<Rightarrow> (case validate_peer_label n of Inl _ \<Rightarrow> True | Inr _ \<Rightarrow> False) | None \<Rightarrow> False)
                then (s, Inl InvalidAssignedName)
           else let (s', ok) = on_matched \<lparr>im_assigned_name = ir_assigned_name r, im_role = ir_role r\<rparr> s
                in if \<not> ok then (s', Inl Rejected)
                   else (s', Inr (i, mac_proof L (ir_mac_key r) ekm SERVER_PROOF_DOMAIN))))"

record redeem_io =
  rd_refresh :: bool
  rd_lock :: bool
  rd_save :: save_io
  rd_reread :: bool

definition consume_at :: "string \<Rightarrow> nat \<Rightarrow> invite_store \<Rightarrow> invite_store" where
  "consume_at t i rs = rs[i := (rs ! i)\<lparr>if_consumed_at := Some t\<rparr>]"

definition redeem_commit ::
    "'raw invite_lib \<Rightarrow> redeem_io \<Rightarrow> nat \<Rightarrow> nat \<Rightarrow> bytes \<Rightarrow> 'raw option \<Rightarrow> 'raw invite_cache
     \<Rightarrow> 'raw invite_cache \<times> 'raw option \<times> (invite_error + redeem_outcome)" where
  "redeem_commit L io now i server_proof disk c =
     (if \<not> rd_lock io then (c, disk, Inl StoreLock)
      else case invite_save L (rd_save io) disk (consume_at (rfc3339_at L now) i (ic_store c)) of
             (rs, disk', Inl e) \<Rightarrow> (c\<lparr>ic_store := rs\<rparr>, disk', Inl e)
           | (rs, disk', Inr _) \<Rightarrow>
               (case read_raw (rd_reread io) disk' of
                  Inl e \<Rightarrow> (c\<lparr>ic_store := rs\<rparr>, disk', Inl e)
                | Inr raw \<Rightarrow> (\<lparr>ic_raw = raw, ic_store = rs\<rparr>, disk', Inr (Accepted server_proof))))"

definition redeem ::
    "'raw invite_lib \<Rightarrow> redeem_io \<Rightarrow> bytes \<Rightarrow> bytes \<Rightarrow> nat \<Rightarrow> (invite_match \<Rightarrow> 's \<Rightarrow> 's \<times> bool) \<Rightarrow> 'raw option \<Rightarrow> 'raw invite_cache \<Rightarrow> 's
     \<Rightarrow> 's \<times> 'raw invite_cache \<times> 'raw option \<times> (invite_error + redeem_outcome)" where
  "redeem L io ekm client_proof now on_matched disk c s =
     (let c' = refresh_invites L (rd_refresh io) disk c
      in case redeem_decide L ekm client_proof now on_matched (ic_store c') s of
           (s', Inl outcome) \<Rightarrow> (s', c', disk, Inr outcome)
         | (s', Inr (i, server_proof)) \<Rightarrow> (s', redeem_commit L io now i server_proof disk c'))"

section \<open>Minting\<close>

definition DEFAULT_FOR_INVITE :: trust_role where
  "DEFAULT_FOR_INVITE = Full"

definition DEFAULT_FOR_ACCEPT :: trust_role where
  "DEFAULT_FOR_ACCEPT = NoneRole"

text \<open>\<open>Ops::trust_invite\<close> in the order of its steps; the secret and the clock are arguments, \<open>None\<close> is a request
  without the option. The result is the role, the assigned name, the time of expiry and the code.\<close>

datatype invite_request_error = BadLabel peer_label_error | BadRoleName string | InviteStoreError invite_error

record mint_io =
  mi_lock :: bool
  mi_load :: bool
  mi_save :: save_io

definition check_label_arg :: "string option \<Rightarrow> invite_request_error + string option" where
  "check_label_arg a =
     (case a of None \<Rightarrow> Inr None
      | Some n \<Rightarrow> (case validate_peer_label n of Inl e \<Rightarrow> Inl (BadLabel e) | Inr _ \<Rightarrow> Inr (Some n)))"

definition check_role_arg :: "trust_role \<Rightarrow> string option \<Rightarrow> invite_request_error + trust_role" where
  "check_role_arg dflt a =
     (case a of None \<Rightarrow> Inr dflt
      | Some w \<Rightarrow> (case role_from_str w of Inl e \<Rightarrow> Inl (BadRoleName e) | Inr r \<Rightarrow> Inr r))"

definition mint_store ::
    "'raw invite_lib \<Rightarrow> mint_io \<Rightarrow> bytes \<Rightarrow> nat \<Rightarrow> string option \<Rightarrow> trust_role \<Rightarrow> 'raw option \<Rightarrow> 'raw option \<times> (invite_error + string)" where
  "mint_store L io secret now assigned role disk =
     (if \<not> mi_lock io then (disk, Inl StoreLock)
      else case invite_load L (mi_load io) disk of
             Inl e \<Rightarrow> (disk, Inl e)
           | Inr rs \<Rightarrow>
               (let (rs', _, expires_at) = invite_add_with_role L secret now assigned role (invite_prune L now rs)
                in case invite_save L (mi_save io) disk rs' of
                     (_, disk', Inl e) \<Rightarrow> (disk', Inl e)
                   | (_, disk', Inr _) \<Rightarrow> (disk', Inr expires_at)))"

definition trust_invite ::
    "'raw invite_lib \<Rightarrow> mint_io \<Rightarrow> bytes \<Rightarrow> nat \<Rightarrow> string option \<Rightarrow> string option \<Rightarrow> 'raw option
     \<Rightarrow> 'raw option \<times> (invite_request_error + trust_role \<times> string option \<times> string \<times> bytes)" where
  "trust_invite L io secret now as_name role disk =
     (case and_then (check_label_arg as_name) (\<lambda>assigned. and_then (check_role_arg DEFAULT_FOR_INVITE role) (\<lambda>r. Inr (assigned, r))) of
        Inl e \<Rightarrow> (disk, Inl e)
      | Inr (assigned, r) \<Rightarrow>
          (case mint_store L io secret now assigned r disk of
             (disk', Inl e) \<Rightarrow> (disk', Inl (InviteStoreError e))
           | (disk', Inr expires_at) \<Rightarrow> (disk', Inr (r, assigned, expires_at, encode_invite_code secret))))"

end
