(* ===== verification/Invite_Guarantees.thy ===== *)
theory Invite_Guarantees
  imports Invite_Store
begin

text \<open>
  One invite, one redemption. A host process redeems invites while other processes mint them: the states
  and steps of that system, the invariant of both copies of the records, and the theorem that no
  invite is accepted twice, whatever reads, locks and writes fail.
\<close>

section \<open>The system\<close>

text \<open>
  What the library functions promise: the TOML reader undoes the writer, and a time the program prints
  can be read.
\<close>

definition lib_ok :: "'raw invite_lib \<Rightarrow> bool" where
  "lib_ok L \<longleftrightarrow> (\<forall>f t. toml_write L f = Some t \<longrightarrow> toml_read L t = Some f) \<and>
     (\<forall>t. rfc3339_parse L (rfc3339_at L t) \<noteq> None)"

text \<open>
  The file, the cache of the host process, the redemption it is in the middle of, the keys of all
  minted invites and of the accepted ones.
\<close>

record 'raw invite_sys =
  sy_disk :: "'raw option"
  sy_cache :: "'raw invite_cache"
  sy_pending :: "(nat \<times> bytes \<times> nat) option"
  sy_minted :: "string list"
  sy_accepted :: "string list"

definition secret_key :: "'raw invite_lib \<Rightarrow> bytes \<Rightarrow> string" where
  "secret_key L secret = base64_encode L (blake3_hash L secret)"

definition log_accepted :: "invite_store \<Rightarrow> nat \<Rightarrow> invite_error + redeem_outcome \<Rightarrow> string list \<Rightarrow> string list" where
  "log_accepted rs i r ks = (case r of Inr (Accepted _) \<Rightarrow> if_mac_key (rs ! i) # ks | _ \<Rightarrow> ks)"

inductive invite_step :: "'raw invite_lib \<Rightarrow> 'raw invite_sys \<Rightarrow> 'raw invite_sys \<Rightarrow> bool" for L where
  mint: "secret_key L secret \<notin> set (sy_minted s) \<Longrightarrow>
     invite_step L s (s\<lparr>sy_disk := fst (mint_store L io secret now assigned role (sy_disk s)),
       sy_minted := secret_key L secret # sy_minted s\<rparr>)"
| refresh: "sy_pending s = None \<Longrightarrow>
     invite_step L s (s\<lparr>sy_cache := refresh_invites L ok (sy_disk s) (sy_cache s)\<rparr>)"
| decide: "sy_pending s = None \<Longrightarrow>
     redeem_decide L ekm client_proof now on_matched (ic_store (sy_cache s)) (u :: unit) = (u', Inr (i, server_proof)) \<Longrightarrow>
     invite_step L s (s\<lparr>sy_pending := Some (i, server_proof, now)\<rparr>)"
| commit: "sy_pending s = Some (i, server_proof, now) \<Longrightarrow>
     redeem_commit L io now i server_proof (sy_disk s) (sy_cache s) = (c, d, r) \<Longrightarrow>
     invite_step L s (s\<lparr>sy_disk := d, sy_cache := c, sy_pending := None,
       sy_accepted := log_accepted (ic_store (sy_cache s)) i r (sy_accepted s)\<rparr>)"

section \<open>The records\<close>

definition spent :: "'raw invite_lib \<Rightarrow> invite_record_file \<Rightarrow> bool" where
  "spent L r \<longleftrightarrow> Option.bind (if_consumed_at r) (rfc3339_parse L) \<noteq> None"

definition invites_ok :: "'raw invite_lib \<Rightarrow> string list \<Rightarrow> string list \<Rightarrow> invite_store \<Rightarrow> bool" where
  "invites_ok L minted accepted rs \<longleftrightarrow> distinct (map if_mac_key rs) \<and> if_mac_key ` set rs \<subseteq> set minted \<and>
     (\<forall>r \<in> set rs. if_mac_key r \<in> set accepted \<longrightarrow> spent L r)"

definition file_ok :: "'raw invite_lib \<Rightarrow> string list \<Rightarrow> string list \<Rightarrow> 'raw option \<Rightarrow> bool" where
  "file_ok L minted accepted disk \<longleftrightarrow> (\<forall>rs. parse_invite_file L disk = Inr rs \<longrightarrow> invites_ok L minted accepted rs)"

lemma invites_ok_mono: "invites_ok L M A rs \<Longrightarrow> invites_ok L (k # M) A rs"
  by (auto simp: invites_ok_def)

lemma adopt_keys: "map if_mac_key (adopt_consumption d rs) = map if_mac_key rs"
  by (induction rs) auto

lemma adopt_spent:
  "\<forall>r \<in> set rs. if_mac_key r \<in> K \<longrightarrow> spent L r \<Longrightarrow> \<forall>r \<in> set (adopt_consumption d rs). if_mac_key r \<in> K \<longrightarrow> spent L r"
  by (induction rs) (auto simp: spent_def)

lemma merge_record_ok:
  assumes "invites_ok L M A rs" "if_mac_key d \<in> set M"
    and "if_mac_key d \<in> set A \<longrightarrow> spent L d \<or> if_mac_key d \<in> if_mac_key ` set rs"
  shows "invites_ok L M A (merge_record L now d rs)" "if_mac_key ` set rs \<subseteq> if_mac_key ` set (merge_record L now d rs)"
proof -
  have keys: "if_mac_key ` set (adopt_consumption d rs) = if_mac_key ` set rs"
    using adopt_keys [of d rs] by (metis set_map)
  show "invites_ok L M A (merge_record L now d rs)"
  proof (cases "list_ex (\<lambda>r. if_mac_key r = if_mac_key d) rs")
    case True
    then show ?thesis using assms(1) adopt_spent [of rs "set A" L d] keys
      by (simp add: invites_ok_def merge_record_def adopt_keys)
  next
    case False
    then show ?thesis using assms by (auto simp: invites_ok_def merge_record_def list_ex_iff)
  qed
  show "if_mac_key ` set rs \<subseteq> if_mac_key ` set (merge_record L now d rs)"
    using keys by (auto simp: merge_record_def)
qed

lemma merge_ok:
  assumes "invites_ok L M A rs"
    and "\<forall>d \<in> set ds. if_mac_key d \<in> set M \<and>
      (if_mac_key d \<in> set A \<longrightarrow> spent L d \<or> if_mac_key d \<in> if_mac_key ` set rs)"
  shows "invites_ok L M A (fold (merge_record L now) ds rs)"
  using assms
proof (induction ds arbitrary: rs)
  case Nil
  then show ?case by simp
next
  case (Cons d ds)
  have "invites_ok L M A (merge_record L now d rs)" "if_mac_key ` set rs \<subseteq> if_mac_key ` set (merge_record L now d rs)"
    using merge_record_ok [of L M A rs d now] Cons.prems by auto
  moreover from this(2) have "\<forall>e \<in> set ds. if_mac_key e \<in> set M \<and> (if_mac_key e \<in> set A \<longrightarrow>
      spent L e \<or> if_mac_key e \<in> if_mac_key ` set (merge_record L now d rs))"
    using Cons.prems(2) by (meson list.set_intros(2) subsetD)
  ultimately show ?case using Cons.IH [of "merge_record L now d rs"] by simp
qed

text \<open>
  A save keeps both copies in order, also for a key \<open>k\<close> that only the records in memory show as spent.
\<close>

lemma invite_save_ok:
  assumes "lib_ok L" "invites_ok L M (ks @ A) rs" "file_ok L M A disk" "set ks \<subseteq> if_mac_key ` set rs"
    and "invite_save L io disk rs = (rs', disk', r)"
  shows "invites_ok L M (ks @ A) rs'" "r = Inr () \<Longrightarrow> file_ok L M (ks @ A) disk'" "r \<noteq> Inr () \<Longrightarrow> disk' = disk"
proof -
  have "invites_ok L M (ks @ A) rs1" if l: "merge_consumption_from_disk L io disk rs = Inr rs1" for rs1
  proof (cases disk)
    case None
    then show ?thesis using l assms(2) by (auto simp: merge_consumption_from_disk_def and_then_Inr read_raw_def split: if_splits)
  next
    case (Some t)
    then obtain ds where ds: "invite_parse L t = Inr ds" "rs1 = fold (merge_record L (sv_now io)) ds rs"
      using l by (auto simp: merge_consumption_from_disk_def and_then_Inr read_raw_def split: if_splits)
    then have "invites_ok L M A ds" using assms(3) Some by (simp add: file_ok_def parse_invite_file_def)
    then show ?thesis unfolding ds(2) using assms(2,4) by (intro merge_ok) (auto simp: invites_ok_def)
  qed
  then show "invites_ok L M (ks @ A) rs'" "r = Inr () \<Longrightarrow> file_ok L M (ks @ A) disk'" "r \<noteq> Inr () \<Longrightarrow> disk' = disk"
    using assms(1,2,5)
    by (auto simp: invite_save_def lib_ok_def file_ok_def parse_invite_file_def invite_parse_def
        split: sum.splits if_splits option.splits)
qed

section \<open>The invariant\<close>

definition sys_inv :: "'raw invite_lib \<Rightarrow> 'raw invite_sys \<Rightarrow> bool" where
  "sys_inv L s \<longleftrightarrow> file_ok L (sy_minted s) (sy_accepted s) (sy_disk s) \<and>
     invites_ok L (sy_minted s) (sy_accepted s) (ic_store (sy_cache s)) \<and>
     distinct (sy_accepted s) \<and> set (sy_accepted s) \<subseteq> set (sy_minted s) \<and>
     (case sy_pending s of Some (i, _) \<Rightarrow>
        i < length (ic_store (sy_cache s)) \<and> if_mac_key (ic_store (sy_cache s) ! i) \<notin> set (sy_accepted s)
      | None \<Rightarrow> True)"

lemma invites_ok_weaken: "invites_ok L M (k # A) rs \<Longrightarrow> invites_ok L M A rs"
  by (auto simp: invites_ok_def)

lemma refresh_ok:
  "file_ok L M A disk \<Longrightarrow> invites_ok L M A (ic_store c) \<Longrightarrow> invites_ok L M A (ic_store (refresh_invites L ok disk c))"
  by (auto simp: refresh_invites_def read_raw_def file_ok_def split: sum.splits if_splits)

lemma invites_parsed_mem: "(i, r) \<in> set (invites_parsed L rs) \<longleftrightarrow> i < length rs \<and> parse_record L (rs ! i) = Some r"
proof -
  have "(i, r) \<in> set (List.map_filter g xs) \<longleftrightarrow> (\<exists>x \<in> set xs. g x = Some (i, r))" for g :: "nat \<times> invite_record_file \<Rightarrow> _" and xs
    by (induction xs) (auto simp: List.map_filter_simps split: option.splits)
  then have "(i, r) \<in> set (invites_parsed L rs) \<longleftrightarrow> (\<exists>f. (i, f) \<in> set (enumerate 0 rs) \<and> parse_record L f = Some r)"
    unfolding invites_parsed_def by fastforce
  then show ?thesis by (auto simp: in_set_enumerate_eq)
qed

lemma parse_record_spent: "parse_record L f = Some r \<Longrightarrow> spent L f \<longleftrightarrow> ir_consumed_at r \<noteq> None"
  by (auto simp: parse_record_def spent_def split: bind_splits)

lemma redeem_decide_Inr:
  assumes "redeem_decide L ekm p now om rs s = (s', Inr (i, sp))"
  obtains r where "i < length rs" "parse_record L (rs ! i) = Some r" "invite_redeemable now r"
    "mac_proof L (ir_mac_key r) ekm CLIENT_PROOF_DOMAIN = p"
    "sp = mac_proof L (ir_mac_key r) ekm SERVER_PROOF_DOMAIN"
    "om \<lparr>im_assigned_name = ir_assigned_name r, im_role = ir_role r\<rparr> s = (s', True)"
    "\<And>n. ir_assigned_name r = Some n \<Longrightarrow> validate_peer_label n = Inr ()"
proof -
  let ?P = "\<lambda>(_, r). mac_proof L (ir_mac_key r) ekm CLIENT_PROOF_DOMAIN = p \<and> within_retention now r"
  obtain r where r: "find ?P (invites_parsed L rs) = Some (i, r)" "invite_redeemable now r"
    "om \<lparr>im_assigned_name = ir_assigned_name r, im_role = ir_role r\<rparr> s = (s', True)"
    "sp = mac_proof L (ir_mac_key r) ekm SERVER_PROOF_DOMAIN"
    "\<And>n. ir_assigned_name r = Some n \<Longrightarrow> validate_peer_label n = Inr ()"
    using assms by (auto simp: redeem_decide_def Let_def split: option.splits if_splits prod.splits sum.splits)
  then have "(i, r) \<in> set (invites_parsed L rs)" "?P (i, r)"
    by (auto simp: find_Some_iff) (metis nth_mem)
  then show ?thesis using r that by (simp add: invites_parsed_mem)
qed

lemma consume_at_ok:
  assumes "lib_ok L" "invites_ok L M A rs" "i < length rs"
  shows "invites_ok L M (if_mac_key (rs ! i) # A) (consume_at (rfc3339_at L now) i rs)"
    "if_mac_key (rs ! i) \<in> if_mac_key ` set (consume_at (rfc3339_at L now) i rs)"
proof -
  let ?r = "(rs ! i)\<lparr>if_consumed_at := Some (rfc3339_at L now)\<rparr>"
  have keys: "map if_mac_key (consume_at (rfc3339_at L now) i rs) = map if_mac_key rs"
    using assms(3) by (simp add: consume_at_def map_update list_update_same_conv)
  moreover have "spent L ?r" using assms(1) by (simp add: spent_def lib_ok_def)
  moreover have "r = ?r \<or> r \<in> set rs \<and> if_mac_key r \<noteq> if_mac_key (rs ! i)"
    if l: "r \<in> set (consume_at (rfc3339_at L now) i rs)" for r
  proof -
    obtain j where j: "j < length rs" "r = consume_at (rfc3339_at L now) i rs ! j"
      using l by (auto simp: consume_at_def in_set_conv_nth)
    have "if_mac_key (rs ! j) \<noteq> if_mac_key (rs ! i)" if "j \<noteq> i"
      using that assms(2,3) j(1) by (auto simp: invites_ok_def distinct_conv_nth)
    then show ?thesis using j assms(3) by (cases "j = i") (auto simp: consume_at_def)
  qed
  ultimately show "invites_ok L M (if_mac_key (rs ! i) # A) (consume_at (rfc3339_at L now) i rs)"
    using assms(2) unfolding invites_ok_def by (metis list.set_intros(2) set_ConsD set_map)
  show "if_mac_key (rs ! i) \<in> if_mac_key ` set (consume_at (rfc3339_at L now) i rs)"
    using keys assms(3) by (metis image_set nth_mem image_eqI)
qed

text \<open>The second half of a redemption, for each of its results.\<close>

lemma redeem_commit_ok:
  assumes "lib_ok L" "file_ok L M A disk" "invites_ok L M A (ic_store c)" "i < length (ic_store c)"
    and "redeem_commit L io now i sp disk c = (c', disk', r)"
  shows "invites_ok L M (log_accepted (ic_store c) i r A) (ic_store c')" "file_ok L M (log_accepted (ic_store c) i r A) disk'"
proof -
  let ?k = "if_mac_key (ic_store c ! i)" and ?rs = "consume_at (rfc3339_at L now) i (ic_store c)"
  obtain rs1 d1 r1 where sv: "invite_save L (rd_save io) disk ?rs = (rs1, d1, r1)" by (metis prod_cases3)
  have s: "invites_ok L M (?k # A) rs1" "r1 = Inr () \<Longrightarrow> file_ok L M (?k # A) d1" "r1 \<noteq> Inr () \<Longrightarrow> d1 = disk"
    using invite_save_ok [of L M "[?k]" A ?rs disk "rd_save io" rs1 d1 r1] consume_at_ok [of L M A "ic_store c" i now] assms sv
    by simp_all
  have w: "file_ok L M (?k # A) d \<Longrightarrow> file_ok L M A d" for d by (auto simp: file_ok_def intro: invites_ok_weaken)
  have "invites_ok L M (log_accepted (ic_store c) i r A) (ic_store c') \<and> file_ok L M (log_accepted (ic_store c) i r A) disk'"
  proof (cases "\<not> rd_lock io \<or> r1 \<noteq> Inr ()")
    case True
    then have "c' = c \<and> disk' = disk \<or> ic_store c' = rs1 \<and> disk' = disk" "\<And>x. r \<noteq> Inr x"
      using assms(5) sv s(3) by (auto simp: redeem_commit_def split: if_splits sum.splits)
    then show ?thesis using assms(2,3) invites_ok_weaken [OF s(1)] by (cases r) (auto simp: log_accepted_def)
  next
    case False
    then have "rd_lock io" "r1 = Inr ()" by simp_all
    then have "ic_store c' = rs1 \<and> disk' = d1 \<and> (r = Inl StoreIo \<or> r = Inr (Accepted sp))"
      using assms(5) sv by (auto simp: redeem_commit_def read_raw_def split: if_splits)
    then show ?thesis using s(1,2) \<open>r1 = Inr ()\<close> invites_ok_weaken [OF s(1)] w [of d1] by (auto simp: log_accepted_def)
  qed
  then show "invites_ok L M (log_accepted (ic_store c) i r A) (ic_store c')" "file_ok L M (log_accepted (ic_store c) i r A) disk'"
    by simp_all
qed

lemma mint_store_ok:
  assumes "lib_ok L" "file_ok L M A disk" "set A \<subseteq> set M" "secret_key L secret \<notin> set M"
  shows "file_ok L (secret_key L secret # M) A (fst (mint_store L io secret now assigned role disk))"
proof -
  let ?M = "secret_key L secret # M"
  have old: "file_ok L ?M A disk" using assms(2) by (auto simp: file_ok_def intro: invites_ok_mono)
  show ?thesis
  proof (cases "mi_lock io \<and> (\<exists>rs. invite_load L (mi_load io) disk = Inr rs)")
    case False
    then show ?thesis using old by (auto simp: mint_store_def split: sum.splits)
  next
    case True
    then obtain rs where rs: "mi_lock io" "invite_load L (mi_load io) disk = Inr rs" by auto
    let ?rs = "fst (invite_add_with_role L secret now assigned role (invite_prune L now rs))"
    have "invites_ok L M A rs" using rs(2) assms(2) by (auto simp: invite_load_def read_raw_def and_then_Inr file_ok_def split: if_splits)
    then have "invites_ok L ?M A ?rs" using assms(3,4)
      by (auto simp: invites_ok_def invite_add_with_role_def invite_push_def Let_def invite_prune_def secret_key_def
          distinct_map_filter image_iff subset_iff)
    then have "file_ok L ?M A (fst (snd (invite_save L (mi_save io) disk ?rs)))"
      using invite_save_ok [of L ?M "[]" A ?rs disk "mi_save io"] assms(1) old
      by (metis append_Nil empty_subsetI fst_conv list.set(1) prod_cases3 snd_conv)
    then show ?thesis using rs
      by (auto simp: mint_store_def Let_def split: prod.splits sum.splits)
  qed
qed

lemma sys_inv_step:
  assumes "invite_step L s s'" "lib_ok L" "sys_inv L s"
  shows "sys_inv L s'"
  using assms
proof (cases rule: invite_step.cases)
  case (mint secret io now assigned role)
  then show ?thesis using assms(2,3) mint_store_ok [of L "sy_minted s" "sy_accepted s" "sy_disk s" secret io now assigned role]
    by (auto simp: sys_inv_def intro: invites_ok_mono split: option.splits)
next
  case (refresh ok)
  then show ?thesis using assms(3) refresh_ok [of L "sy_minted s" "sy_accepted s" "sy_disk s" "sy_cache s" ok]
    by (simp add: sys_inv_def)
next
  case (decide ekm client_proof now om u u' i sp)
  obtain r where r: "i < length (ic_store (sy_cache s))" "parse_record L (ic_store (sy_cache s) ! i) = Some r" "invite_redeemable now r"
    using redeem_decide_Inr [OF decide(3)] by metis
  then have "\<not> spent L (ic_store (sy_cache s) ! i)" by (simp add: parse_record_spent invite_redeemable_def)
  then show ?thesis using assms(3) r(1) decide(1) by (auto simp: sys_inv_def invites_ok_def)
next
  case (commit i sp now io c d r)
  let ?A = "log_accepted (ic_store (sy_cache s)) i r (sy_accepted s)"
  have i: "i < length (ic_store (sy_cache s))" "if_mac_key (ic_store (sy_cache s) ! i) \<notin> set (sy_accepted s)"
    "if_mac_key (ic_store (sy_cache s) ! i) \<in> set (sy_minted s)"
    using assms(3) commit(2) by (auto simp: sys_inv_def invites_ok_def)
  then have "distinct ?A" "set ?A \<subseteq> set (sy_minted s)"
    using assms(3) by (auto simp: log_accepted_def sys_inv_def split: sum.splits redeem_outcome.splits)
  then show ?thesis
    using commit assms(2,3) i redeem_commit_ok [of L "sy_minted s" "sy_accepted s" "sy_disk s" "sy_cache s" i io now sp c d r]
    by (simp add: sys_inv_def)
qed

lemma sys_inv_run: "(invite_step L)\<^sup>*\<^sup>* s s' \<Longrightarrow> lib_ok L \<Longrightarrow> sys_inv L s \<Longrightarrow> sys_inv L s'"
  by (induction rule: rtranclp_induct) (auto intro: sys_inv_step)

section \<open>The theorem\<close>

text \<open>A host that has just opened the store, in which no key occurs twice.\<close>

definition sys_start :: "'raw invite_lib \<Rightarrow> 'raw option \<Rightarrow> 'raw invite_sys \<Rightarrow> bool" where
  "sys_start L disk s \<longleftrightarrow> open_invites L True disk = Inr (sy_cache s) \<and> sy_disk s = disk \<and> sy_pending s = None \<and>
     sy_minted s = map if_mac_key (ic_store (sy_cache s)) \<and> distinct (sy_minted s) \<and> sy_accepted s = []"

lemma sys_start_inv:
  assumes "sys_start L disk s"
  shows "sys_inv L s"
proof -
  obtain rs where "parse_invite_file L disk = Inr rs" "sy_cache s = \<lparr>ic_raw = disk, ic_store = rs\<rparr>"
    using assms by (auto simp: sys_start_def open_invites_def read_raw_def and_then_Inr)
  then show ?thesis using assms by (auto simp: sys_start_def sys_inv_def file_ok_def invites_ok_def)
qed

text \<open>A call of \<open>redeem\<close> is a run of the system's steps.\<close>

lemma redeem_is_run:
  assumes "sy_pending s = None" "redeem L io ekm p now om (sy_disk s) (sy_cache s) (u :: unit) = (u', c, d, r)"
  obtains s' where "(invite_step L)\<^sup>*\<^sup>* s s'" "sy_cache s' = c" "sy_disk s' = d" "sy_pending s' = None"
    "sy_minted s' = sy_minted s" "\<And>sp. r = Inr (Accepted sp) \<Longrightarrow> length (sy_accepted s') = Suc (length (sy_accepted s))"
proof -
  let ?c = "refresh_invites L (rd_refresh io) (sy_disk s) (sy_cache s)"
  let ?s = "s\<lparr>sy_cache := ?c\<rparr>"
  have s1: "invite_step L s ?s" using assms(1) by (rule invite_step.refresh)
  show ?thesis
  proof (cases "redeem_decide L ekm p now om (ic_store ?c) u")
    case (Pair v out)
    show ?thesis
    proof (cases out)
      case (Inl o1)
      have "o1 \<noteq> Accepted sp" for sp using Pair Inl
        by (auto simp: redeem_decide_def Let_def split: option.splits if_splits prod.splits)
      then show ?thesis using that [of ?s] s1 assms Pair Inl by (auto simp: redeem_def Let_def)
    next
      case (Inr x)
      obtain i sp where x: "x = (i, sp)" by (cases x)
      let ?t = "?s\<lparr>sy_pending := Some (i, sp, now)\<rparr>"
      let ?u = "?t\<lparr>sy_disk := d, sy_cache := c, sy_pending := None,
        sy_accepted := log_accepted (ic_store (sy_cache ?t)) i r (sy_accepted ?t)\<rparr>"
      have "invite_step L ?s ?t" using assms(1) Pair Inr x
        by (intro invite_step.decide [where on_matched = om and u = u and u' = v]) simp_all
      moreover have "redeem_commit L io now i sp (sy_disk ?t) (sy_cache ?t) = (c, d, r)"
        using assms(2) Pair Inr x by (simp add: redeem_def Let_def)
      then have "invite_step L ?t ?u" by (intro invite_step.commit) simp_all
      ultimately have "(invite_step L)\<^sup>*\<^sup>* s ?u" using s1 by (meson rtranclp.rtrancl_into_rtrancl rtranclp.rtrancl_refl)
      then show ?thesis using that [of ?u] by (simp add: log_accepted_def)
    qed
  qed
qed


section \<open>A small library\<close>

text \<open>Functions with the promised behaviour: a file is its records, a time a row of marks.\<close>

definition toy_lib :: "invite_store invite_lib" where
  "toy_lib = \<lparr>blake3_hash = (\<lambda>s. take 32 (s @ replicate 32 0)), blake3_keyed = (\<lambda>k m. butlast k @ [last m]),
     base64_encode = map (\<lambda>b. char_of (unat b)), base64_decode = (\<lambda>s. Some (map (\<lambda>c. of_nat (of_char c)) s)),
     toml_read = Some, toml_write = Some,
     rfc3339_format = (\<lambda>n. Some (replicate (n div 10 ^ 9) CHR ''x'')), rfc3339_parse = (\<lambda>s. Some (length s * 10 ^ 9))\<rparr>"

lemma toy_lib_sel [simp]:
  "blake3_hash toy_lib s = take 32 (s @ replicate 32 0)" "blake3_keyed toy_lib k m = butlast k @ [last m]"
  "base64_encode toy_lib bs = map (\<lambda>b. char_of (unat b)) bs"
  "base64_decode toy_lib w = Some (map (\<lambda>c. of_nat (of_char c)) w)"
  "toml_read toy_lib f = Some f" "toml_write toy_lib f = Some f"
  "rfc3339_format toy_lib n = Some (replicate (n div 10 ^ 9) CHR ''x'')"
  "rfc3339_parse toy_lib w = Some (length w * 10 ^ 9)"
  by (simp_all add: toy_lib_def)

lemma toy_lib_ok: "lib_ok toy_lib"
  by (simp add: lib_ok_def)

definition all_well :: redeem_io where
  "all_well = \<lparr>rd_refresh = True, rd_lock = True,
     rd_save = \<lparr>sv_read = True, sv_dir = True, sv_write = True, sv_now = 10 ^ 9\<rparr>, rd_reread = True\<rparr>"

definition toy_start :: "invite_store invite_sys" where
  "toy_start = \<lparr>sy_disk = None, sy_cache = \<lparr>ic_raw = None, ic_store = []\<rparr>, sy_pending = None, sy_minted = [], sy_accepted = []\<rparr>"

definition toy_secret :: bytes where
  "toy_secret = replicate 20 7"

definition toy_mint :: mint_io where
  "toy_mint = \<lparr>mi_lock = True, mi_load = True, mi_save = rd_save all_well\<rparr>"

definition toy_disk :: "invite_store option" where
  "toy_disk = fst (mint_store toy_lib toy_mint toy_secret (10 ^ 9) None Full None)"

lemmas toy_simps = toy_secret_def toy_mint_def all_well_def secret_key_def

lemma toy_disk_eq:
  "toy_disk = Some [\<lparr>if_mac_key = secret_key toy_lib toy_secret, if_created_at = ''x'', if_consumed_at = None,
     if_assigned_name = None, if_role = Some ''full''\<rparr>]"
  by (simp add: toy_disk_def mint_store_def invite_load_def read_raw_def parse_invite_file_def invite_prune_def
      invite_add_with_role_def invite_push_def Let_def rfc3339_at_def invite_save_def merge_consumption_from_disk_def toy_simps)

lemma toy_secret_length [simp]: "length toy_secret = 20"
  by (simp add: toy_secret_def)

lemma toy_time: "rfc3339_at toy_lib 2000000000 = ''xx''"
proof -
  have "(2000000000 - 2000000000 mod 10 ^ 9) div 10 ^ 9 = Suc (Suc 0)" by simp
  then show ?thesis by (simp only: rfc3339_at_def toy_lib_sel option.case replicate.simps)
qed

lemma toy_key: "mac_from_base64 toy_lib (secret_key toy_lib toy_secret) = Some (toy_secret @ replicate 12 0)"
  by (simp add: mac_from_base64_def toy_simps comp_def of_char_of)

lemma toy_record:
  "parse_record toy_lib \<lparr>if_mac_key = secret_key toy_lib toy_secret, if_created_at = ''x'', if_consumed_at = None,
     if_assigned_name = None, if_role = Some ''full''\<rparr> =
   Some \<lparr>ir_mac_key = toy_secret @ replicate 12 0, ir_created_at = 10 ^ 9, ir_consumed_at = None,
     ir_assigned_name = None, ir_role = Full\<rparr>"
  by (simp add: parse_record_def toy_key parse_role_def role_from_str_def all_roles_def)

text \<open>The redemption of the invite one second after it was minted.\<close>

lemma toy_redeem:
  "fst (snd (snd (redeem toy_lib all_well [3] (fst (proofs_from_secret toy_lib toy_secret [3])) (2 * 10 ^ 9)
     (\<lambda>_ u. (u, True)) toy_disk \<lparr>ic_raw = None, ic_store = []\<rparr> ()))) \<noteq> None \<and>
   snd (snd (snd (redeem toy_lib all_well [3] (fst (proofs_from_secret toy_lib toy_secret [3])) (2 * 10 ^ 9)
     (\<lambda>_ u. (u, True)) toy_disk \<lparr>ic_raw = None, ic_store = []\<rparr> ()))) =
     Inr (Accepted (snd (proofs_from_secret toy_lib toy_secret [3])))"
proof -
  let ?f = "\<lparr>if_mac_key = secret_key toy_lib toy_secret, if_created_at = ''x'', if_consumed_at = None,
     if_assigned_name = None, if_role = Some ''full''\<rparr>"
  have ref: "refresh_invites toy_lib True toy_disk \<lparr>ic_raw = None, ic_store = []\<rparr> = \<lparr>ic_raw = toy_disk, ic_store = [?f]\<rparr>"
    by (simp add: toy_disk_eq refresh_invites_def read_raw_def parse_invite_file_def invite_parse_def
        bad_invite_role_def role_from_str_def all_roles_def)
  have dec: "redeem_decide toy_lib [3] (fst (proofs_from_secret toy_lib toy_secret [3])) (2 * 10 ^ 9) (\<lambda>_ u. (u, True)) [?f] () =
      ((), Inr (0, snd (proofs_from_secret toy_lib toy_secret [3])))"
    by (simp add: redeem_decide_def invites_parsed_def List.map_filter_simps toy_record proofs_from_secret_def Let_def
        within_retention_def invite_redeemable_def younger_def INVITE_RETENTION_def INVITE_TTL_def)
  have com: "snd (redeem_commit toy_lib all_well (2 * 10 ^ 9) 0 p toy_disk \<lparr>ic_raw = toy_disk, ic_store = [?f]\<rparr>) =
      (Some [?f\<lparr>if_consumed_at := Some ''xx''\<rparr>], Inr (Accepted p))" for p
    by (simp add: redeem_commit_def all_well_def invite_save_def merge_consumption_from_disk_def read_raw_def toy_disk_eq
        invite_parse_def bad_invite_role_def role_from_str_def all_roles_def consume_at_def merge_record_def
        toy_time)
  show ?thesis using ref dec com by (simp add: redeem_def Let_def all_well_def)
qed


section \<open>A redemption that fails after its hook ran\<close>

text \<open>
  The hook pins the redeemer before the lock of the file is taken. When the lock fails the call ends in an
  error, the pin stays and so does the invite, open to a second redeemer: here the hook counts its pins.
\<close>

definition count_pins :: "invite_match \<Rightarrow> nat \<Rightarrow> nat \<times> bool" where
  "count_pins im n = (n + 1, True)"

lemma redeem_lock_failure:
  assumes "\<not> rd_lock io"
    and "redeem_decide L ekm p now om (ic_store (refresh_invites L (rd_refresh io) disk c)) s = (s', Inr (i, sp))"
  shows "redeem L io ekm p now om disk c s = (s', refresh_invites L (rd_refresh io) disk c, disk, Inl StoreLock)"
  using assms by (simp add: redeem_def redeem_commit_def Let_def)

lemma invite_pins_after_error:
  "let p = fst (proofs_from_secret toy_lib toy_secret [3]);
       (n, c, d, r) = redeem toy_lib (all_well\<lparr>rd_lock := False\<rparr>) [3] p (2 * 10 ^ 9) count_pins toy_disk \<lparr>ic_raw = None, ic_store = []\<rparr> 0;
       (n', c', d', r') = redeem toy_lib (all_well\<lparr>rd_lock := False\<rparr>) [3] p (2 * 10 ^ 9) count_pins d c n
   in r = Inl StoreLock \<and> n = 1 \<and> r' = Inl StoreLock \<and> n' = 2"
proof -
  let ?f = "\<lparr>if_mac_key = secret_key toy_lib toy_secret, if_created_at = ''x'', if_consumed_at = None,
     if_assigned_name = None, if_role = Some ''full''\<rparr>"
  let ?c = "\<lparr>ic_raw = toy_disk, ic_store = [?f]\<rparr>"
  have ref: "refresh_invites toy_lib True toy_disk \<lparr>ic_raw = None, ic_store = []\<rparr> = ?c" "refresh_invites toy_lib True toy_disk ?c = ?c"
    by (simp_all add: toy_disk_eq refresh_invites_def read_raw_def parse_invite_file_def invite_parse_def
        bad_invite_role_def role_from_str_def all_roles_def)
  have dec: "redeem_decide toy_lib [3] (fst (proofs_from_secret toy_lib toy_secret [3])) (2 * 10 ^ 9) count_pins [?f] n =
      (n + 1, Inr (0, snd (proofs_from_secret toy_lib toy_secret [3])))" for n
    by (simp add: redeem_decide_def invites_parsed_def List.map_filter_simps toy_record proofs_from_secret_def Let_def
        within_retention_def invite_redeemable_def younger_def INVITE_RETENTION_def INVITE_TTL_def count_pins_def)
  have "redeem toy_lib (all_well\<lparr>rd_lock := False\<rparr>) [3] (fst (proofs_from_secret toy_lib toy_secret [3])) (2 * 10 ^ 9) count_pins toy_disk c n =
      (n + 1, ?c, toy_disk, Inl StoreLock)" if l: "refresh_invites toy_lib True toy_disk c = ?c" for c n
    using redeem_lock_failure [of "all_well\<lparr>rd_lock := False\<rparr>" toy_lib "[3]" _ "2 * 10 ^ 9" count_pins toy_disk c n] dec [of n] l
    by (simp add: all_well_def)
  then show ?thesis using ref by (simp add: Let_def)
qed

end
