(* ===== verification/Spec2Isabelle.thy ===== *)
theory Spec2Isabelle
  imports Replay_Delivery Session_Guarantees Broker_Guarantees Quota_Guarantees Admission_Guarantees Trust_Guarantees Loader_Guarantees Frame_Guarantees
    Sync_Guarantees Invite_Guarantees
begin

text \<open>
  \<^bold>\<open>A verification of the host side of qsh\<close>

  qsh is a remote shell over QUIC. A host keeps sessions (a child process on a terminal or a pipe)
  alive across connections; a client opens, attaches to, writes to, reads from and closes them.
  A peer is authenticated by a pinned key or a CA, and every request is decided by the access
  control before it reaches the broker. The development follows the path of a request: the
  \<^emph>\<open>admission gate\<close> decides whether a handshake starts, the \<^emph>\<open>trust store\<close> says who the peer is, the
  \<^emph>\<open>policy\<close> says what it may do, the \<^emph>\<open>quotas\<close> bound how much of it, the \<^emph>\<open>broker\<close> finds or opens the
  session, its \<^emph>\<open>actor\<close> executes commands one at a time, and the \<^emph>\<open>replay ring\<close> keeps what the child
  printed until the client has it. A client may instead follow the terminal's \<^emph>\<open>screen\<close>: the host numbers
  the states of the screen and sends differences between them on a stream or in datagrams. Paths below are relative to \<open>src/crates\<close>.

  \<^bold>\<open>Theories and the code they model\<close>

  \<^item> \<open>Qsh_Prelude\<close>: bytes, rule collections, Rust string and map operations (strings are lists of
    bytes), and the interfaces \<open>machine\<close> (an invariant kept by every step), \<open>codec\<close> (decoding inverts
    encoding) and \<open>wire_field\<close> (a reader that accepts exactly what the writer writes), interpreted
    below on the model's own operations. \<open>Utf8_Chars\<close>: the characters of a text.
  \<^item> \<open>Replay_Ring\<close> (\<open>qsh-core/src/broker/ring.rs\<close>): the record \<open>replay_ring\<close> is \<open>ReplayRing\<close>; \<open>push\<close>,
    \<open>push_control\<close>, \<open>evict\<close>, \<open>ring_read\<close> and \<open>available_from\<close> are its methods. The append-only
    \<open>replay_log\<close> is the abstract specification and \<open>holds\<close> the refinement relation; the interface
    \<open>replay_store\<close> is interpreted on the ring. \<open>Replay_Delivery\<close> shows what a read returns and that a
    consumer following its cursors gets everything once, or is told of a gap.
  \<^item> \<open>Writer_Lease\<close> (\<open>broker/lease.rs\<close>): who may write, take-over and release.
  \<^item> \<open>Session_Actor\<close> (\<open>broker/session.rs\<close>, \<open>broker/signal.rs\<close>): the record \<open>session\<close> is the actor's state
    with the shared \<open>Meta\<close>; \<open>handle_command\<close>, \<open>enqueue_write\<close>, \<open>begin_close\<close>, \<open>escalate\<close> and
    \<open>finalise\<close> are the functions of those names, and \<open>actor_step\<close> is one turn of the select loop or of
    one of the two I/O tasks. A run is a list of timed events, so every interleaving of inbox,
    child exit, timer, reader and writer is covered. \<open>Session_Guarantees\<close> proves exactly-once and
    in-order input, one answer per command, the order of exit and close entries, and that a close ends.
  \<^item> \<open>Resume_Registry\<close> (\<open>broker/resume.rs\<close>): resume tokens, single use, expiry.
  \<^item> \<open>Session_Broker\<close> (\<open>broker/mod.rs\<close>): registry, slot reservation, open, close, drain, the reaper in
    its two critical sections, and the session backend. \<open>Broker_Guarantees\<close>: the session caps, that
    every registered session is a run of the actor, drain and reap exactness, error totality.
  \<^item> \<open>Audit_Window\<close>, \<open>Quota_Limits\<close> (\<open>quota.rs\<close>, \<open>quota/*.rs\<close>), \<open>Admission_Gate\<close> (\<open>admission.rs\<close>): permits
    and counters, the rate sketch, and the windowed audit of rejections. \<open>Quota_Guarantees\<close> and
    \<open>Admission_Guarantees\<close>: bounds, exact refusals, the sketch against an exact sliding window, and
    through the interface \<open>audited\<close> that no rejection is lost by either audit.
  \<^item> \<open>Error_Codes\<close> (\<open>qsh-proto/src/error.rs\<close>, \<open>qsh-core/src/ops\<close>), \<open>Acl_Policy\<close> (\<open>acl/policy.rs\<close>, \<open>acl/mod.rs\<close>,
    \<open>acl/roles.rs\<close>, \<open>acl/punch.rs\<close>, \<open>acl/resolving.rs\<close>): the evaluator \<open>decide_standing\<close> and the
    authorizers. \<open>Acl_Guarantees\<close> reads it declaratively and proves the punch choke point once
    against the interface \<open>authorizer_contract\<close>, interpreted on all four authorizers.
  \<^item> \<open>Acl_Grants\<close> (\<open>acl/pin_grants.rs\<close>, \<open>acl/paths.rs\<close>, \<open>acl/roles.rs\<close>) and \<open>Grant_Guarantees\<close>: the grants of
    a pin, their edits, and the covering relation by which connections are closed.
  \<^item> \<open>Acl_Loader\<close> (\<open>acl/load.rs\<close>) and \<open>Loader_Guarantees\<close>: from the bytes of \<open>acl.toml\<close> to an authorizer.
  \<^item> \<open>Trust_Store\<close> (\<open>trust/mod.rs\<close>, \<open>qsh-proto/src/types/trust.rs\<close>) and \<open>Trust_Guarantees\<close>: the store,
    its edits, and the shared snapshot that answers from the file as it is now.
  \<^item> \<open>Invite_Code\<close> (\<open>qsh-proto/src/pairing.rs\<close>) and \<open>Invite_Store\<close> (\<open>trust/pairing.rs\<close>, \<open>ops/trust.rs\<close>, and the rules for
    names of \<open>trust/mod.rs\<close> and \<open>qsh-proto/src/wire.rs\<close>): the code a user copies, the records of
    \<open>invites.toml\<close> with their merge, \<open>redeem\<close> in its two halves and \<open>trust_invite\<close>; the code parser accepts
    exactly the spellings of a secret. \<open>Invite_Guarantees\<close> runs one host beside processes that mint
    (\<open>invite_step\<close>) and proves that no invite is accepted twice, and shows what a failed lock leaves behind.
  \<^item> \<open>Frame_Codec\<close> (\<open>qsh-proto/src/frame.rs\<close>, \<open>qsh-proto/src/datagram.rs\<close>) and \<open>Frame_Guarantees\<close>.
  \<^item> \<open>Screen_State\<close>, \<open>Screen_Update\<close>, \<open>Screen_Parts\<close> (\<open>qsh-proto/src/screen/*.rs\<close>): the normalised screen, its
    differences, effects and updates, their encodings, and the parts an update travels in.
    \<open>Screen_Fields\<close> and \<open>Screen_Codec\<close> prove every reader exact; \<open>Screen_Diff\<close> that a difference turns
    its base into its target and that any difference is safe; \<open>Parts_Guarantees\<close> what the two
    reassemblers return under the orders their carriers deliver in.
  \<^item> \<open>Screen_Emulator\<close>, \<open>Screen_Host\<close> (\<open>qsh-core/src/screen/mod.rs\<close>, \<open>collector.rs\<close>) and \<open>Screen_Client\<close>
    (\<open>qsh-core/src/client/screen.rs\<close>): the record \<open>vt100\<close> holds what the code calls of the terminal
    emulator, \<open>host_screen\<close> is \<open>HostScreen\<close> and \<open>client_screen\<close> is \<open>ClientScreen\<close>.
    \<open>Emulator_Guarantees\<close>: the filter against a single pass, the bounds of the collector, validity of
    every snapshot. \<open>Host_Guarantees\<close>: the invariant of the host. \<open>Screen_Sync\<close> puts host, network and
    client together (\<open>sync_reach\<close>), and \<open>Sync_Guarantees\<close> proves that the client's states are the
    host's, that it converges, and that the stream composes with both.

  \<^bold>\<open>Conventions\<close>

  A fallible operation returns a sum, \<open>Inl\<close> the error; an outer \<open>option\<close> is \<open>None\<close> where the code
  would panic, and the theorems show it never is. Offsets, counters and lengths are natural
  numbers; where the code saturates or can overflow it is written out (\<open>U32_MAX\<close>, the
  \<open>SubtractOverflow\<close> branch of a read, the 32-bit length of a frame), and addresses and bytes are words.
  Instants are natural numbers, in seconds in the broker and in nanoseconds in the gate and the
  quotas. Loops are structural recursions or have a termination proof (\<open>evict\<close>, \<open>drain\<close>); there is no
  fuel. Code outside the repository is an argument of the definitions that use it: the token hash
  (injective where a theorem needs it), the sketch's keyed hash, the TOML readers, the fingerprint
  parser, the terminal emulator (assumed only to keep the size it was given), BLAKE3 (assumed only
  to return at least eight bytes where an encoding needs them), the TOML writer and the time format
  of the invites (assumed to be undone by their readers), and the results of operating-system
  calls, which arrive inside events or as arguments that say which of them fail.

  \<^bold>\<open>Not modelled\<close>

  The QUIC and TLS transport, the exchange of messages in pairing, and the cryptography of identity
  and handshake, which wrap third-party packages; two hosts that share one invite file; the asynchronous accept loop, the client and the tunnels, whose work is
  socket I/O around the parts above; the interior of the terminal emulator; file-system walks
  and writes (the lock and atomic replacement of the trust store, file transfer); the SOCKS5
  codec, whose host normalisation rests on the standard library's address parsers; derived
  encodings of messages; command line, terminal interface, configuration, diagnostics and tests.
\<close>

end
